(* ===== verification/Kvio_Prelude.thy ===== *)
theory Kvio_Prelude
  imports Complex_Main
begin

text \<open>
  The shared layer of the development: exceptions as values, the result type every fallible
  Python function of the model returns, the loops of the sources as folds over it, decimal
  rendering of integers, and the generic lemmas on lists the components use.

  A Python function that may raise is a HOL function into \<^typ>\<open>'e + 'a\<close>: \<open>Inl e\<close> is the
  exception \<open>e\<close>, \<open>Inr x\<close> the returned value. An exception carries the fixed part of the
  message the source raises (the interpolated values are left out). \<open>Diverges\<close> stands for a call
  that does not return.
\<close>

section \<open>Collections of rewrite rules\<close>

named_theorems result_simps \<open>when a sequence of fallible steps succeeds\<close>
named_theorems json_simps \<open>dictionary access on JSON values\<close>
named_theorems sched_simps \<open>fields of the scheduler state after one operation\<close>

section \<open>Exceptions and results\<close>

datatype exn =
    IntentError string
  | Intent2Error string
  | Workload3Error string
  | CaptureError string
  | TraceError string
  | ReleaseError string
  | RepresentationError string
  | CatalogError string
  | ComparisonError string
  | PreflightError string
  | CrossShardError string
  | RuntimeError string
  | ValueError string
  | OSError int
  | PermissionError string
  | SystemExit string
  | KeyError
  | TypeError
  | AttributeError
  | IndexError
  | ZeroDivisionError
  | OverflowError
  | CaptureFormatError string
  | DuplicateKeyError
  | IrError string
  | UnsupportedConfigError string
  | CorruptEncodedKVError string
  | NotImplementedError
  | StructError
  | UnboundLocalError
  | Diverges

type_synonym 'a result = "exn + 'a"

definition rbind :: "'a result \<Rightarrow> ('a \<Rightarrow> 'b result) \<Rightarrow> 'b result" where
  "rbind m f = (case m of Inl e \<Rightarrow> Inl e | Inr x \<Rightarrow> f x)"

definition require :: "bool \<Rightarrow> exn \<Rightarrow> unit result" where
  "require b e = (if b then Inr () else Inl e)"

declare rbind_def [code_unfold] require_def [code_unfold]

text \<open>
  A \<open>for\<close> loop whose body may raise: the body gets the loop state and the element, the loop
  stops at the first exception.
\<close>

fun mfold :: "('s \<Rightarrow> 'a \<Rightarrow> 's result) \<Rightarrow> 's \<Rightarrow> 'a list \<Rightarrow> 's result" where
  "mfold f s [] = Inr s"
| "mfold f s (x # xs) = rbind (f s x) (\<lambda>s'. mfold f s' xs)"

text \<open>A loop that only checks its elements, and one that collects a value per element.\<close>

definition mforall :: "('a \<Rightarrow> unit result) \<Rightarrow> 'a list \<Rightarrow> unit result" where
  "mforall f xs = mfold (\<lambda>_ x. f x) () xs"

fun mmap :: "('a \<Rightarrow> 'b result) \<Rightarrow> 'a list \<Rightarrow> 'b list result" where
  "mmap f [] = Inr []"
| "mmap f (x # xs) = rbind (f x) (\<lambda>y. rbind (mmap f xs) (\<lambda>ys. Inr (y # ys)))"

lemma rbind_simps [simp]:
  "rbind (Inl e) f = Inl e"
  "rbind (Inr x) f = f x"
  by (simp_all add: rbind_def)

lemma rbind_Inr_iff [result_simps]:
  "rbind m f = Inr y \<longleftrightarrow> (\<exists>x. m = Inr x \<and> f x = Inr y)"
  by (cases m) auto

lemma rbind_assoc [simp]: "rbind (rbind m f) g = rbind m (\<lambda>x. rbind (f x) g)"
  by (cases m) auto

lemma require_True [simp]: "require True e = Inr ()"
  and require_False [simp]: "require False e = Inl e"
  by (simp_all add: require_def)

lemma require_Inr_iff [result_simps]: "require b e = Inr u \<longleftrightarrow> b"
  by (simp add: require_def)

lemma require_Inl_iff: "require b e = Inl e' \<longleftrightarrow> \<not> b \<and> e' = e"
  by (auto simp: require_def)

lemma if_result_Inr_iff [result_simps]:
  "(if b then Inl e else m) = Inr y \<longleftrightarrow> \<not> b \<and> m = Inr y"
  by simp

lemma mfold_append:
  "mfold f s (xs @ ys) = rbind (mfold f s xs) (\<lambda>s'. mfold f s' ys)"
  by (induction xs arbitrary: s) auto

text \<open>The loop rule: an invariant over the processed prefix and the state.\<close>

lemma mfold_rule:
  assumes "mfold f s xs = Inr t"
    and "I [] s"
    and step: "\<And>ys x zs u u'. xs = ys @ x # zs \<Longrightarrow> I ys u \<Longrightarrow> f u x = Inr u' \<Longrightarrow> I (ys @ [x]) u'"
  shows "I xs t"
proof -
  have "mfold f s' zs = Inr t \<Longrightarrow> I ys s' \<Longrightarrow> xs = ys @ zs \<Longrightarrow> I xs t" for ys zs s'
  proof (induction zs arbitrary: ys s')
    case Nil
    then show ?case by simp
  next
    case (Cons x zs)
    then obtain u where u: "f s' x = Inr u" "mfold f u zs = Inr t"
      by (auto simp: rbind_Inr_iff)
    then have "I (ys @ [x]) u"
      using step Cons.prems by blast
    with u Cons show ?case by auto
  qed
  with assms(1,2) show ?thesis by fastforce
qed

text \<open>
  The rule in the other direction: a loop whose body cannot fail under its invariant
  returns, in a state that satisfies it.
\<close>

lemma mfold_total:
  assumes "I [] s"
    and step: "\<And>ys x zs u. xs = ys @ x # zs \<Longrightarrow> I ys u \<Longrightarrow> \<exists>u'. f u x = Inr u' \<and> I (ys @ [x]) u'"
  shows "\<exists>t. mfold f s xs = Inr t \<and> I xs t"
proof -
  have "I ys s' \<Longrightarrow> xs = ys @ zs \<Longrightarrow> \<exists>t. mfold f s' zs = Inr t \<and> I xs t" for ys zs s'
  proof (induction zs arbitrary: ys s')
    case Nil
    then show ?case by simp
  next
    case (Cons x zs)
    then obtain u where u: "f s' x = Inr u" "I (ys @ [x]) u"
      using step by blast
    have "\<exists>t. mfold f u zs = Inr t \<and> I xs t"
      by (rule Cons.IH [OF u(2)]) (simp add: Cons.prems)
    with u show ?case by simp
  qed
  with assms(1) show ?thesis by fastforce
qed

text \<open>
  A scan with \<open>enumerate\<close> whose body succeeds exactly on the elements that are well-formed
  after the earlier ones.
\<close>

lemma mfold_scan:
  assumes init: "I [] s"
    and sound: "\<And>pre u x u'. I pre u \<Longrightarrow> f u (length pre, x) = Inr u' \<Longrightarrow> ok pre x \<and> I (pre @ [x]) u'"
    and complete: "\<And>pre u x. I pre u \<Longrightarrow> ok pre x \<Longrightarrow> \<exists>u'. f u (length pre, x) = Inr u'"
  shows "(\<exists>t. mfold f s (enumerate 0 xs) = Inr t) \<longleftrightarrow> (\<forall>i<length xs. ok (take i xs) (xs ! i))"
    and "mfold f s (enumerate 0 xs) = Inr t \<Longrightarrow> I xs t"
proof (induction xs arbitrary: t rule: rev_induct)
  case Nil
  { case 1 then show ?case by simp }
  { case 2 then show ?case using init by simp }
next
  case (snoc x xs)
  have run: "mfold f s (enumerate 0 (xs @ [x])) =
      rbind (mfold f s (enumerate 0 xs)) (\<lambda>u. f u (length xs, x))"
    by (simp add: enumerate_append_eq mfold_append rbind_def split: sum.split)
  have ok: "(\<forall>i<length (xs @ [x]). ok (take i (xs @ [x])) ((xs @ [x]) ! i)) \<longleftrightarrow>
      (\<forall>i<length xs. ok (take i xs) (xs ! i)) \<and> ok xs x"
    by (simp add: All_less_Suc nth_append conj_commute)
  { case 1
    show ?case
      unfolding run ok rbind_Inr_iff using snoc sound complete by meson }
  { case 2
    then show ?case
      unfolding run rbind_Inr_iff using snoc sound by blast }
qed

lemma mforall_Inr_iff [result_simps]:
  "mforall f xs = Inr u \<longleftrightarrow> (\<forall>x\<in>set xs. f x = Inr ())"
  unfolding mforall_def by (induction xs) (auto simp: rbind_Inr_iff)

lemma mmap_Inr_iff [result_simps]:
  "mmap f xs = Inr ys \<longleftrightarrow> list_all2 (\<lambda>x y. f x = Inr y) xs ys"
proof (induction xs arbitrary: ys)
  case Nil
  then show ?case by auto
next
  case (Cons x xs)
  then show ?case by (cases ys) (auto simp: rbind_Inr_iff)
qed

lemma mmap_total: "(\<And>x. x \<in> set xs \<Longrightarrow> f x = Inr (g x)) \<Longrightarrow> mmap f xs = Inr (map g xs)"
  by (induction xs) auto

section \<open>Decimal text of integers\<close>

definition digit_char :: "nat \<Rightarrow> char" where
  "digit_char d = char_of (48 + d)"

fun str_nat :: "nat \<Rightarrow> string" where
  "str_nat n = (if n < 10 then [digit_char n] else str_nat (n div 10) @ [digit_char (n mod 10)])"

declare str_nat.simps [simp del]

definition str_int :: "int \<Rightarrow> string" where
  "str_int i = (if i < 0 then CHR ''-'' # str_nat (nat (- i)) else str_nat (nat i))"

definition digit_value :: "char \<Rightarrow> nat" where
  "digit_value c = of_char c - 48"

definition is_digit :: "char \<Rightarrow> bool" where
  "is_digit c \<longleftrightarrow> 48 \<le> (of_char c :: nat) \<and> (of_char c :: nat) \<le> 57"

text \<open>Python's \<open>str.isdigit\<close> on ASCII text, and \<open>int\<close> of such a text.\<close>

definition isdigit :: "string \<Rightarrow> bool" where
  "isdigit s \<longleftrightarrow> s \<noteq> [] \<and> list_all is_digit s"

definition int_of_digits :: "string \<Rightarrow> nat" where
  "int_of_digits s = foldl (\<lambda>n c. 10 * n + digit_value c) 0 s"

lemma digit_value_char [simp]: "d < 10 \<Longrightarrow> digit_value (digit_char d) = d"
  by (simp add: digit_value_def digit_char_def)

lemma is_digit_char [simp]: "d < 10 \<Longrightarrow> is_digit (digit_char d)"
  by (simp add: is_digit_def digit_char_def)

lemma int_of_digits_snoc [simp]:
  "int_of_digits (s @ [c]) = 10 * int_of_digits s + digit_value c"
  by (simp add: int_of_digits_def)

lemma int_of_digits_str_nat [simp]: "int_of_digits (str_nat n) = n"
proof (induction n rule: str_nat.induct)
  case (1 n)
  show ?case
  proof (cases "n < 10")
    case True
    then show ?thesis by (simp add: str_nat.simps [of n] int_of_digits_def)
  next
    case False
    with 1 show ?thesis by (simp add: str_nat.simps [of n])
  qed
qed

lemma str_nat_inject [simp]: "str_nat m = str_nat n \<longleftrightarrow> m = n"
  by (metis int_of_digits_str_nat)

lemma isdigit_str_nat [simp]: "isdigit (str_nat n)"
proof (induction n rule: str_nat.induct)
  case (1 n)
  then show ?case by (simp add: str_nat.simps [of n] isdigit_def)
qed

lemma str_nat_not_Nil [simp]: "str_nat n \<noteq> []"
  using isdigit_str_nat [of n] by (simp add: isdigit_def)

lemma str_int_of_nat [simp]: "str_int (int n) = str_nat n"
  by (simp add: str_int_def)

section \<open>Lists\<close>

text \<open>Python's slice \<open>xs[a:b]\<close> for non-negative bounds.\<close>

definition pyslice :: "'a list \<Rightarrow> nat \<Rightarrow> nat \<Rightarrow> 'a list" where
  "pyslice xs a b = take (b - a) (drop a xs)"

lemma length_pyslice [simp]: "length (pyslice xs a b) = min (b - a) (length xs - a)"
  by (simp add: pyslice_def min.commute)

lemma pyslice_append:
  assumes "a \<le> b" "b \<le> c"
  shows "pyslice xs a b @ pyslice xs b c = pyslice xs a c"
proof -
  have "take (c - b) (drop b xs) = take (c - b) (drop (b - a) (drop a xs))"
    using assms by simp
  moreover have "c - a = (b - a) + (c - b)"
    using assms by simp
  ultimately show ?thesis
    unfolding pyslice_def by (simp only: take_add)
qed

lemma pyslice_pyslice: "pyslice (pyslice xs a b) c d = pyslice xs (a + c) (min (a + d) b)"
proof -
  have "min (d - c) (b - a - c) = min (a + d) b - (a + c)"
    by linarith
  then show ?thesis
    unfolding pyslice_def by (simp add: drop_take add.commute)
qed

lemma pyslice_full [simp]: "pyslice xs 0 (length xs) = xs"
  by (simp add: pyslice_def)

text \<open>An event \<open>P\<close> with no \<open>Q\<close> after it, when one more element is appended.\<close>

lemma last_event_snoc:
  "(\<exists>k<length (xs @ [x]). P ((xs @ [x]) ! k) \<and>
      (\<forall>m. k < m \<and> m < length (xs @ [x]) \<longrightarrow> \<not> Q ((xs @ [x]) ! m))) \<longleftrightarrow>
   P x \<or> (\<exists>k<length xs. P (xs ! k) \<and> (\<forall>m. k < m \<and> m < length xs \<longrightarrow> \<not> Q (xs ! m))) \<and> \<not> Q x"
  (is "?L \<longleftrightarrow> ?R")
proof
  assume ?L
  then obtain k where k: "k < length (xs @ [x])" "P ((xs @ [x]) ! k)"
    "\<And>m. k < m \<Longrightarrow> m < length (xs @ [x]) \<Longrightarrow> \<not> Q ((xs @ [x]) ! m)"
    by blast
  show ?R
  proof (cases "k = length xs")
    case True
    with k show ?thesis by simp
  next
    case False
    with k(1) have "k < length xs" by simp
    moreover from this k(2) have "P (xs ! k)" by (simp add: nth_append)
    moreover have "\<not> Q (xs ! m)" if "k < m" "m < length xs" for m
      using k(3) [of m] that by (simp add: nth_append)
    moreover have "\<not> Q x"
      using k(3) [of "length xs"] \<open>k < length xs\<close> by simp
    ultimately show ?thesis by blast
  qed
next
  assume ?R
  then show ?L
  proof
    assume "P x"
    then show ?L by (intro exI [of _ "length xs"]) auto
  next
    assume "(\<exists>k<length xs. P (xs ! k) \<and> (\<forall>m. k < m \<and> m < length xs \<longrightarrow> \<not> Q (xs ! m))) \<and> \<not> Q x"
    then obtain k where k: "k < length xs" "P (xs ! k)" "\<not> Q x"
      "\<And>m. k < m \<Longrightarrow> m < length xs \<Longrightarrow> \<not> Q (xs ! m)"
      by blast
    then show ?L
      by (intro exI [of _ k]) (auto simp: nth_append less_Suc_eq)
  qed
qed

section \<open>State machines\<close>

text \<open>The contract of a step relation with an invariant, and what it gives for every run.\<close>

locale state_machine =
  fixes start :: "'s \<Rightarrow> bool" and step :: "'s \<Rightarrow> 's \<Rightarrow> bool" and inv :: "'s \<Rightarrow> bool"
  assumes start_inv: "start s \<Longrightarrow> inv s"
    and step_inv: "step s t \<Longrightarrow> inv s \<Longrightarrow> inv t"
begin

lemma run_inv: "step\<^sup>*\<^sup>* s t \<Longrightarrow> inv s \<Longrightarrow> inv t"
  by (induction rule: rtranclp_induct) (auto intro: step_inv)

lemma reachable_state_inv: "start s \<Longrightarrow> step\<^sup>*\<^sup>* s t \<Longrightarrow> inv t"
  using run_inv start_inv by blast

lemma steps_inv: "(step ^^ n) s t \<Longrightarrow> inv s \<Longrightarrow> inv t"
  using run_inv relpowp_imp_rtranclp by metis

end

end
