(* ===== verification/Kvio_Json.thy ===== *)
theory Kvio_Json
  imports Kvio_Prelude "HOL-Library.AList"
begin

text \<open>
  The values \<open>json.loads\<close> returns and the Python operations the sources apply to them.

  A dictionary is an association list in insertion order (the sources iterate over it); the
  values of the model are those whose keys are distinct (\<open>json_wf\<close>). A number with a fraction
  part or an exponent in the text is a float: a rational, an infinity or not-a-number (the
  decoder accepts \<open>NaN\<close> and \<open>Infinity\<close>); negative zero is not told apart from zero. Text is
  ASCII.

  Python's \<open>==\<close> compares numbers by value across \<open>bool\<close>, \<open>int\<close> and \<open>float\<close> (so \<open>True == 1 == 1.0\<close>)
  and dictionaries without regard to order; both are visible in what the validators accept.
\<close>

section \<open>Values\<close>

datatype pyfloat = Finite rat | PosInf | NegInf | NaN

datatype json =
    JNull
  | JBool bool
  | JInt int
  | JFloat pyfloat
  | JStr string
  | JList "json list"
  | JObj "(string \<times> json) list"

type_synonym fields = "(string \<times> json) list"

fun json_wf :: "json \<Rightarrow> bool" where
  "json_wf (JList xs) = (\<forall>x\<in>set xs. json_wf x)"
| "json_wf (JObj kvs) = (distinct (map fst kvs) \<and> (\<forall>p\<in>set kvs. json_wf (snd p)))"
| "json_wf _ = True"

section \<open>Equality, truth and text\<close>

fun num_of :: "json \<Rightarrow> pyfloat option" where
  "num_of (JBool b) = Some (Finite (if b then 1 else 0))"
| "num_of (JInt i) = Some (Finite (of_int i))"
| "num_of (JFloat f) = Some f"
| "num_of _ = None"

definition num_eq :: "json \<Rightarrow> json \<Rightarrow> bool" where
  "num_eq a b \<longleftrightarrow> num_of a \<noteq> None \<and> num_of a \<noteq> Some NaN \<and> num_of a = num_of b"

fun py_eq :: "json \<Rightarrow> json \<Rightarrow> bool"
  and py_eq_list :: "json list \<Rightarrow> json list \<Rightarrow> bool"
  and py_eq_obj :: "fields \<Rightarrow> fields \<Rightarrow> bool" where
  "py_eq JNull b = (b = JNull)"
| "py_eq (JBool x) b = num_eq (JBool x) b"
| "py_eq (JInt x) b = num_eq (JInt x) b"
| "py_eq (JFloat x) b = num_eq (JFloat x) b"
| "py_eq (JStr s) b = (b = JStr s)"
| "py_eq (JList xs) b = (case b of JList ys \<Rightarrow> py_eq_list xs ys | _ \<Rightarrow> False)"
| "py_eq (JObj kvs) b =
     (case b of JObj lvs \<Rightarrow> length kvs = length lvs \<and> py_eq_obj kvs lvs | _ \<Rightarrow> False)"
| "py_eq_list [] ys = (ys = [])"
| "py_eq_list (x # xs) ys = (case ys of [] \<Rightarrow> False | y # ys' \<Rightarrow> py_eq x y \<and> py_eq_list xs ys')"
| "py_eq_obj [] lvs = True"
| "py_eq_obj ((k, v) # kvs) lvs =
     (case map_of lvs k of None \<Rightarrow> False | Some w \<Rightarrow> py_eq v w \<and> py_eq_obj kvs lvs)"

text \<open>Truth of a value in a condition (\<open>if v\<close>, \<open>v or w\<close>, \<open>not v\<close>).\<close>

fun truthy :: "json \<Rightarrow> bool" where
  "truthy JNull = False"
| "truthy (JBool b) = b"
| "truthy (JInt i) = (i \<noteq> 0)"
| "truthy (JFloat f) = (f \<noteq> Finite 0)"
| "truthy (JStr s) = (s \<noteq> [])"
| "truthy (JList xs) = (xs \<noteq> [])"
| "truthy (JObj kvs) = (kvs \<noteq> [])"

text \<open>
  \<open>str(v)\<close>, also what an f-string shows. \<open>None\<close> stands for a text the model does not render:
  of a float that is not a small whole number, and of a list or dictionary. None of those
  texts consists of digits only.
\<close>

fun py_str :: "json \<Rightarrow> string option" where
  "py_str JNull = Some ''None''"
| "py_str (JBool b) = Some (if b then ''True'' else ''False'')"
| "py_str (JInt i) = Some (str_int i)"
| "py_str (JFloat (Finite q)) =
     (if q = of_int \<lfloor>q\<rfloor> \<and> \<bar>\<lfloor>q\<rfloor>\<bar> < 10 ^ 16 then Some (str_int \<lfloor>q\<rfloor> @ ''.0'') else None)"
| "py_str (JFloat _) = None"
| "py_str (JStr s) = Some s"
| "py_str (JList _) = None"
| "py_str (JObj _) = None"

section \<open>Type tests\<close>

fun is_obj :: "json \<Rightarrow> bool" where "is_obj (JObj _) = True" | "is_obj _ = False"
fun is_list :: "json \<Rightarrow> bool" where "is_list (JList _) = True" | "is_list _ = False"
fun is_str :: "json \<Rightarrow> bool" where "is_str (JStr _) = True" | "is_str _ = False"

text \<open>\<open>isinstance(v, int) and not isinstance(v, bool)\<close>, and the non-empty string test.\<close>

fun is_int :: "json \<Rightarrow> bool" where "is_int (JInt _) = True" | "is_int _ = False"
fun nonempty_str :: "json \<Rightarrow> bool" where "nonempty_str (JStr s) = (s \<noteq> [])" | "nonempty_str _ = False"

fun hashable :: "json \<Rightarrow> bool" where
  "hashable (JList _) = False" | "hashable (JObj _) = False" | "hashable _ = True"

fun the_int :: "json \<Rightarrow> int" where "the_int (JInt i) = i" | "the_int _ = 0"
fun the_str :: "json \<Rightarrow> string" where "the_str (JStr s) = s" | "the_str _ = []"
fun the_list :: "json \<Rightarrow> json list" where "the_list (JList xs) = xs" | "the_list _ = []"
fun the_obj :: "json \<Rightarrow> fields" where "the_obj (JObj kvs) = kvs" | "the_obj _ = []"

section \<open>Dictionary access\<close>

text \<open>
  \<open>fld v k\<close> is the value of a key, \<open>None\<close> (JSON null) when it is absent or \<open>v\<close> is no
  dictionary. \<open>obj_get\<close> is \<open>v.get(k)\<close>, \<open>obj_get_default\<close> is \<open>v.get(k, d)\<close>, \<open>obj_index\<close> is \<open>v[k]\<close>.
\<close>

definition fld :: "json \<Rightarrow> string \<Rightarrow> json" where
  "fld v k = (case map_of (the_obj v) k of None \<Rightarrow> JNull | Some w \<Rightarrow> w)"

definition has_key :: "json \<Rightarrow> string \<Rightarrow> bool" where
  "has_key v k \<longleftrightarrow> k \<in> fst ` set (the_obj v)"

definition obj_get :: "json \<Rightarrow> string \<Rightarrow> json result" where
  "obj_get v k = (if is_obj v then Inr (fld v k) else Inl AttributeError)"

definition obj_get_default :: "json \<Rightarrow> string \<Rightarrow> json \<Rightarrow> json result" where
  "obj_get_default v k d =
     (if is_obj v then Inr (if has_key v k then fld v k else d) else Inl AttributeError)"

definition obj_index :: "json \<Rightarrow> string \<Rightarrow> json result" where
  "obj_index v k =
     (if \<not> is_obj v then Inl TypeError else if has_key v k then Inr (fld v k) else Inl KeyError)"

text \<open>\<open>v in allowed\<close> for a tuple of strings (no hashing), and for the keys of a dictionary or a set.\<close>

definition in_tuple :: "json \<Rightarrow> string list \<Rightarrow> bool" where
  "in_tuple v allowed \<longleftrightarrow> is_str v \<and> the_str v \<in> set allowed"

definition in_keys :: "json \<Rightarrow> string list \<Rightarrow> bool result" where
  "in_keys v keys = (if hashable v then Inr (is_str v \<and> the_str v \<in> set keys) else Inl TypeError)"

definition obj_keys :: "json \<Rightarrow> string list" where
  "obj_keys v = map fst (the_obj v)"

text \<open>\<open>d[k] = v\<close>: an existing key keeps its place, a new one goes to the end.\<close>

definition obj_set :: "json \<Rightarrow> string \<Rightarrow> json \<Rightarrow> json" where
  "obj_set d k v = JObj (AList.update k v (the_obj d))"

text \<open>
  \<open>x in v\<close> for any container (a key of a dictionary, an element of a list, a part of a
  string), and the elements \<open>for x in v\<close> runs over.
\<close>

fun starts_with :: "string \<Rightarrow> string \<Rightarrow> bool" where
  "starts_with s [] = True"
| "starts_with [] (c # p) = False"
| "starts_with (d # s) (c # p) = (d = c \<and> starts_with s p)"

fun is_substring :: "string \<Rightarrow> string \<Rightarrow> bool" where
  "is_substring p [] = (p = [])"
| "is_substring p (c # s) = (starts_with (c # s) p \<or> is_substring p s)"

fun py_in :: "json \<Rightarrow> json \<Rightarrow> bool result" where
  "py_in x (JObj kvs) = in_keys x (map fst kvs)"
| "py_in x (JList ys) = Inr (\<exists>y\<in>set ys. py_eq y x)"
| "py_in x (JStr s) = (if is_str x then Inr (is_substring (the_str x) s) else Inl TypeError)"
| "py_in x _ = Inl TypeError"

fun py_iter :: "json \<Rightarrow> json list result" where
  "py_iter (JList xs) = Inr xs"
| "py_iter (JObj kvs) = Inr (map (\<lambda>p. JStr (fst p)) kvs)"
| "py_iter (JStr s) = Inr (map (\<lambda>c. JStr [c]) s)"
| "py_iter _ = Inl TypeError"

text \<open>\<open>s.split(sep)\<close> for a one-character separator, and the path test of the sources.\<close>

fun split_on :: "char \<Rightarrow> string \<Rightarrow> string list" where
  "split_on sep [] = [[]]"
| "split_on sep (c # s) =
     (if c = sep then [] # split_on sep s
      else (case split_on sep s of [] \<Rightarrow> [[c]] | w # ws \<Rightarrow> (c # w) # ws))"

definition traversal_free :: "string \<Rightarrow> bool" where
  "traversal_free p \<longleftrightarrow> \<not> starts_with p ''/'' \<and> ''..'' \<notin> set (split_on (CHR ''/'') p)"

text \<open>The comparison \<open>i > v\<close> of an integer with a decoded value.\<close>

definition int_gt :: "int \<Rightarrow> json \<Rightarrow> bool result" where
  "int_gt i v = (case num_of v of
      None \<Rightarrow> Inl TypeError
    | Some (Finite q) \<Rightarrow> Inr (of_int i > q)
    | Some PosInf \<Rightarrow> Inr False
    | Some NegInf \<Rightarrow> Inr True
    | Some NaN \<Rightarrow> Inr False)"

text \<open>
  The three field checks the validators share, each with its own exception class: an integer
  that is no \<open>bool\<close> and at least a minimum, a non-empty string, a member of a tuple.
\<close>

definition check_int :: "(string \<Rightarrow> exn) \<Rightarrow> json \<Rightarrow> int \<Rightarrow> int result" where
  "check_int E v minimum =
     (if is_int v \<and> minimum \<le> the_int v then Inr (the_int v)
      else Inl (E ''must be an integer >= minimum''))"

definition check_str :: "(string \<Rightarrow> exn) \<Rightarrow> json \<Rightarrow> string result" where
  "check_str E v =
     (if nonempty_str v then Inr (the_str v) else Inl (E ''must be a non-empty string''))"

definition check_enum :: "(string \<Rightarrow> exn) \<Rightarrow> json \<Rightarrow> string list \<Rightarrow> string result" where
  "check_enum E v allowed =
     (if in_tuple v allowed then Inr (the_str v) else Inl (E ''must be one of the allowed values''))"

section \<open>Lemmas\<close>

lemma is_obj_iff: "is_obj v \<longleftrightarrow> (\<exists>kvs. v = JObj kvs)"
  by (cases v) auto

lemma is_list_iff: "is_list v \<longleftrightarrow> (\<exists>xs. v = JList xs)"
  by (cases v) auto

lemma is_str_iff: "is_str v \<longleftrightarrow> (\<exists>s. v = JStr s)"
  by (cases v) auto

lemma is_int_iff: "is_int v \<longleftrightarrow> (\<exists>i. v = JInt i)"
  by (cases v) auto

lemma nonempty_str_iff: "nonempty_str v \<longleftrightarrow> (\<exists>s. v = JStr s \<and> s \<noteq> [])"
  by (cases v) auto

lemma obj_get_Inr_iff [result_simps]: "obj_get v k = Inr w \<longleftrightarrow> is_obj v \<and> w = fld v k"
  by (auto simp: obj_get_def)

lemma obj_get_default_Inr_iff [result_simps]:
  "obj_get_default v k d = Inr w \<longleftrightarrow> is_obj v \<and> w = (if has_key v k then fld v k else d)"
  by (auto simp: obj_get_default_def)

lemma obj_index_Inr_iff [result_simps]:
  "obj_index v k = Inr w \<longleftrightarrow> is_obj v \<and> has_key v k \<and> w = fld v k"
  by (auto simp: obj_index_def)

lemma in_keys_Inr_iff [result_simps]:
  "in_keys v keys = Inr b \<longleftrightarrow> hashable v \<and> b = (is_str v \<and> the_str v \<in> set keys)"
  by (auto simp: in_keys_def)

lemma check_int_Inr_iff [result_simps]:
  "check_int E v m = Inr i \<longleftrightarrow> v = JInt i \<and> m \<le> i"
  by (cases v) (auto simp: check_int_def)

lemma check_str_Inr_iff [result_simps]:
  "check_str E v = Inr s \<longleftrightarrow> v = JStr s \<and> s \<noteq> []"
  by (cases v) (auto simp: check_str_def)

lemma check_enum_Inr_iff [result_simps]:
  "check_enum E v allowed = Inr s \<longleftrightarrow> v = JStr s \<and> s \<in> set allowed"
  by (cases v) (auto simp: check_enum_def in_tuple_def)

lemma obj_get_JObj [simp]: "obj_get (JObj kvs) k = Inr (fld (JObj kvs) k)"
  by (simp add: obj_get_def)

lemma has_key_obj_keys: "has_key v k \<longleftrightarrow> k \<in> set (obj_keys v)"
  by (simp add: has_key_def obj_keys_def)

lemma fld_nonnull_has_key: "fld v k \<noteq> JNull \<Longrightarrow> has_key v k"
  by (force simp: fld_def has_key_def split: option.splits dest: map_of_SomeD)

lemma fld_nonnull_is_obj: "fld v k \<noteq> JNull \<Longrightarrow> is_obj v"
  by (cases v) (auto simp: fld_def)

lemma fld_in_set: "has_key v k \<Longrightarrow> (k, fld v k) \<in> set (the_obj v)"
  by (auto simp: fld_def has_key_def map_of_eq_None_iff image_iff split: option.splits
      dest: map_of_SomeD)

lemma fld_of_member:
  "distinct (map fst kvs) \<Longrightarrow> (k, v) \<in> set kvs \<Longrightarrow> fld (JObj kvs) k = v"
  by (simp add: fld_def)

lemma fld_set: "fld (obj_set d k v) k' = (if k' = k then v else fld d k')"
  by (simp add: fld_def obj_set_def update_conv)

lemma is_obj_obj_set [simp]: "is_obj (obj_set d k v)"
  by (simp add: obj_set_def)

lemma the_obj_obj_set: "the_obj (obj_set d k v) = AList.update k v (the_obj d)"
  by (simp add: obj_set_def)

lemma has_key_set: "has_key (obj_set d k v) k' \<longleftrightarrow> k' = k \<or> has_key d k'"
  by (auto simp: has_key_def the_obj_obj_set dom_update)

text \<open>Evaluation of a field of a literal dictionary.\<close>

lemma fld_simps [simp, json_simps]:
  "fld (JObj []) k = JNull"
  "fld (JObj ((k', v) # kvs)) k = (if k' = k then v else fld (JObj kvs) k)"
  "fld JNull k = JNull"
  "fld (JInt i) k = JNull" "fld (JStr s) k = JNull" "fld (JBool b) k = JNull"
  "fld (JList l) k = JNull" "fld (JFloat f) k = JNull"
  by (auto simp: fld_def)

lemma has_key_simps [simp, json_simps]:
  "has_key (JObj []) k = False"
  "has_key (JObj ((k', v) # kvs)) k = (k = k' \<or> has_key (JObj kvs) k)"
  by (auto simp: has_key_def)

lemma py_eq_JInt_iff: "py_eq v (JInt i) \<longleftrightarrow> num_of v = Some (Finite (of_int i))"
  by (cases v) (auto simp: num_eq_def)

lemma py_eq_JStr_iff [simp]: "py_eq v (JStr s) \<longleftrightarrow> v = JStr s"
  by (cases v) (auto simp: num_eq_def)

lemma py_eq_JInt_JInt [simp]: "py_eq (JInt i) (JInt j) \<longleftrightarrow> i = j"
  by (auto simp: num_eq_def)

text \<open>Equality is reflexive on the values the decoder builds without \<open>NaN\<close>.\<close>

fun no_nan :: "json \<Rightarrow> bool" where
  "no_nan (JFloat f) = (f \<noteq> NaN)"
| "no_nan (JList xs) = (\<forall>x\<in>set xs. no_nan x)"
| "no_nan (JObj kvs) = (\<forall>p\<in>set kvs. no_nan (snd p))"
| "no_nan _ = True"

lemma py_eq_list_refl: "(\<And>x. x \<in> set xs \<Longrightarrow> py_eq x x) \<Longrightarrow> py_eq_list xs xs"
  by (induction xs) auto

lemma py_eq_obj_refl:
  assumes "\<forall>p\<in>set kvs. py_eq (snd p) (snd p)" "distinct (map fst lvs)" "set kvs \<subseteq> set lvs"
  shows "py_eq_obj kvs lvs"
  using assms by (induction kvs) auto

lemma py_eq_refl: "json_wf v \<Longrightarrow> no_nan v \<Longrightarrow> py_eq v v"
proof (induction v)
  case (JList xs)
  then show ?case by (auto intro: py_eq_list_refl)
next
  case (JObj kvs)
  then have "py_eq_obj kvs kvs"
    by (intro py_eq_obj_refl) fastforce+
  then show ?case by simp
qed (auto simp: num_eq_def)

section \<open>The index of operation identifiers\<close>

text \<open>
  Both validators scan their operations with a dictionary from each identifier seen so far to
  its position. \<open>id_index pre seen\<close> says that \<open>seen\<close> is that dictionary after the operations
  \<open>pre\<close>.
\<close>

definition id_index :: "json list \<Rightarrow> (string \<Rightarrow> nat option) \<Rightarrow> bool" where
  "id_index pre seen \<longleftrightarrow>
     (\<forall>x p. seen x = Some p \<longleftrightarrow> p < length pre \<and> fld (pre ! p) ''op_id'' = JStr x)"

lemma id_index_Nil [simp]: "id_index [] Map.empty"
  by (simp add: id_index_def)

lemma id_index_None:
  assumes "id_index pre seen"
  shows "seen x = None \<longleftrightarrow> (\<forall>e\<in>set pre. fld e ''op_id'' \<noteq> JStr x)"
proof -
  have "seen x = None \<longleftrightarrow> \<not> (\<exists>p. seen x = Some p)"
    by simp
  also have "\<dots> \<longleftrightarrow> \<not> (\<exists>p<length pre. fld (pre ! p) ''op_id'' = JStr x)"
    using assms by (simp only: id_index_def)
  also have "\<dots> \<longleftrightarrow> (\<forall>e\<in>set pre. fld e ''op_id'' \<noteq> JStr x)"
    by (simp only: all_set_conv_all_nth) blast
  finally show ?thesis .
qed

lemma id_index_snoc:
  assumes "id_index pre seen" "seen x = None" "fld op ''op_id'' = JStr x"
  shows "id_index (pre @ [op]) (seen(x \<mapsto> length pre))"
  using assms id_index_None [OF assms(1)]
  by (auto simp: id_index_def nth_append less_Suc_eq split: if_splits)

text \<open>An identifier has an earlier position exactly when an earlier operation carries it.\<close>

lemma id_index_earlier:
  assumes index: "id_index pre seen" and "seen x = None"
  shows "(case (seen(x \<mapsto> length pre)) y of None \<Rightarrow> False | Some p \<Rightarrow> p < length pre)
           \<longleftrightarrow> (\<exists>e\<in>set pre. fld e ''op_id'' = JStr y)"
proof (cases "y = x")
  case True
  then show ?thesis using assms(2) id_index_None [OF index] by simp
next
  case False
  have "(\<exists>e\<in>set pre. fld e ''op_id'' = JStr y) \<longleftrightarrow> seen y \<noteq> None"
    using id_index_None [OF index, of y] by auto
  moreover have "seen y = Some p \<Longrightarrow> p < length pre" for p
    using index unfolding id_index_def by blast
  ultimately show ?thesis
    using False by (cases "seen y") simp_all
qed

end
