(* ===== verification/Intent_V2.thy ===== *)
theory Intent_V2
  imports Kvio_Json
begin

text \<open>
  The object workload record \<open>kvio.intent.v2\<close> (\<open>src/tools/kvio/intent2.py\<close>): how a record is
  built, and the validator every consumer of one runs first.

  The validator is translated section by section, in the source's order of checks, over decoded
  JSON values, so that a malformed record raises here what it raises there: its own
  \<open>Intent2Error\<close>, or the \<open>AttributeError\<close>, \<open>KeyError\<close> or \<open>TypeError\<close> of an unguarded access.
\<close>

section \<open>Constants\<close>

definition V2_SCHEMA :: string where "V2_SCHEMA = ''kvio.intent.v2''"
definition V2_KIND :: string where "V2_KIND = ''object-workload''"
definition V2_CAPTURE_LEVELS :: "string list" where
  "V2_CAPTURE_LEVELS = [''generated'', ''A1'', ''request'']"
definition V2_MAPPING_METHODS :: "string list" where
  "V2_MAPPING_METHODS = [''declared'', ''verified'', ''heuristic'']"
definition V2_COMPLETENESS :: "string list" where
  "V2_COMPLETENESS = [''complete'', ''partial'']"
definition V2_TIMING_MODELS :: "string list" where
  "V2_TIMING_MODELS = [''absent'', ''captured'', ''synthetic'']"
definition V2_OPS :: "string list" where
  "V2_OPS = [''store'', ''load'', ''release'']"
definition V2_OUTCOMES :: "string list" where
  "V2_OUTCOMES = [''success'', ''miss'', ''already_present'', ''rejected'', ''short'',
                  ''cancelled'', ''error'']"
definition V2_TIERS :: "string list" where
  "V2_TIERS = [''storage'', ''ram'', ''unknown'']"

lemmas v2_consts = V2_SCHEMA_def V2_KIND_def V2_CAPTURE_LEVELS_def V2_MAPPING_METHODS_def
  V2_COMPLETENESS_def V2_TIMING_MODELS_def V2_OPS_def V2_OUTCOMES_def V2_TIERS_def

definition v2_int :: "json \<Rightarrow> int \<Rightarrow> int result" where
  "v2_int = check_int Intent2Error"

definition v2_str :: "json \<Rightarrow> string result" where
  "v2_str = check_str Intent2Error"

definition v2_enum :: "json \<Rightarrow> string list \<Rightarrow> string result" where
  "v2_enum = check_enum Intent2Error"

section \<open>Building a record\<close>

text \<open>
  \<open>notes or []\<close>, \<open>source or {}\<close> and \<open>engine.get(...)\<close> with their defaults; \<open>engine\<close> and
  \<open>source\<close> are dictionaries and \<open>notes\<close> is a list at every call.
\<close>

definition new_intent ::
  "string \<Rightarrow> string \<Rightarrow> string \<Rightarrow> json \<Rightarrow> string \<Rightarrow> json list \<Rightarrow> fields \<Rightarrow> json result" where
  "new_intent capture_level mapping_method timing_model engine completeness notes source =
     rbind (obj_get_default engine ''name'' (JStr ''unknown'')) (\<lambda>name.
     rbind (obj_get_default engine ''revision'' (JStr ''unknown'')) (\<lambda>revision.
     rbind (obj_get_default engine ''layout'' (JObj [])) (\<lambda>layout. Inr (JObj [
       (''schema'', JStr V2_SCHEMA),
       (''kind'', JStr V2_KIND),
       (''provenance'', JObj [
          (''capture_level'', JStr capture_level),
          (''mapping_method'', JStr mapping_method),
          (''completeness'', JObj [(''status'', JStr completeness), (''notes'', JList notes)]),
          (''timing_model'', JStr timing_model),
          (''source'', JObj source)]),
       (''engine'', JObj [(''name'', name), (''revision'', revision),
                          (''layout'', JObj (the_obj layout))]),
       (''representations'', JObj []),
       (''objects'', JObj []),
       (''initial_state'', JObj [(''live'', JList [])]),
       (''operations'', JList []),
       (''health'', JObj []),
       (''timing'', JObj [(''sidecar'', JNull), (''sidecar_sha256'', JNull)])]))))"

definition add_representation ::
  "json \<Rightarrow> string \<Rightarrow> string \<Rightarrow> int \<Rightarrow> json \<Rightarrow> json list \<Rightarrow> json" where
  "add_representation intent rep_id codec encoded_bytes logical_bytes components =
     obj_set intent ''representations'' (obj_set (fld intent ''representations'') rep_id (JObj [
       (''codec'', JStr codec), (''encoded_bytes'', JInt encoded_bytes),
       (''logical_bytes'', logical_bytes),
       (''components'', JList (if components \<noteq> [] then components
          else [JObj [(''role'', JStr ''payload''), (''offset'', JInt 0),
                      (''length'', JInt encoded_bytes)]]))]))"

definition add_object_version :: "json \<Rightarrow> string \<Rightarrow> int \<Rightarrow> string \<Rightarrow> json result" where
  "add_object_version intent object_id version rep_name =
     rbind (obj_index (fld intent ''representations'') rep_name) (\<lambda>rep.
     rbind (obj_index rep ''encoded_bytes'') (\<lambda>bytes.
       let objects = fld intent ''objects'';
           entry = (if has_key objects object_id then fld objects object_id
                    else JObj [(''versions'', JObj [])]);
           versions = obj_set (fld entry ''versions'') (str_int version)
                        (JObj [(''representation'', JStr rep_name), (''bytes'', bytes)])
       in Inr (obj_set intent ''objects''
                 (obj_set objects object_id (obj_set entry ''versions'' versions)))))"

text \<open>The keyword arguments of \<open>add_operation\<close>; a default of \<open>None\<close> is \<open>JNull\<close>.\<close>

record v2_op_args =
  oa_op_id :: string
  oa_op :: string
  oa_object_id :: string
  oa_version :: int
  oa_stream :: json
  oa_deps :: "string list"
  oa_range :: json
  oa_batch_id :: json
  oa_release_ns :: json
  oa_declared_delay_ns :: json
  oa_source_outcome :: json
  oa_requested_bytes :: json

definition v2_default_requested :: "json \<Rightarrow> v2_op_args \<Rightarrow> json result" where
  "v2_default_requested intent a =
     (if oa_requested_bytes a \<noteq> JNull then Inr (oa_requested_bytes a)
      else if oa_range a \<noteq> JNull then obj_index (oa_range a) ''length''
      else if oa_op a = ''release'' then Inr (JInt 0)
      else rbind (obj_index (fld intent ''objects'') (oa_object_id a)) (\<lambda>entry.
           rbind (obj_index entry ''versions'') (\<lambda>versions.
           rbind (obj_index versions (str_int (oa_version a))) (\<lambda>v.
             obj_index v ''bytes''))))"

definition v2_operation :: "nat \<Rightarrow> v2_op_args \<Rightarrow> json \<Rightarrow> json" where
  "v2_operation pos a requested = JObj [
     (''op_id'', JStr (oa_op_id a)), (''seq'', JInt (int pos)), (''op'', JStr (oa_op a)),
     (''object_id'', JStr (oa_object_id a)), (''version'', JInt (oa_version a)),
     (''range'', oa_range a), (''stream'', oa_stream a), (''batch_id'', oa_batch_id a),
     (''deps'', JList (map JStr (oa_deps a))), (''release_ns'', oa_release_ns a),
     (''declared_delay_ns'', oa_declared_delay_ns a), (''requested_bytes'', requested),
     (''source_outcome'', oa_source_outcome a)]"

definition add_operation :: "json \<Rightarrow> v2_op_args \<Rightarrow> json result" where
  "add_operation intent a =
     rbind (v2_default_requested intent a) (\<lambda>requested.
       let ops = the_list (fld intent ''operations'') in
       Inr (obj_set intent ''operations'' (JList (ops @ [v2_operation (length ops) a requested]))))"

section \<open>Validating a record\<close>

definition v2_check_provenance :: "json \<Rightarrow> string result" where
  "v2_check_provenance prov =
     rbind (require (is_obj prov) (Intent2Error ''provenance must be an object'')) (\<lambda>_.
     rbind (v2_enum (fld prov ''capture_level'') V2_CAPTURE_LEVELS) (\<lambda>level.
     rbind (v2_enum (fld prov ''mapping_method'') V2_MAPPING_METHODS) (\<lambda>mapping.
     let comp = fld prov ''completeness'' in
     rbind (require (is_obj comp) (Intent2Error ''provenance.completeness must be an object'')) (\<lambda>_.
     rbind (v2_enum (fld comp ''status'') V2_COMPLETENESS) (\<lambda>_.
     rbind (v2_enum (fld prov ''timing_model'') V2_TIMING_MODELS) (\<lambda>timing_model.
     rbind (require (\<not> (level = ''A1'' \<and> mapping = ''heuristic''))
       (Intent2Error ''an engine-boundary capture cannot have a heuristic object mapping'')) (\<lambda>_.
     rbind (require (\<not> (level = ''generated'' \<and> timing_model = ''captured''))
       (Intent2Error ''a generated workload has no captured timing'')) (\<lambda>_.
     Inr timing_model))))))))"

definition v2_check_engine :: "json \<Rightarrow> unit result" where
  "v2_check_engine engine =
     rbind (require (is_obj engine) (Intent2Error ''engine must be an object'')) (\<lambda>_.
     rbind (v2_str (fld engine ''name'')) (\<lambda>_.
     rbind (v2_str (fld engine ''revision'')) (\<lambda>_.
     require (is_obj (fld engine ''layout'')) (Intent2Error ''engine.layout must be an object''))))"

definition v2_check_component :: "int \<Rightarrow> json \<Rightarrow> int result" where
  "v2_check_component covered c =
     rbind (obj_get c ''role'') (\<lambda>role.
     rbind (v2_str role) (\<lambda>_.
     rbind (v2_int (fld c ''offset'') 0) (\<lambda>off.
     rbind (v2_int (fld c ''length'') 1) (\<lambda>ln.
     rbind (require (off = covered)
       (Intent2Error ''components must tile the object without gaps'')) (\<lambda>_.
     Inr (covered + ln))))))"

definition v2_check_representation :: "string \<times> json \<Rightarrow> unit result" where
  "v2_check_representation item = (case item of (rep_id, rep) \<Rightarrow>
     rbind (v2_str (JStr rep_id)) (\<lambda>_.
     rbind (obj_get rep ''codec'') (\<lambda>codec.
     rbind (v2_str codec) (\<lambda>_.
     rbind (v2_int (fld rep ''encoded_bytes'') 1) (\<lambda>size.
     rbind (if fld rep ''logical_bytes'' \<noteq> JNull then v2_int (fld rep ''logical_bytes'') 0 else Inr 0) (\<lambda>_.
     let comps = fld rep ''components'' in
     rbind (require (is_list comps \<and> the_list comps \<noteq> [])
       (Intent2Error ''components must be a non-empty list'')) (\<lambda>_.
     rbind (mfold v2_check_component 0 (the_list comps)) (\<lambda>covered.
     require (covered = size) (Intent2Error ''components do not cover the object'')))))))))"

definition v2_check_version :: "json \<Rightarrow> string \<times> json \<Rightarrow> unit result" where
  "v2_check_version reps item = (case item of (v, ver) \<Rightarrow>
     rbind (require (isdigit v) (Intent2Error ''version must be an integer'')) (\<lambda>_.
     let rep = (if is_obj ver then fld ver ''representation'' else JNull) in
     rbind (in_keys rep (obj_keys reps)) (\<lambda>known.
     rbind (require known (Intent2Error ''names an unknown representation'')) (\<lambda>_.
     rbind (obj_get ver ''bytes'') (\<lambda>bytes.
     rbind (obj_index (fld reps (the_str rep)) ''encoded_bytes'') (\<lambda>encoded.
     require (py_eq bytes encoded)
       (Intent2Error ''bytes disagrees with its representation'')))))))"

definition v2_check_object :: "json \<Rightarrow> string \<times> json \<Rightarrow> unit result" where
  "v2_check_object reps item = (case item of (object_id, obj) \<Rightarrow>
     rbind (v2_str (JStr object_id)) (\<lambda>_.
     let versions = (if is_obj obj then fld obj ''versions'' else JNull) in
     rbind (require (is_obj versions \<and> the_obj versions \<noteq> [])
       (Intent2Error ''versions must be non-empty'')) (\<lambda>_.
     mforall (v2_check_version reps) (the_obj versions))))"

text \<open>
  \<open>oid not in objects or str(ver) not in objects[oid]["versions"]\<close>, which raises; otherwise the
  key \<open>(oid, str(ver))\<close> the validator keeps. The version keys have been checked to be digit
  strings, so a value whose text \<open>py_str\<close> does not render is not one of them.
\<close>

definition v2_known_version :: "json \<Rightarrow> json \<Rightarrow> json \<Rightarrow> (string \<times> string) result" where
  "v2_known_version objects oid ver =
     rbind (in_keys oid (obj_keys objects)) (\<lambda>known.
     rbind (require known (Intent2Error ''names unknown object'')) (\<lambda>_.
     rbind (obj_index (fld objects (the_str oid)) ''versions'') (\<lambda>versions.
     (case py_str ver of
        None \<Rightarrow> Inl (Intent2Error ''names unknown object'')
      | Some v \<Rightarrow> rbind (require (has_key versions v) (Intent2Error ''names unknown object''))
                    (\<lambda>_. Inr (the_str oid, v))))))"

definition v2_version_bytes :: "json \<Rightarrow> string \<times> string \<Rightarrow> json result" where
  "v2_version_bytes objects key =
     rbind (obj_index objects (fst key)) (\<lambda>entry.
     rbind (obj_index entry ''versions'') (\<lambda>versions.
     rbind (obj_index versions (snd key)) (\<lambda>v.
     obj_index v ''bytes'')))"

definition v2_check_live ::
  "json \<Rightarrow> (string \<times> string) set \<Rightarrow> json \<Rightarrow> (string \<times> string) set result" where
  "v2_check_live objects live_set item =
     rbind (obj_get item ''object_id'') (\<lambda>oid.
     rbind (obj_get item ''version'') (\<lambda>ver.
     rbind (v2_known_version objects oid ver) (\<lambda>key.
     rbind (obj_get_default item ''tier'' (JStr ''storage'')) (\<lambda>tier.
     rbind (v2_enum tier V2_TIERS) (\<lambda>_.
     Inr (insert key live_set))))))"

text \<open>The variables the loop over the operations carries.\<close>

record v2_scan =
  seen_ids :: "string \<Rightarrow> nat option"
  stored :: "(string \<times> string) set"
  released :: "(string \<times> string) set"

definition v2_check_range :: "json \<Rightarrow> json \<Rightarrow> string \<Rightarrow> unit result" where
  "v2_check_range rng object_bytes verb =
     (if rng = JNull then Inr () else
      rbind (obj_get rng ''offset'') (\<lambda>offset.
      rbind (v2_int offset 0) (\<lambda>off.
      rbind (v2_int (fld rng ''length'') 1) (\<lambda>ln.
      rbind (int_gt (off + ln) object_bytes) (\<lambda>exceeds.
      rbind (require (\<not> exceeds) (Intent2Error ''range exceeds the object'')) (\<lambda>_.
      require (verb = ''load'') (Intent2Error ''only loads take a range'')))))))"

definition v2_check_dep :: "(string \<Rightarrow> nat option) \<Rightarrow> nat \<Rightarrow> json \<Rightarrow> unit result" where
  "v2_check_dep seen pos d =
     rbind (require (hashable d) TypeError) (\<lambda>_.
     require (is_str d \<and> (case seen (the_str d) of None \<Rightarrow> False | Some p \<Rightarrow> p < pos))
       (Intent2Error ''depends on something that is not an earlier operation''))"

definition v2_check_timing :: "string \<Rightarrow> json \<Rightarrow> unit result" where
  "v2_check_timing timing_model op =
     rbind (if fld op ''source_outcome'' \<noteq> JNull
            then v2_enum (fld op ''source_outcome'') V2_OUTCOMES else Inr []) (\<lambda>_.
     rbind (if fld op ''release_ns'' \<noteq> JNull
            then rbind (v2_int (fld op ''release_ns'') 0) (\<lambda>_.
                 require (timing_model \<noteq> ''absent'')
                   (Intent2Error ''carries release_ns but the timing model is absent''))
            else require (timing_model \<noteq> ''captured'')
                   (Intent2Error ''lacks release_ns under a captured timing model'')) (\<lambda>_.
     if fld op ''declared_delay_ns'' \<noteq> JNull
     then rbind (v2_int (fld op ''declared_delay_ns'') 0) (\<lambda>_. Inr ())
     else Inr ()))"

definition v2_visibility :: "v2_scan \<Rightarrow> string \<Rightarrow> string \<times> string \<Rightarrow> json \<Rightarrow> v2_scan result" where
  "v2_visibility st verb key outcome =
     (if verb = ''store'' then
        Inr (st\<lparr>stored := insert key (stored st), released := released st - {key}\<rparr>)
      else if verb = ''load'' then
        rbind (require (key \<in> stored st \<or> in_tuple outcome [''miss'', ''cancelled'', ''error'', ''rejected''])
          (Intent2Error ''loads an object before any store or initial state'')) (\<lambda>_. Inr st)
      else if verb = ''release'' then
        Inr (st\<lparr>released := insert key (released st), stored := stored st - {key}\<rparr>)
      else Inr st)"

definition v2_check_op :: "string \<Rightarrow> json \<Rightarrow> v2_scan \<Rightarrow> nat \<times> json \<Rightarrow> v2_scan result" where
  "v2_check_op timing_model objects st item = (case item of (pos, op) \<Rightarrow>
     rbind (require (is_obj op \<and> py_eq (fld op ''seq'') (JInt (int pos)))
       (Intent2Error ''seq must equal its position'')) (\<lambda>_.
     rbind (v2_str (fld op ''op_id'')) (\<lambda>op_id.
     rbind (require (seen_ids st op_id = None) (Intent2Error ''op_id is not unique'')) (\<lambda>_.
     let seen = (seen_ids st)(op_id \<mapsto> pos) in
     rbind (v2_enum (fld op ''op'') V2_OPS) (\<lambda>verb.
     rbind (v2_known_version objects (fld op ''object_id'') (fld op ''version'')) (\<lambda>key.
     rbind (v2_version_bytes objects key) (\<lambda>size.
     rbind (v2_check_range (fld op ''range'') size verb) (\<lambda>_.
     rbind (v2_int (fld op ''requested_bytes'') 0) (\<lambda>_.
     rbind (require (fld op ''stream'' \<noteq> JNull) (Intent2Error ''stream is required'')) (\<lambda>_.
     let deps = fld op ''deps'' in
     rbind (require (is_list deps) (Intent2Error ''deps must be a list'')) (\<lambda>_.
     rbind (mforall (v2_check_dep seen pos) (the_list deps)) (\<lambda>_.
     rbind (v2_check_timing timing_model op) (\<lambda>_.
     v2_visibility (st\<lparr>seen_ids := seen\<rparr>) verb key (fld op ''source_outcome''))))))))))))))"

definition v2_check_tail :: "json \<Rightarrow> string \<Rightarrow> unit result" where
  "v2_check_tail intent timing_model =
     (let timing = fld intent ''timing'' in
     rbind (require (is_obj timing) (Intent2Error ''timing must be an object'')) (\<lambda>_.
     rbind (require (timing_model = ''captured'' \<longrightarrow>
              truthy (fld timing ''sidecar'') \<and> truthy (fld timing ''sidecar_sha256''))
       (Intent2Error ''a captured timing model requires a timing sidecar bound by digest'')) (\<lambda>_.
     require (is_obj (fld intent ''health'')) (Intent2Error ''health must be an object''))))"

definition validate_intent2 :: "json \<Rightarrow> json result" where
  "validate_intent2 intent =
     rbind (require (is_obj intent \<and> py_eq (fld intent ''schema'') (JStr V2_SCHEMA))
       (Intent2Error ''unsupported schema'')) (\<lambda>_.
     rbind (require (py_eq (fld intent ''kind'') (JStr V2_KIND)) (Intent2Error ''kind must be object-workload'')) (\<lambda>_.
     rbind (v2_check_provenance (fld intent ''provenance'')) (\<lambda>timing_model.
     rbind (v2_check_engine (fld intent ''engine'')) (\<lambda>_.
     let reps = fld intent ''representations'' in
     rbind (require (is_obj reps \<and> the_obj reps \<noteq> [])
       (Intent2Error ''representations must be a non-empty object'')) (\<lambda>_.
     rbind (mforall v2_check_representation (the_obj reps)) (\<lambda>_.
     let objects = fld intent ''objects'' in
     rbind (require (is_obj objects) (Intent2Error ''objects must be an object'')) (\<lambda>_.
     rbind (mforall (v2_check_object reps) (the_obj objects)) (\<lambda>_.
     rbind (obj_get_default intent ''initial_state'' (JObj [])) (\<lambda>initial_state.
     rbind (obj_get initial_state ''live'') (\<lambda>live.
     rbind (require (is_list live) (Intent2Error ''initial_state.live must be a list'')) (\<lambda>_.
     rbind (mfold (v2_check_live objects) {} (the_list live)) (\<lambda>live_set.
     let ops = fld intent ''operations'' in
     rbind (require (is_list ops) (Intent2Error ''operations must be a list'')) (\<lambda>_.
     rbind (mfold (v2_check_op timing_model objects)
              \<lparr>seen_ids = Map.empty, stored = live_set, released = {}\<rparr>
              (enumerate 0 (the_list ops))) (\<lambda>_.
     rbind (v2_check_tail intent timing_model) (\<lambda>_.
     Inr intent)))))))))))))))"

section \<open>Digests\<close>

text \<open>
  \<open>canon\<close> is the canonical JSON text (sorted keys, no spaces) and \<open>sha\<close> the SHA-256 of the
  standard library as a hexadecimal text.
\<close>

definition intent2_sha256 :: "(json \<Rightarrow> string) \<Rightarrow> (string \<Rightarrow> string) \<Rightarrow> json \<Rightarrow> string result" where
  "intent2_sha256 canon sha intent =
     rbind (validate_intent2 intent) (\<lambda>_. Inr (sha (canon intent)))"

definition v2_bundle_sha256 ::
  "(json \<Rightarrow> string) \<Rightarrow> (string \<Rightarrow> string) \<Rightarrow> json \<Rightarrow> string option \<Rightarrow> json \<Rightarrow> string result" where
  "v2_bundle_sha256 canon sha intent sidecar_bytes target =
     rbind (validate_intent2 intent) (\<lambda>_.
     rbind (if fld (fld intent ''provenance'') ''timing_model'' = JStr ''captured''
            then (case sidecar_bytes of
                    None \<Rightarrow> Inl (Intent2Error ''bundle digest needs the timing sidecar bytes'')
                  | Some side \<Rightarrow>
                      rbind (require (fld (fld intent ''timing'') ''sidecar_sha256'' = JStr (sha side))
                        (Intent2Error ''timing sidecar does not match the digest the intent binds''))
                        (\<lambda>_. Inr side))
            else Inr []) (\<lambda>side.
     Inr (sha (canon intent @ side @ (if target \<noteq> JNull then canon target else [])))))"

section \<open>What the validator accepts\<close>

lemmas v2_checks = v2_int_def v2_str_def v2_enum_def

abbreviation v2_operations :: "json \<Rightarrow> json list" where
  "v2_operations intent \<equiv> the_list (fld intent ''operations'')"

definition v2_key :: "json \<Rightarrow> string \<times> string" where
  "v2_key op = (the_str (fld op ''object_id''), the (py_str (fld op ''version'')))"

definition v2_deps :: "json \<Rightarrow> string list" where
  "v2_deps op = map the_str (the_list (fld op ''deps''))"

text \<open>The versions visible after a sequence of operations, from the initial live set.\<close>

definition v2_visible :: "(string \<times> string) set \<Rightarrow> json list \<Rightarrow> (string \<times> string) set" where
  "v2_visible live ops = foldl (\<lambda>vis op.
     if fld op ''op'' = JStr ''store'' then insert (v2_key op) vis
     else if fld op ''op'' = JStr ''release'' then vis - {v2_key op} else vis) live ops"

definition v2_range_ok :: "json \<Rightarrow> json \<Rightarrow> bool" where
  "v2_range_ok op object_bytes \<longleftrightarrow> fld op ''range'' = JNull \<or>
     (fld op ''op'' = JStr ''load'' \<and>
      (\<exists>off ln. fld (fld op ''range'') ''offset'' = JInt off \<and> 0 \<le> off \<and>
               fld (fld op ''range'') ''length'' = JInt ln \<and> 1 \<le> ln \<and>
               int_gt (off + ln) object_bytes = Inr False))"

definition v2_timing_ok :: "string \<Rightarrow> json \<Rightarrow> bool" where
  "v2_timing_ok tm op \<longleftrightarrow>
     (fld op ''source_outcome'' = JNull \<or> in_tuple (fld op ''source_outcome'') V2_OUTCOMES) \<and>
     (if fld op ''release_ns'' = JNull then tm \<noteq> ''captured''
      else (\<exists>t\<ge>0. fld op ''release_ns'' = JInt t) \<and> tm \<noteq> ''absent'') \<and>
     (fld op ''declared_delay_ns'' = JNull \<or> (\<exists>t\<ge>0. fld op ''declared_delay_ns'' = JInt t))"

text \<open>One operation after the operations \<open>pre\<close>: the declarative reading of the loop body.\<close>

definition v2_op_ok :: "string \<Rightarrow> json \<Rightarrow> (string \<times> string) set \<Rightarrow> json list \<Rightarrow> json \<Rightarrow> bool" where
  "v2_op_ok tm objects live pre op \<longleftrightarrow>
     is_obj op \<and> py_eq (fld op ''seq'') (JInt (int (length pre))) \<and>
     nonempty_str (fld op ''op_id'') \<and> (\<forall>e\<in>set pre. fld e ''op_id'' \<noteq> fld op ''op_id'') \<and>
     in_tuple (fld op ''op'') V2_OPS \<and>
     v2_known_version objects (fld op ''object_id'') (fld op ''version'') = Inr (v2_key op) \<and>
     (\<exists>bytes. v2_version_bytes objects (v2_key op) = Inr bytes \<and> v2_range_ok op bytes) \<and>
     (\<exists>n\<ge>0. fld op ''requested_bytes'' = JInt n) \<and>
     fld op ''stream'' \<noteq> JNull \<and>
     is_list (fld op ''deps'') \<and>
     (\<forall>d\<in>set (the_list (fld op ''deps'')). \<exists>e\<in>set pre. d = fld e ''op_id'') \<and>
     v2_timing_ok tm op \<and>
     (fld op ''op'' = JStr ''load'' \<longrightarrow> v2_key op \<in> v2_visible live pre \<or>
        in_tuple (fld op ''source_outcome'') [''miss'', ''cancelled'', ''error'', ''rejected''])"

definition v2_ops_ok :: "string \<Rightarrow> json \<Rightarrow> (string \<times> string) set \<Rightarrow> json list \<Rightarrow> bool" where
  "v2_ops_ok tm objects live ops \<longleftrightarrow>
     (\<forall>i<length ops. v2_op_ok tm objects live (take i ops) (ops ! i))"

definition v2_scan_inv :: "(string \<times> string) set \<Rightarrow> json list \<Rightarrow> v2_scan \<Rightarrow> bool" where
  "v2_scan_inv live pre st \<longleftrightarrow>
     id_index pre (seen_ids st) \<and> stored st = v2_visible live pre"

lemma v2_visible_snoc:
  "v2_visible live (pre @ [op]) =
     (if fld op ''op'' = JStr ''store'' then insert (v2_key op) (v2_visible live pre)
      else if fld op ''op'' = JStr ''release'' then v2_visible live pre - {v2_key op}
      else v2_visible live pre)"
  by (simp add: v2_visible_def)

lemma v2_known_version_key:
  "v2_known_version objects (fld op ''object_id'') (fld op ''version'') = Inr key \<Longrightarrow> key = v2_key op"
  by (auto simp: v2_known_version_def v2_key_def result_simps split: option.splits)

lemma v2_check_range_iff:
  "v2_check_range (fld op ''range'') bytes verb = Inr () \<and> fld op ''op'' = JStr verb
     \<longleftrightarrow> v2_range_ok op bytes \<and> fld op ''op'' = JStr verb"
  using fld_nonnull_is_obj [of "fld op ''range''" "''offset''"]
  by (auto simp: v2_check_range_def v2_range_ok_def v2_checks result_simps)

lemma v2_check_timing_iff: "v2_check_timing tm op = Inr () \<longleftrightarrow> v2_timing_ok tm op"
  by (auto simp: v2_check_timing_def v2_timing_ok_def v2_checks in_tuple_def is_str_iff result_simps)

lemma v2_check_dep_iff:
  assumes "id_index pre seen" "seen x = None" "\<forall>e\<in>set pre. is_str (fld e ''op_id'')"
  shows "v2_check_dep (seen(x \<mapsto> length pre)) (length pre) d = Inr ()
           \<longleftrightarrow> (\<exists>e\<in>set pre. d = fld e ''op_id'')"
proof (cases "is_str d")
  case True
  then obtain y where "d = JStr y" by (auto simp: is_str_iff)
  with id_index_earlier [OF assms(1,2), of y] show ?thesis
    unfolding v2_check_dep_def by (simp only: hashable.simps is_str.simps the_str.simps require_True
      rbind_simps simp_thms require_Inr_iff eq_commute [of "JStr y"])
next
  case False
  with assms(3) show ?thesis
    unfolding v2_check_dep_def by (auto simp: result_simps)
qed

lemma v2_visibility_Inr:
  assumes "verb \<in> set V2_OPS" "fld op ''op'' = JStr verb" "stored st = v2_visible live pre"
  shows "(\<exists>st'. v2_visibility st verb (v2_key op) outcome = Inr st') \<longleftrightarrow>
           (verb = ''load'' \<longrightarrow> v2_key op \<in> v2_visible live pre \<or>
              in_tuple outcome [''miss'', ''cancelled'', ''error'', ''rejected''])"
    and "v2_visibility st verb (v2_key op) outcome = Inr st' \<Longrightarrow>
           stored st' = v2_visible live (pre @ [op]) \<and> seen_ids st' = seen_ids st"
proof -
  consider "verb = ''store''" | "verb = ''load''" | "verb = ''release''"
    using assms(1) by (auto simp: V2_OPS_def)
  note verbs = this
  show "(\<exists>st'. v2_visibility st verb (v2_key op) outcome = Inr st') \<longleftrightarrow>
           (verb = ''load'' \<longrightarrow> v2_key op \<in> v2_visible live pre \<or>
              in_tuple outcome [''miss'', ''cancelled'', ''error'', ''rejected''])"
    using assms(3) by (cases rule: verbs) (simp_all add: v2_visibility_def result_simps)
  assume "v2_visibility st verb (v2_key op) outcome = Inr st'"
  note st' = this
  show "stored st' = v2_visible live (pre @ [op]) \<and> seen_ids st' = seen_ids st"
  proof (cases rule: verbs)
    case 1
    then have "st' = st\<lparr>stored := insert (v2_key op) (stored st), released := released st - {v2_key op}\<rparr>"
      using st' by (simp add: v2_visibility_def)
    then show ?thesis using 1 assms(2,3) by (simp add: v2_visible_snoc)
  next
    case 2
    then have "st' = st"
      using st' by (simp add: v2_visibility_def rbind_Inr_iff)
    then show ?thesis using 2 assms(2,3) by (simp add: v2_visible_snoc)
  next
    case 3
    then have "st' = st\<lparr>released := insert (v2_key op) (released st), stored := stored st - {v2_key op}\<rparr>"
      using st' by (simp add: v2_visibility_def)
    then show ?thesis using 3 assms(2,3) by (simp add: v2_visible_snoc)
  qed
qed

text \<open>The loop body succeeds exactly on the operations that are well-formed after the earlier ones.\<close>

lemma v2_check_op_sound:
  assumes inv: "v2_scan_inv live pre st" and str: "\<forall>e\<in>set pre. is_str (fld e ''op_id'')"
    and run: "v2_check_op tm objects st (length pre, op) = Inr st'"
  shows "v2_op_ok tm objects live pre op" "v2_scan_inv live (pre @ [op]) st'"
proof -
  have index: "id_index pre (seen_ids st)"
    and stored: "\<And>f. stored (st\<lparr>seen_ids := f\<rparr>) = v2_visible live pre"
    using inv by (simp_all add: v2_scan_inv_def)
  obtain x verb key bytes n where *:
    "is_obj op" "py_eq (fld op ''seq'') (JInt (int (length pre)))"
    "fld op ''op_id'' = JStr x" "x \<noteq> []" "seen_ids st x = None"
    "fld op ''op'' = JStr verb" "verb \<in> set V2_OPS"
    "v2_known_version objects (fld op ''object_id'') (fld op ''version'') = Inr key"
    "v2_version_bytes objects key = Inr bytes"
    "v2_check_range (fld op ''range'') bytes verb = Inr ()"
    "fld op ''requested_bytes'' = JInt n" "0 \<le> n"
    "fld op ''stream'' \<noteq> JNull" "is_list (fld op ''deps'')"
    "\<forall>d\<in>set (the_list (fld op ''deps'')).
       v2_check_dep ((seen_ids st)(x \<mapsto> length pre)) (length pre) d = Inr ()"
    "v2_check_timing tm op = Inr ()"
    "v2_visibility (st\<lparr>seen_ids := (seen_ids st)(x \<mapsto> length pre)\<rparr>) verb key
       (fld op ''source_outcome'') = Inr st'"
    using run by (auto simp: v2_check_op_def Let_def v2_checks result_simps)
  have key: "key = v2_key op" using * (8) by (rule v2_known_version_key)
  note visible = v2_visibility_Inr [OF * (7) * (6) stored]
  have "verb = ''load'' \<longrightarrow> v2_key op \<in> v2_visible live pre \<or>
      in_tuple (fld op ''source_outcome'') [''miss'', ''cancelled'', ''error'', ''rejected'']"
    using iffD1 [OF visible(1), OF exI, OF * (17) [unfolded key]] .
  then show "v2_op_ok tm objects live pre op"
    unfolding v2_op_ok_def
    using * v2_check_dep_iff [OF index * (5) str] v2_check_range_iff [of op bytes verb]
      id_index_None [OF index, of x]
    by (auto simp: key in_tuple_def v2_check_timing_iff)
  show "v2_scan_inv live (pre @ [op]) st'"
    using visible(2) [OF * (17) [unfolded key]] id_index_snoc [OF index * (5) * (3)]
    by (simp add: v2_scan_inv_def)
qed

lemma v2_check_op_complete:
  assumes inv: "v2_scan_inv live pre st" and str: "\<forall>e\<in>set pre. is_str (fld e ''op_id'')"
    and ok: "v2_op_ok tm objects live pre op"
  shows "\<exists>st'. v2_check_op tm objects st (length pre, op) = Inr st'"
proof -
  have index: "id_index pre (seen_ids st)"
    and stored: "\<And>f. stored (st\<lparr>seen_ids := f\<rparr>) = v2_visible live pre"
    using inv by (simp_all add: v2_scan_inv_def)
  obtain x verb bytes n where *:
    "fld op ''op_id'' = JStr x" "x \<noteq> []" "fld op ''op'' = JStr verb" "verb \<in> set V2_OPS"
    "v2_version_bytes objects (v2_key op) = Inr bytes" "v2_range_ok op bytes"
    "fld op ''requested_bytes'' = JInt n" "0 \<le> n"
    using ok by (auto simp: v2_op_ok_def in_tuple_def is_str_iff nonempty_str_iff)
  have fresh: "seen_ids st x = None"
    using ok * id_index_None [OF index, of x] by (simp add: v2_op_ok_def)
  define st1 where "st1 = st\<lparr>seen_ids := (seen_ids st)(x \<mapsto> length pre)\<rparr>"
  obtain st' where "v2_visibility st1 verb (v2_key op) (fld op ''source_outcome'') = Inr st'"
    using v2_visibility_Inr(1) [OF * (4) * (3) stored, of "(seen_ids st)(x \<mapsto> length pre)"
        "fld op ''source_outcome''"] ok * (3)
    by (auto simp: v2_op_ok_def st1_def)
  moreover have "v2_check_range (fld op ''range'') bytes verb = Inr ()"
    using v2_check_range_iff [of op bytes verb] * by simp
  ultimately show ?thesis
    using ok * fresh v2_check_dep_iff [OF index fresh str]
    unfolding v2_op_ok_def
    by (auto simp: v2_check_op_def Let_def v2_checks result_simps v2_check_timing_iff st1_def)
qed

lemma v2_ops_ok_snoc:
  "v2_ops_ok tm objects live (ops @ [op]) \<longleftrightarrow>
     v2_ops_ok tm objects live ops \<and> v2_op_ok tm objects live ops op"
  by (auto simp: v2_ops_ok_def nth_append less_Suc_eq)

lemma v2_op_ok_id: "v2_op_ok tm objects live pre op \<Longrightarrow> is_str (fld op ''op_id'')"
  by (cases "fld op ''op_id''") (auto simp: v2_op_ok_def)

lemma v2_ops_ok_ids:
  "v2_ops_ok tm objects live ops \<Longrightarrow> \<forall>e\<in>set ops. is_str (fld e ''op_id'')"
  unfolding v2_ops_ok_def all_set_conv_all_nth using v2_op_ok_id by blast

lemma v2_scan_inv_init: "v2_scan_inv live [] \<lparr>seen_ids = Map.empty, stored = live, released = {}\<rparr>"
  by (simp add: v2_scan_inv_def v2_visible_def)

text \<open>The whole loop.\<close>

lemma v2_check_ops_iff:
  "(\<exists>st. mfold (v2_check_op tm objects) \<lparr>seen_ids = Map.empty, stored = live, released = {}\<rparr>
       (enumerate 0 ops) = Inr st) \<longleftrightarrow> v2_ops_ok tm objects live ops"
  unfolding v2_ops_ok_def
proof (rule mfold_scan(1) [where I = "\<lambda>pre st. v2_scan_inv live pre st \<and> (\<forall>e\<in>set pre. is_str (fld e ''op_id''))"])
  show "v2_scan_inv live [] \<lparr>seen_ids = Map.empty, stored = live, released = {}\<rparr> \<and>
      (\<forall>e\<in>set []. is_str (fld e ''op_id''))"
    by (simp add: v2_scan_inv_init)
next
  fix pre st op st'
  assume "v2_scan_inv live pre st \<and> (\<forall>e\<in>set pre. is_str (fld e ''op_id''))"
    and "v2_check_op tm objects st (length pre, op) = Inr st'"
  then show "v2_op_ok tm objects live pre op \<and> v2_scan_inv live (pre @ [op]) st' \<and>
      (\<forall>e\<in>set (pre @ [op]). is_str (fld e ''op_id''))"
    using v2_check_op_sound v2_op_ok_id by simp blast
next
  fix pre st op
  assume "v2_scan_inv live pre st \<and> (\<forall>e\<in>set pre. is_str (fld e ''op_id''))" "v2_op_ok tm objects live pre op"
  then show "\<exists>st'. v2_check_op tm objects st (length pre, op) = Inr st'"
    using v2_check_op_complete by blast
qed

text \<open>The validator as one conjunction of its sections.\<close>

lemma validate_intent2_iff:
  "validate_intent2 intent = Inr r \<longleftrightarrow> r = intent \<and>
     is_obj intent \<and> fld intent ''schema'' = JStr V2_SCHEMA \<and> fld intent ''kind'' = JStr V2_KIND \<and>
     (\<exists>tm live initial_state.
        v2_check_provenance (fld intent ''provenance'') = Inr tm \<and>
        v2_check_engine (fld intent ''engine'') = Inr () \<and>
        is_obj (fld intent ''representations'') \<and> the_obj (fld intent ''representations'') \<noteq> [] \<and>
        (\<forall>p\<in>set (the_obj (fld intent ''representations'')). v2_check_representation p = Inr ()) \<and>
        is_obj (fld intent ''objects'') \<and>
        (\<forall>p\<in>set (the_obj (fld intent ''objects'')).
           v2_check_object (fld intent ''representations'') p = Inr ()) \<and>
        obj_get_default intent ''initial_state'' (JObj []) = Inr initial_state \<and> is_obj initial_state \<and>
        is_list (fld initial_state ''live'') \<and>
        mfold (v2_check_live (fld intent ''objects'')) {} (the_list (fld initial_state ''live'')) = Inr live \<and>
        is_list (fld intent ''operations'') \<and>
        v2_ops_ok tm (fld intent ''objects'') live (v2_operations intent) \<and>
        v2_check_tail intent tm = Inr ())"
  unfolding v2_check_ops_iff [symmetric] validate_intent2_def Let_def
    rbind_Inr_iff require_Inr_iff mforall_Inr_iff obj_get_Inr_iff
  by auto

section \<open>Consequences of acceptance\<close>

definition v2_is :: "string \<Rightarrow> string \<times> string \<Rightarrow> json \<Rightarrow> bool" where
  "v2_is verb key op \<longleftrightarrow> fld op ''op'' = JStr verb \<and> v2_key op = key"

lemma in_v2_visible_iff:
  "key \<in> v2_visible live ops \<longleftrightarrow>
     (\<exists>k<length ops. v2_is ''store'' key (ops ! k) \<and>
        (\<forall>m. k < m \<and> m < length ops \<longrightarrow> \<not> v2_is ''release'' key (ops ! m))) \<or>
     (key \<in> live \<and> (\<forall>m<length ops. \<not> v2_is ''release'' key (ops ! m)))"
  (is "_ \<longleftrightarrow> ?stored ops \<or> ?kept ops")
proof (induction ops rule: rev_induct)
  case Nil
  then show ?case by (simp add: v2_visible_def)
next
  case (snoc op ops)
  have kept: "?kept (ops @ [op]) \<longleftrightarrow> ?kept ops \<and> \<not> v2_is ''release'' key op"
    by (auto simp: nth_append less_Suc_eq)
  have stored: "?stored (ops @ [op]) \<longleftrightarrow>
      v2_is ''store'' key op \<or> ?stored ops \<and> \<not> v2_is ''release'' key op"
    by (rule last_event_snoc)
  have "\<not> (v2_is ''store'' key op \<and> v2_is ''release'' key op)"
    by (simp add: v2_is_def)
  moreover have "key \<in> v2_visible live (ops @ [op]) \<longleftrightarrow>
      v2_is ''store'' key op \<or> key \<in> v2_visible live ops \<and> \<not> v2_is ''release'' key op"
    by (auto simp: v2_visible_snoc v2_is_def)
  ultimately show ?case
    unfolding kept stored snoc by blast
qed

lemma v2_live_set:
  assumes "mfold (v2_check_live objects) {} items = Inr live"
  shows "live = v2_key ` set items"
  using assms
proof (rule mfold_rule [where I = "\<lambda>ys s. s = v2_key ` set ys"])
  fix ys item u u'
  assume "v2_check_live objects u item = Inr u'" and u: "u = v2_key ` set ys"
  then obtain key where key: "v2_known_version objects (fld item ''object_id'') (fld item ''version'') = Inr key"
    "u' = insert key u"
    by (auto simp: v2_check_live_def result_simps)
  with v2_known_version_key [of objects item key] u show "u' = v2_key ` set (ys @ [item])"
    by simp
qed simp

definition v2_initial :: "json \<Rightarrow> (string \<times> string) set" where
  "v2_initial intent = v2_key ` set (the_list (fld (fld intent ''initial_state'') ''live''))"

lemma validate_intent2_ops_ok:
  assumes "validate_intent2 intent = Inr r"
  shows "\<exists>tm. fld (fld intent ''provenance'') ''timing_model'' = JStr tm \<and>
           v2_ops_ok tm (fld intent ''objects'') (v2_initial intent) (v2_operations intent)"
proof -
  obtain tm live initial_state where *:
    "v2_check_provenance (fld intent ''provenance'') = Inr tm"
    "obj_get_default intent ''initial_state'' (JObj []) = Inr initial_state"
    "is_list (fld initial_state ''live'')"
    "mfold (v2_check_live (fld intent ''objects'')) {} (the_list (fld initial_state ''live'')) = Inr live"
    "v2_ops_ok tm (fld intent ''objects'') live (v2_operations intent)"
    using assms unfolding validate_intent2_iff by blast
  have "initial_state = fld intent ''initial_state''"
    using * (2,3) by (auto simp: obj_get_default_def split: if_splits)
  then have "live = v2_initial intent"
    using v2_live_set [OF * (4)] by (simp add: v2_initial_def)
  moreover have "fld (fld intent ''provenance'') ''timing_model'' = JStr tm"
    using * (1) by (auto simp: v2_check_provenance_def v2_checks Let_def result_simps)
  ultimately show ?thesis using * (5) by blast
qed

lemma v2_ops_ok_distinct:
  "v2_ops_ok tm objects live ops \<Longrightarrow> distinct (map (\<lambda>op. fld op ''op_id'') ops)"
proof (induction ops rule: rev_induct)
  case (snoc op ops)
  then show ?case
    by (auto simp: v2_ops_ok_snoc v2_op_ok_def)
qed simp

lemma v2_ops_ok_deps:
  assumes "v2_ops_ok tm objects live ops" "i < length ops" "d \<in> set (v2_deps (ops ! i))"
  shows "\<exists>k<i. fld (ops ! k) ''op_id'' = JStr d"
proof -
  have ok: "v2_op_ok tm objects live (take i ops) (ops ! i)"
    using assms by (simp add: v2_ops_ok_def)
  obtain v where v: "v \<in> set (the_list (fld (ops ! i) ''deps''))" "d = the_str v"
    using assms(3) by (auto simp: v2_deps_def)
  then obtain e where e: "e \<in> set (take i ops)" "v = fld e ''op_id''"
    using ok by (auto simp: v2_op_ok_def)
  then obtain k where "k < i" "e = ops ! k"
    using assms(2) by (auto simp: in_set_conv_nth)
  moreover have "is_str (fld e ''op_id'')"
    using v2_ops_ok_ids [OF assms(1)] e in_set_takeD by fast
  ultimately show ?thesis
    using e v by (auto simp: is_str_iff)
qed

definition v2_len :: "json \<Rightarrow> int" where
  "v2_len c = the_int (fld c ''length'')"

lemma v2_components_tile:
  assumes "mfold v2_check_component 0 comps = Inr covered"
  shows "covered = (\<Sum>c\<leftarrow>comps. v2_len c) \<and>
         (\<forall>i<length comps. fld (comps ! i) ''offset'' = JInt (\<Sum>c\<leftarrow>take i comps. v2_len c) \<and>
            1 \<le> v2_len (comps ! i))"
  using assms
proof (rule mfold_rule [where I = "\<lambda>ys n. n = (\<Sum>c\<leftarrow>ys. v2_len c) \<and>
    (\<forall>i<length ys. fld (ys ! i) ''offset'' = JInt (\<Sum>c\<leftarrow>take i ys. v2_len c) \<and> 1 \<le> v2_len (ys ! i))"])
  fix ys c n n'
  assume n: "n = (\<Sum>c\<leftarrow>ys. v2_len c) \<and>
      (\<forall>i<length ys. fld (ys ! i) ''offset'' = JInt (\<Sum>c\<leftarrow>take i ys. v2_len c) \<and> 1 \<le> v2_len (ys ! i))"
    and "v2_check_component n c = Inr n'"
  then have "fld c ''offset'' = JInt n" "n' = n + v2_len c" "1 \<le> v2_len c"
    by (auto simp: v2_check_component_def v2_checks v2_len_def result_simps)
  with n show "n' = (\<Sum>c\<leftarrow>ys @ [c]. v2_len c) \<and>
      (\<forall>i<length (ys @ [c]). fld ((ys @ [c]) ! i) ''offset'' = JInt (\<Sum>c\<leftarrow>take i (ys @ [c]). v2_len c) \<and>
         1 \<le> v2_len ((ys @ [c]) ! i))"
    by (simp add: nth_append All_less_Suc)
qed simp

lemma v2_representation_bytes:
  assumes "validate_intent2 intent = Inr r" "(rep_id, rep) \<in> set (the_obj (fld intent ''representations''))"
  shows "\<exists>n\<ge>1. fld rep ''encoded_bytes'' = JInt n \<and>
     mfold v2_check_component 0 (the_list (fld rep ''components'')) = Inr n \<and>
     the_list (fld rep ''components'') \<noteq> []"
proof -
  have "v2_check_representation (rep_id, rep) = Inr ()"
    using assms unfolding validate_intent2_iff by blast
  then show ?thesis
    by (auto simp: v2_check_representation_def v2_checks Let_def rbind_Inr_iff require_Inr_iff
        check_int_Inr_iff split: if_splits)
qed

text \<open>The recorded size of a known version is the encoded size of its representation.\<close>

lemma v2_version_bytes_num:
  assumes ok: "validate_intent2 intent = Inr r"
    and bytes: "v2_version_bytes (fld intent ''objects'') key = Inr bytes"
  shows "\<exists>n\<ge>1. num_of bytes = Some (Finite (of_int n))"
proof -
  define objects where "objects = fld intent ''objects''"
  define reps where "reps = fld intent ''representations''"
  define entry where "entry = fld objects (fst key)"
  define ver where "ver = fld (fld entry ''versions'') (snd key)"
  have keys: "has_key objects (fst key)" "has_key (fld entry ''versions'') (snd key)" "bytes = fld ver ''bytes''"
    using bytes by (auto simp: v2_version_bytes_def objects_def entry_def ver_def result_simps)
  have "v2_check_object reps (fst key, entry) = Inr ()"
    using ok fld_in_set [OF keys(1)] unfolding validate_intent2_iff entry_def reps_def objects_def by blast
  then have "v2_check_version reps (snd key, ver) = Inr ()"
    using fld_in_set [OF keys(2)] fld_nonnull_is_obj [of entry "''versions''"]
    by (auto simp: v2_check_object_def ver_def Let_def result_simps split: if_splits)
  then obtain rep where rep: "rep \<in> set (obj_keys reps)"
      "py_eq bytes (fld (fld reps rep) ''encoded_bytes'')"
    by (auto simp: v2_check_version_def Let_def keys(3) result_simps split: if_splits)
  have "(rep, fld reps rep) \<in> set (the_obj reps)"
    using rep(1) by (simp add: fld_in_set has_key_obj_keys)
  then obtain n where "n \<ge> 1" "fld (fld reps rep) ''encoded_bytes'' = JInt n"
    using v2_representation_bytes [OF ok] unfolding reps_def by blast
  with rep(2) show ?thesis
    by (auto simp: py_eq_JInt_iff)
qed

section \<open>Building keeps a record valid\<close>

lemma validate_intent2_append:
  assumes ok: "validate_intent2 intent = Inr r"
    and tm: "fld (fld intent ''provenance'') ''timing_model'' = JStr tm"
    and op: "v2_op_ok tm (fld intent ''objects'') (v2_initial intent) (v2_operations intent) op"
  defines "intent' \<equiv> obj_set intent ''operations'' (JList (v2_operations intent @ [op]))"
  shows "validate_intent2 intent' = Inr intent'"
proof -
  have keep: "fld intent' k = fld intent k" if "k \<noteq> ''operations''" for k
    using that by (simp add: intent'_def fld_set)
  have ops: "fld intent' ''operations'' = JList (v2_operations intent @ [op])"
    by (simp add: intent'_def fld_set)
  have init: "obj_get_default intent' ''initial_state'' d = obj_get_default intent ''initial_state'' d"
    if "is_obj intent" for d
    using that by (auto simp: obj_get_default_def intent'_def has_key_set fld_set)
  obtain tm' where tm': "fld (fld intent ''provenance'') ''timing_model'' = JStr tm'"
    "v2_ops_ok tm' (fld intent ''objects'') (v2_initial intent) (v2_operations intent)"
    using validate_intent2_ops_ok [OF ok] by blast
  have "v2_ops_ok tm (fld intent ''objects'') (v2_initial intent) (v2_operations intent @ [op])"
    using tm tm' op by (simp add: v2_ops_ok_snoc)
  moreover obtain tm'' live initial_state where *:
    "is_obj intent" "fld intent ''schema'' = JStr V2_SCHEMA" "fld intent ''kind'' = JStr V2_KIND"
    "v2_check_provenance (fld intent ''provenance'') = Inr tm''"
    "v2_check_engine (fld intent ''engine'') = Inr ()"
    "is_obj (fld intent ''representations'')" "the_obj (fld intent ''representations'') \<noteq> []"
    "\<forall>p\<in>set (the_obj (fld intent ''representations'')). v2_check_representation p = Inr ()"
    "is_obj (fld intent ''objects'')"
    "\<forall>p\<in>set (the_obj (fld intent ''objects'')). v2_check_object (fld intent ''representations'') p = Inr ()"
    "obj_get_default intent ''initial_state'' (JObj []) = Inr initial_state" "is_obj initial_state"
    "is_list (fld initial_state ''live'')"
    "mfold (v2_check_live (fld intent ''objects'')) {} (the_list (fld initial_state ''live'')) = Inr live"
    "v2_check_tail intent tm'' = Inr ()"
    using ok unfolding validate_intent2_iff by blast
  moreover have "tm'' = tm"
    using * (4) tm by (auto simp: v2_check_provenance_def v2_checks Let_def result_simps)
  moreover have "live = v2_initial intent"
    using v2_live_set [OF * (14)] * (11,13)
    by (auto simp: v2_initial_def obj_get_default_def split: if_splits)
  moreover have "v2_check_tail intent' tm'' = v2_check_tail intent tm''"
    by (simp add: v2_check_tail_def keep)
  ultimately show ?thesis
    unfolding validate_intent2_iff using init [OF * (1)]
    by (auto simp: keep ops intent'_def [symmetric]) (simp add: intent'_def)
qed

definition v2_example :: "json result" where
  "v2_example =
     rbind (new_intent ''generated'' ''declared'' ''absent''
              (JObj [(''name'', JStr ''demo''), (''revision'', JStr ''1'')]) ''complete'' [] []) (\<lambda>i0.
     rbind (add_object_version (add_representation i0 ''r'' ''opaque'' 8 JNull []) ''obj'' 1 ''r'') (\<lambda>i1.
     rbind (add_operation i1 \<lparr>oa_op_id = ''a'', oa_op = ''store'', oa_object_id = ''obj'', oa_version = 1,
        oa_stream = JStr ''s0'', oa_deps = [], oa_range = JNull, oa_batch_id = JNull, oa_release_ns = JNull,
        oa_declared_delay_ns = JNull, oa_source_outcome = JNull, oa_requested_bytes = JNull\<rparr>) (\<lambda>i2.
     add_operation i2 \<lparr>oa_op_id = ''b'', oa_op = ''load'', oa_object_id = ''obj'', oa_version = 1,
        oa_stream = JStr ''s1'', oa_deps = [''a''],
        oa_range = JObj [(''offset'', JInt 2), (''length'', JInt 4)], oa_batch_id = JNull, oa_release_ns = JNull,
        oa_declared_delay_ns = JNull, oa_source_outcome = JNull, oa_requested_bytes = JNull\<rparr>)))"

definition v2_example_intent :: json where
  "v2_example_intent = (case v2_example of Inr intent \<Rightarrow> intent | Inl _ \<Rightarrow> JNull)"

lemma v2_example_ok: "validate_intent2 v2_example_intent = Inr v2_example_intent"
  by code_simp

lemma v2_example_ops:
  "length (v2_operations v2_example_intent) = 2"
  "fld (v2_operations v2_example_intent ! Suc 0) ''op'' = JStr ''load''"
  "fld (v2_operations v2_example_intent ! Suc 0) ''source_outcome'' = JNull"
  "fld (v2_operations v2_example_intent ! Suc 0) ''range'' = JObj [(''offset'', JInt 2), (''length'', JInt 4)]"
  by code_simp+

lemma v2_example_rep:
  "fld (fld v2_example_intent ''representations'') ''r'' = JObj [(''codec'', JStr ''opaque''),
     (''encoded_bytes'', JInt 8), (''logical_bytes'', JNull),
     (''components'', JList [JObj [(''role'', JStr ''payload''), (''offset'', JInt 0), (''length'', JInt 8)]])]"
  "has_key (fld v2_example_intent ''representations'') ''r''"
  by code_simp+

section \<open>Properties\<close>

text \<open>
  C15. In a record the validator accepts, operation identifiers are pairwise distinct and every
  dependency of an operation names an operation that stands strictly before it, so that the
  dependency relation is acyclic and the array order is one of its linearizations.
\<close>

theorem validate_intent2_dependencies:
  assumes "validate_intent2 intent = Inr r"
  shows "r = intent \<and> distinct (map (\<lambda>op. fld op ''op_id'') (v2_operations intent)) \<and>
    (\<forall>i<length (v2_operations intent). \<forall>d\<in>set (v2_deps (v2_operations intent ! i)).
       \<exists>k<i. fld (v2_operations intent ! k) ''op_id'' = JStr d)"
proof -
  obtain tm where ok: "v2_ops_ok tm (fld intent ''objects'') (v2_initial intent) (v2_operations intent)"
    using validate_intent2_ops_ok [OF assms] by blast
  moreover have "r = intent"
    using assms unfolding validate_intent2_iff by blast
  ultimately show ?thesis
    using v2_ops_ok_distinct [OF ok] v2_ops_ok_deps [OF ok] by blast
qed

theorem validate_intent2_dependencies_witness:
  "\<exists>k<1. fld (v2_operations v2_example_intent ! k) ''op_id'' = JStr ''a''"
proof -
  have "''a'' \<in> set (v2_deps (v2_operations v2_example_intent ! 1))"
    by code_simp
  moreover have "1 < length (v2_operations v2_example_intent)"
    by (simp add: v2_example_ops)
  ultimately show ?thesis
    using validate_intent2_dependencies [OF v2_example_ok] by blast
qed

text \<open>
  C16. In a record the validator accepts, a load that does not declare a miss, a cancellation,
  an error or a rejection reads a version that exists at that point of the array order: an
  earlier operation stored it and none released it since, or it is in the initial live set and
  no earlier operation released it.
\<close>

theorem validate_intent2_loads_visible:
  assumes "validate_intent2 intent = Inr r" "i < length (v2_operations intent)"
    and "op = v2_operations intent ! i" "fld op ''op'' = JStr ''load''"
    and "\<not> in_tuple (fld op ''source_outcome'') [''miss'', ''cancelled'', ''error'', ''rejected'']"
  shows "(\<exists>k<i. v2_is ''store'' (v2_key op) (v2_operations intent ! k) \<and>
            (\<forall>m. k < m \<and> m < i \<longrightarrow> \<not> v2_is ''release'' (v2_key op) (v2_operations intent ! m))) \<or>
         (v2_key op \<in> v2_initial intent \<and>
            (\<forall>m<i. \<not> v2_is ''release'' (v2_key op) (v2_operations intent ! m)))"
proof -
  obtain tm where "v2_ops_ok tm (fld intent ''objects'') (v2_initial intent) (v2_operations intent)"
    using validate_intent2_ops_ok [OF assms(1)] by blast
  then have "v2_op_ok tm (fld intent ''objects'') (v2_initial intent) (take i (v2_operations intent)) op"
    using assms by (simp add: v2_ops_ok_def)
  then have "v2_key op \<in> v2_visible (v2_initial intent) (take i (v2_operations intent))"
    using assms unfolding v2_op_ok_def by blast
  then show ?thesis
    using assms(2) unfolding in_v2_visible_iff by (simp add: min_def cong: conj_cong)
qed

theorem validate_intent2_loads_visible_witness:
  "(\<exists>k<1. v2_is ''store'' (''obj'', ''1'') (v2_operations v2_example_intent ! k) \<and>
      (\<forall>m. k < m \<and> m < 1 \<longrightarrow> \<not> v2_is ''release'' (''obj'', ''1'') (v2_operations v2_example_intent ! m))) \<or>
   ((''obj'', ''1'') \<in> v2_initial v2_example_intent \<and>
      (\<forall>m<1. \<not> v2_is ''release'' (''obj'', ''1'') (v2_operations v2_example_intent ! m)))"
proof -
  have "v2_key (v2_operations v2_example_intent ! 1) = (''obj'', ''1'')"
    by code_simp
  then show ?thesis
    using validate_intent2_loads_visible [OF v2_example_ok, of 1, OF _ refl]
    by (simp add: v2_example_ops in_tuple_def)
qed

text \<open>
  C33. In a record the validator accepts, the components of every representation tile it: each
  component is non-empty and starts where the previous ones end, and together they are exactly
  the encoded size.
\<close>

theorem validate_intent2_components_tile:
  assumes "validate_intent2 intent = Inr r"
    and "(rep_id, rep) \<in> set (the_obj (fld intent ''representations''))"
    and "comps = the_list (fld rep ''components'')"
  shows "comps \<noteq> [] \<and> fld rep ''encoded_bytes'' = JInt (\<Sum>c\<leftarrow>comps. v2_len c) \<and>
    (\<forall>i<length comps. fld (comps ! i) ''offset'' = JInt (\<Sum>c\<leftarrow>take i comps. v2_len c) \<and>
       1 \<le> v2_len (comps ! i))"
  using v2_representation_bytes [OF assms(1,2)] v2_components_tile assms(3) by auto

theorem validate_intent2_components_tile_witness:
  "fld (fld (fld v2_example_intent ''representations'') ''r'') ''encoded_bytes'' =
     JInt (\<Sum>c\<leftarrow>the_list (fld (fld (fld v2_example_intent ''representations'') ''r'') ''components''). v2_len c)"
  using validate_intent2_components_tile [OF v2_example_ok fld_in_set [OF v2_example_rep(2)] refl] by blast

text \<open>
  C34. In a record the validator accepts, a range belongs to a load, is non-empty, and ends
  inside the object version it names.
\<close>

theorem validate_intent2_range_inside:
  assumes "validate_intent2 intent = Inr r" "i < length (v2_operations intent)"
    and "op = v2_operations intent ! i" "fld op ''range'' \<noteq> JNull"
  shows "\<exists>off ln n. fld op ''op'' = JStr ''load'' \<and>
     fld (fld op ''range'') ''offset'' = JInt off \<and> fld (fld op ''range'') ''length'' = JInt ln \<and>
     0 \<le> off \<and> 1 \<le> ln \<and> off + ln \<le> n \<and>
     rbind (v2_version_bytes (fld intent ''objects'') (v2_key op)) (\<lambda>b. Inr (num_of b)) =
       Inr (Some (Finite (of_int n)))"
proof -
  obtain tm where "v2_ops_ok tm (fld intent ''objects'') (v2_initial intent) (v2_operations intent)"
    using validate_intent2_ops_ok [OF assms(1)] by blast
  then have "v2_op_ok tm (fld intent ''objects'') (v2_initial intent) (take i (v2_operations intent)) op"
    using assms by (simp add: v2_ops_ok_def)
  then obtain bytes where bytes: "v2_version_bytes (fld intent ''objects'') (v2_key op) = Inr bytes"
    and "v2_range_ok op bytes"
    unfolding v2_op_ok_def by blast
  then obtain off ln where "fld op ''op'' = JStr ''load''" "fld (fld op ''range'') ''offset'' = JInt off"
    "fld (fld op ''range'') ''length'' = JInt ln" "0 \<le> off" "1 \<le> ln" "int_gt (off + ln) bytes = Inr False"
    using assms(4) unfolding v2_range_ok_def by blast
  moreover obtain n where "num_of bytes = Some (Finite (of_int n))"
    using v2_version_bytes_num [OF assms(1) bytes] by blast
  moreover from calculation have "off + ln \<le> n"
    by (simp add: int_gt_def not_less)
  ultimately show ?thesis
    using bytes by auto
qed

theorem validate_intent2_range_inside_witness:
  "\<exists>off ln n. fld (v2_operations v2_example_intent ! 1) ''op'' = JStr ''load'' \<and>
     fld (fld (v2_operations v2_example_intent ! 1) ''range'') ''offset'' = JInt off \<and>
     fld (fld (v2_operations v2_example_intent ! 1) ''range'') ''length'' = JInt ln \<and>
     0 \<le> off \<and> 1 \<le> ln \<and> off + ln \<le> n \<and>
     rbind (v2_version_bytes (fld v2_example_intent ''objects'') (v2_key (v2_operations v2_example_intent ! 1)))
       (\<lambda>b. Inr (num_of b)) = Inr (Some (Finite (of_int n)))"
  by (rule validate_intent2_range_inside [OF v2_example_ok _ refl]) (simp_all add: v2_example_ops)

end
