(* ===== verification/Workload_V3.thy ===== *)
theory Workload_V3
  imports Intent_V2 "HOL-Library.Char_ord" "HOL-Library.List_Lexorder"
begin

text \<open>
  The typed workload envelope \<open>kvio.workload.v3\<close> (\<open>src/tools/kvio/workload3.py\<close>): the table of
  calls per API family, the builders, the validator, the digests and the adapter that carries a
  v2 record into this form.
\<close>

section \<open>Constants\<close>

definition V3_SCHEMA :: string where "V3_SCHEMA = ''kvio.workload.v3''"
definition V3_FAMILIES :: "string list" where
  "V3_FAMILIES = [''object'', ''posix'', ''s3'']"
definition V3_CAPTURE_LEVELS :: "string list" where
  "V3_CAPTURE_LEVELS = [''generated'', ''A1'', ''api'', ''request'']"
definition V3_MAPPING_METHODS :: "string list" where
  "V3_MAPPING_METHODS = [''declared'', ''verified'', ''heuristic'']"
definition V3_COMPLETENESS :: "string list" where
  "V3_COMPLETENESS = [''complete'', ''partial'']"
definition V3_TIMING_MODELS :: "string list" where
  "V3_TIMING_MODELS = [''absent'', ''captured'', ''synthetic'']"
definition RELEASE_PROVENANCE :: "string list" where
  "RELEASE_PROVENANCE = [''none'', ''observed_submission'', ''measured_arrival'', ''declared'']"
definition DEP_KINDS :: "string list" where
  "DEP_KINDS = [''program'', ''sync'', ''observed'', ''identity'']"
definition V3_OUTCOMES :: "string list" where
  "V3_OUTCOMES = [''success'', ''miss'', ''already_present'', ''rejected'', ''short'', ''cancelled'',
     ''error'', ''eof'', ''exists'', ''not_empty'', ''denied'', ''timeout'', ''unknown'']"
definition OPEN_FLAGS :: "string list" where
  "OPEN_FLAGS = [''rd'', ''wr'', ''rdwr'', ''creat'', ''excl'', ''trunc'', ''append'', ''direct'', ''sync'']"

text \<open>The calls of each family with the fields each must carry.\<close>

definition CALLS :: "(string \<times> (string \<times> string list) list) list" where
  "CALLS = [
     (''object'', [
        (''store'', [''node'', ''size'']), (''load'', [''node'']), (''release'', [''node'']),
        (''exists'', [''node''])]),
     (''posix'', [
        (''open'', [''path'', ''flags'', ''handle'']), (''close'', [''handle'']),
        (''pread'', [''handle'', ''offset'', ''length'']), (''pwrite'', [''handle'', ''offset'', ''length'']),
        (''read'', [''handle'', ''length'']), (''write'', [''handle'', ''length'']),
        (''fstat'', [''handle'']), (''stat'', [''path'']), (''readdir'', [''path'']),
        (''rename'', [''path'', ''new_path'']), (''unlink'', [''path'']),
        (''mkdir'', [''path'']), (''rmdir'', [''path'']), (''truncate'', [''path'', ''size'']),
        (''ftruncate'', [''handle'', ''size'']), (''fsync'', [''handle'']), (''fdatasync'', [''handle''])]),
     (''s3'', [
        (''put'', [''key'', ''size'']), (''get'', [''key'']), (''head'', [''key'']),
        (''list'', [''prefix'']), (''delete'', [''key'']),
        (''mpu_create'', [''key'', ''upload'']), (''mpu_part'', [''key'', ''upload'', ''part'', ''size'']),
        (''mpu_complete'', [''key'', ''upload'']), (''mpu_abort'', [''key'', ''upload''])])]"

definition calls_of :: "string \<Rightarrow> (string \<times> string list) list" where
  "calls_of family = (case map_of CALLS family of None \<Rightarrow> [] | Some cs \<Rightarrow> cs)"

definition call_fields :: "string \<Rightarrow> string \<Rightarrow> string list" where
  "call_fields family call = (case map_of (calls_of family) call of None \<Rightarrow> [] | Some fs \<Rightarrow> fs)"

definition v3_int :: "json \<Rightarrow> int \<Rightarrow> int result" where
  "v3_int = check_int Workload3Error"

definition v3_str :: "json \<Rightarrow> string result" where
  "v3_str = check_str Workload3Error"

definition v3_enum :: "json \<Rightarrow> string list \<Rightarrow> string result" where
  "v3_enum = check_enum Workload3Error"

section \<open>Building a workload\<close>

definition new_workload ::
  "json \<Rightarrow> json \<Rightarrow> json \<Rightarrow> string \<Rightarrow> json \<Rightarrow> json \<Rightarrow> json list \<Rightarrow> fields \<Rightarrow> string \<Rightarrow> json result" where
  "new_workload capture_level mapping_method timing_model release_provenance engine completeness
       notes source content_profile =
     rbind (obj_get_default engine ''family'' (JStr ''unknown'')) (\<lambda>family.
     rbind (obj_get_default engine ''name'' (JStr ''unknown'')) (\<lambda>name.
     rbind (obj_get_default engine ''revision'' (JStr ''unknown'')) (\<lambda>revision.
     rbind (obj_get_default engine ''config'' (JObj [])) (\<lambda>config. Inr (JObj [
       (''schema'', JStr V3_SCHEMA),
       (''provenance'', JObj [
          (''capture_level'', capture_level), (''mapping_method'', mapping_method),
          (''completeness'', JObj [(''status'', completeness), (''notes'', JList notes)]),
          (''timing_model'', timing_model), (''release_provenance'', JStr release_provenance),
          (''source'', JObj source)]),
       (''engine'', JObj [(''family'', family), (''name'', name), (''revision'', revision),
                          (''config'', JObj (the_obj config))]),
       (''content_profile'', JStr content_profile),
       (''namespace'', JObj [(''nodes'', JObj []), (''entries'', JList []), (''handles'', JObj [])]),
       (''objects'', JObj []),
       (''operations'', JList []),
       (''health'', JObj []),
       (''timing'', JObj [(''sidecar'', JNull), (''sidecar_sha256'', JNull)])])))))"

definition add_node :: "json \<Rightarrow> string \<Rightarrow> json \<Rightarrow> json \<Rightarrow> json \<Rightarrow> string \<Rightarrow> json" where
  "add_node wl node_id kind incarnation bytes tier =
     (let ns = fld wl ''namespace'' in
      obj_set wl ''namespace'' (obj_set ns ''nodes'' (obj_set (fld ns ''nodes'') node_id
        (JObj [(''kind'', kind), (''incarnation'', incarnation), (''size'', bytes),
               (''tier'', JStr tier)]))))"

definition add_entry :: "json \<Rightarrow> json \<Rightarrow> json \<Rightarrow> json" where
  "add_entry wl path node_id =
     (let ns = fld wl ''namespace'' in
      obj_set wl ''namespace'' (obj_set ns ''entries'' (JList (the_list (fld ns ''entries'') @
        [JObj [(''path'', path), (''node'', node_id)]]))))"

record v3_op_args =
  pa_op_id :: json
  pa_family :: string
  pa_call :: string
  pa_stream :: json
  pa_deps :: "json list"
  pa_release_ns :: json
  pa_declared_delay_ns :: json
  pa_expected :: fields
  pa_attempt :: json
  pa_batch_id :: json
  pa_fields :: fields

definition v3_operation :: "nat \<Rightarrow> v3_op_args \<Rightarrow> json" where
  "v3_operation pos a = JObj [
     (''op_id'', pa_op_id a), (''seq'', JInt (int pos)), (''family'', JStr (pa_family a)),
     (''call'', JStr (pa_call a)), (''args'', JObj (pa_fields a)), (''stream'', pa_stream a),
     (''batch_id'', pa_batch_id a), (''attempt'', pa_attempt a),
     (''deps'', JList (map (\<lambda>d. if is_obj d then d else JObj [(''op'', d), (''kind'', JStr ''program'')])
                       (pa_deps a))),
     (''release_ns'', pa_release_ns a), (''declared_delay_ns'', pa_declared_delay_ns a),
     (''expected'', JObj (pa_expected a))]"

definition add_op :: "json \<Rightarrow> v3_op_args \<Rightarrow> json result" where
  "add_op wl a =
     rbind (require (pa_call a \<in> set (map fst (calls_of (pa_family a))))
       (Workload3Error ''unknown call'')) (\<lambda>_.
       let ops = the_list (fld wl ''operations'') in
       Inr (obj_set wl ''operations'' (JList (ops @ [v3_operation (length ops) a]))))"

section \<open>Validating a workload\<close>

text \<open>Called on validated workloads, where family and call are strings.\<close>

definition required_capabilities :: "json \<Rightarrow> string list result" where
  "required_capabilities wl =
     rbind (obj_index wl ''operations'') (\<lambda>ops.
     rbind (py_iter ops) (\<lambda>ops.
     rbind (mmap (\<lambda>op. rbind (obj_index op ''family'') (\<lambda>family.
                        rbind (obj_index op ''call'') (\<lambda>call.
                        case (py_str family, py_str call) of
                          (Some f, Some c) \<Rightarrow> Inr (f @ ''.'' @ c)
                        | _ \<Rightarrow> Inl TypeError))) ops) (\<lambda>names.
     Inr (sorted_list_of_set (set names)))))"

definition v3_check_provenance :: "json \<Rightarrow> string result" where
  "v3_check_provenance prov =
     rbind (require (is_obj prov) (Workload3Error ''provenance must be an object'')) (\<lambda>_.
     rbind (v3_enum (fld prov ''capture_level'') V3_CAPTURE_LEVELS) (\<lambda>level.
     rbind (v3_enum (fld prov ''mapping_method'') V3_MAPPING_METHODS) (\<lambda>mapping.
     let comp = fld prov ''completeness'' in
     rbind (require (is_obj comp) (Workload3Error ''provenance.completeness must be an object'')) (\<lambda>_.
     rbind (v3_enum (fld comp ''status'') V3_COMPLETENESS) (\<lambda>_.
     rbind (v3_enum (fld prov ''timing_model'') V3_TIMING_MODELS) (\<lambda>timing.
     rbind (v3_enum (fld prov ''release_provenance'') RELEASE_PROVENANCE) (\<lambda>relp.
     rbind (require (\<not> (timing = ''captured'' \<and> relp = ''none''))
       (Workload3Error ''captured timing must say what its release times are'')) (\<lambda>_.
     rbind (require (\<not> (timing = ''absent'' \<and> relp \<noteq> ''none''))
       (Workload3Error ''absent timing cannot claim release provenance'')) (\<lambda>_.
     rbind (require (\<not> (level \<in> {''A1'', ''api''} \<and> mapping = ''heuristic''))
       (Workload3Error ''an API-boundary capture cannot have a heuristic mapping'')) (\<lambda>_.
     Inr timing))))))))))"

definition v3_check_engine :: "json \<Rightarrow> unit result" where
  "v3_check_engine eng =
     rbind (require (is_obj eng) (Workload3Error ''engine must be an object'')) (\<lambda>_.
     mforall (\<lambda>f. rbind (v3_str (fld eng f)) (\<lambda>_. Inr ())) [''family'', ''name'', ''revision''])"

definition v3_check_node :: "string \<times> json \<Rightarrow> unit result" where
  "v3_check_node item = (case item of (nid, node) \<Rightarrow>
     rbind (v3_str (JStr nid)) (\<lambda>_.
     rbind (obj_get node ''kind'') (\<lambda>kind.
     rbind (v3_enum kind [''file'', ''dir'', ''object'']) (\<lambda>_.
     rbind (obj_get_default node ''incarnation'' (JInt 1)) (\<lambda>incarnation.
     rbind (v3_int incarnation 1) (\<lambda>_.
     rbind (obj_get_default node ''size'' (JInt 0)) (\<lambda>bytes.
     rbind (v3_int bytes 0) (\<lambda>_. Inr ()))))))))"

definition v3_check_entry :: "json \<Rightarrow> string set \<Rightarrow> json \<Rightarrow> string set result" where
  "v3_check_entry nodes paths e =
     rbind (obj_get e ''path'') (\<lambda>path.
     rbind (v3_str path) (\<lambda>p.
     rbind (require (traversal_free p)
       (Workload3Error ''entry path must be relative and traversal-free'')) (\<lambda>_.
     rbind (in_keys (fld e ''node'') (obj_keys nodes)) (\<lambda>known.
     rbind (require known (Workload3Error ''entry names unknown node'')) (\<lambda>_.
     rbind (require (p \<notin> paths) (Workload3Error ''entry listed twice'')) (\<lambda>_.
     Inr (insert p paths)))))))"

definition v3_check_handle :: "json \<Rightarrow> string \<times> json \<Rightarrow> unit result" where
  "v3_check_handle nodes item = (case item of (hid, h) \<Rightarrow>
     rbind (obj_get h ''node'') (\<lambda>node.
     rbind (in_keys node (obj_keys nodes)) (\<lambda>known.
     require known (Workload3Error ''handle names unknown node''))))"

definition v3_check_namespace :: "json \<Rightarrow> unit result" where
  "v3_check_namespace ns =
     rbind (require (is_obj ns \<and> is_obj (fld ns ''nodes'') \<and> is_list (fld ns ''entries'') \<and>
                     is_obj (fld ns ''handles''))
       (Workload3Error ''namespace must have nodes, entries and handles'')) (\<lambda>_.
     rbind (mforall v3_check_node (the_obj (fld ns ''nodes''))) (\<lambda>_.
     rbind (mfold (v3_check_entry (fld ns ''nodes'')) {} (the_list (fld ns ''entries''))) (\<lambda>_.
     mforall (v3_check_handle (fld ns ''nodes'')) (the_obj (fld ns ''handles'')))))"

text \<open>
  \<open>args[f].startswith("/") or ".." in args[f].split("/")\<close>, when the field is present: a value
  that is no string has no such methods.
\<close>

definition v3_check_path :: "json \<Rightarrow> string \<Rightarrow> unit result" where
  "v3_check_path args f =
     (if \<not> has_key args f then Inr ()
      else rbind (require (is_str (fld args f)) AttributeError) (\<lambda>_.
           require (traversal_free (the_str (fld args f)))
             (Workload3Error ''path must be relative and traversal-free'')))"

definition v3_check_args :: "json \<Rightarrow> json \<Rightarrow> string \<Rightarrow> string \<Rightarrow> json \<Rightarrow> unit result" where
  "v3_check_args wl nodes fam call args =
     rbind (require (is_obj args) (Workload3Error ''args must be an object'')) (\<lambda>_.
     rbind (mforall (\<lambda>f. require (has_key args f) (Workload3Error ''lacks a field''))
              (call_fields fam call)) (\<lambda>_.
     rbind (mforall (\<lambda>f. if has_key args f then rbind (v3_int (fld args f) 0) (\<lambda>_. Inr ()) else Inr ())
              [''size'', ''offset'', ''length'', ''part'']) (\<lambda>_.
     rbind (v3_check_path args ''path'') (\<lambda>_.
     rbind (v3_check_path args ''new_path'') (\<lambda>_.
     rbind (if has_key args ''flags''
            then rbind (py_iter (fld args ''flags'')) (\<lambda>flags.
                 mforall (\<lambda>fl. rbind (v3_enum fl OPEN_FLAGS) (\<lambda>_. Inr ())) flags)
            else Inr ()) (\<lambda>_.
     if has_key args ''node''
     then rbind (in_keys (fld args ''node'') (obj_keys nodes)) (\<lambda>in_nodes.
          if in_nodes then Inr () else
          rbind (obj_get_default wl ''objects'' (JObj [])) (\<lambda>objects.
          rbind (py_in (fld args ''node'') objects) (\<lambda>in_objects.
          require in_objects (Workload3Error ''names unknown node''))))
     else Inr ()))))))"

text \<open>
  The set of open handles, as the list of its members; members are compared with Python's
  equality. A handle that cannot be hashed raises.
\<close>

definition handle_open :: "json list \<Rightarrow> json \<Rightarrow> bool" where
  "handle_open hs h \<longleftrightarrow> (\<exists>x\<in>set hs. py_eq x h)"

definition v3_check_posix :: "string \<Rightarrow> json \<Rightarrow> json list \<Rightarrow> json list result" where
  "v3_check_posix call args open_handles =
     (let h = fld args ''handle'' in
      if call = ''open'' then
        rbind (require (hashable h) TypeError) (\<lambda>_.
        rbind (require (\<not> handle_open open_handles h) (Workload3Error ''reopens live handle'')) (\<lambda>_.
        Inr (h # open_handles)))
      else if has_key args ''handle'' then
        rbind (require (hashable h) TypeError) (\<lambda>_.
        rbind (require (handle_open open_handles h) (Workload3Error ''uses a handle that is not open'')) (\<lambda>_.
        Inr (if call = ''close'' then filter (\<lambda>x. \<not> py_eq x h) open_handles else open_handles)))
      else Inr open_handles)"

definition v3_check_dep :: "(string \<Rightarrow> nat option) \<Rightarrow> nat \<Rightarrow> json \<Rightarrow> unit result" where
  "v3_check_dep seen pos d =
     rbind (require (is_obj d) (Workload3Error ''depends on something that is not an earlier operation'')) (\<lambda>_.
     rbind (require (hashable (fld d ''op'')) TypeError) (\<lambda>_.
     rbind (require (is_str (fld d ''op'') \<and>
                     (case seen (the_str (fld d ''op'')) of None \<Rightarrow> False | Some p \<Rightarrow> p < pos))
       (Workload3Error ''depends on something that is not an earlier operation'')) (\<lambda>_.
     rbind (v3_enum (fld d ''kind'') DEP_KINDS) (\<lambda>_. Inr ()))))"

definition v3_check_timing :: "string \<Rightarrow> json \<Rightarrow> unit result" where
  "v3_check_timing timing op =
     (if fld op ''release_ns'' \<noteq> JNull
      then rbind (v3_int (fld op ''release_ns'') 0) (\<lambda>_.
           require (timing \<noteq> ''absent'') (Workload3Error ''carries release_ns under absent timing''))
      else require (timing \<noteq> ''captured'') (Workload3Error ''lacks release_ns under captured timing''))"

definition v3_check_expected :: "json \<Rightarrow> unit result" where
  "v3_check_expected op =
     rbind (obj_get_default op ''expected'' (JObj [])) (\<lambda>exp.
     rbind (require (is_obj exp) (Workload3Error ''expected must be an object'')) (\<lambda>_.
     rbind (if has_key exp ''outcome'' then rbind (v3_enum (fld exp ''outcome'') V3_OUTCOMES) (\<lambda>_. Inr ())
            else Inr ()) (\<lambda>_.
     if has_key exp ''outcomes''
     then rbind (py_iter (fld exp ''outcomes'')) (\<lambda>xs.
          mforall (\<lambda>x. rbind (v3_enum x V3_OUTCOMES) (\<lambda>_. Inr ())) xs)
     else Inr ())))"

record v3_scan =
  v3_seen :: "string \<Rightarrow> nat option"
  open_handles :: "json list"

definition v3_check_op :: "json \<Rightarrow> string \<Rightarrow> json \<Rightarrow> v3_scan \<Rightarrow> nat \<times> json \<Rightarrow> v3_scan result" where
  "v3_check_op wl timing nodes st item = (case item of (pos, op) \<Rightarrow>
     rbind (require (is_obj op \<and> py_eq (fld op ''seq'') (JInt (int pos)))
       (Workload3Error ''seq must equal its position'')) (\<lambda>_.
     rbind (v3_str (fld op ''op_id'')) (\<lambda>oid.
     rbind (require (v3_seen st oid = None) (Workload3Error ''op_id not unique'')) (\<lambda>_.
     let seen = (v3_seen st)(oid \<mapsto> pos) in
     rbind (v3_enum (fld op ''family'') V3_FAMILIES) (\<lambda>fam.
     rbind (v3_enum (fld op ''call'') (map fst (calls_of fam))) (\<lambda>call.
     rbind (v3_check_args wl nodes fam call (fld op ''args'')) (\<lambda>_.
     rbind (if fam = ''posix'' then v3_check_posix call (fld op ''args'') (open_handles st)
            else Inr (open_handles st)) (\<lambda>handles.
     rbind (require (fld op ''stream'' \<noteq> JNull) (Workload3Error ''stream required'')) (\<lambda>_.
     rbind (obj_get_default op ''attempt'' (JInt 1)) (\<lambda>attempt.
     rbind (v3_int attempt 1) (\<lambda>_.
     let deps = fld op ''deps'' in
     rbind (require (is_list deps) (Workload3Error ''deps must be a list'')) (\<lambda>_.
     rbind (mforall (v3_check_dep seen pos) (the_list deps)) (\<lambda>_.
     rbind (v3_check_timing timing op) (\<lambda>_.
     rbind (v3_check_expected op) (\<lambda>_.
     Inr \<lparr>v3_seen = seen, open_handles = handles\<rparr>)))))))))))))))"

definition v3_check_sidecar :: "json \<Rightarrow> string \<Rightarrow> unit result" where
  "v3_check_sidecar wl timing =
     (if timing \<noteq> ''captured'' then Inr () else
      rbind (obj_get_default wl ''timing'' (JObj [])) (\<lambda>t.
      rbind (obj_get t ''sidecar'') (\<lambda>sidecar.
      require (truthy sidecar \<and> truthy (fld t ''sidecar_sha256''))
        (Workload3Error ''captured timing requires a bound timing sidecar''))))"

definition validate_workload :: "json \<Rightarrow> json result" where
  "validate_workload wl =
     rbind (require (is_obj wl \<and> py_eq (fld wl ''schema'') (JStr V3_SCHEMA))
       (Workload3Error ''unsupported schema'')) (\<lambda>_.
     rbind (v3_check_provenance (fld wl ''provenance'')) (\<lambda>timing.
     rbind (v3_check_engine (fld wl ''engine'')) (\<lambda>_.
     rbind (v3_str (fld wl ''content_profile'')) (\<lambda>_.
     let ns = fld wl ''namespace'' in
     rbind (v3_check_namespace ns) (\<lambda>_.
     let ops = fld wl ''operations'' in
     rbind (require (is_list ops) (Workload3Error ''operations must be a list'')) (\<lambda>_.
     rbind (mfold (v3_check_op wl timing (fld ns ''nodes''))
              \<lparr>v3_seen = Map.empty, open_handles = map JStr (obj_keys (fld ns ''handles''))\<rparr>
              (enumerate 0 (the_list ops))) (\<lambda>_.
     rbind (v3_check_sidecar wl timing) (\<lambda>_.
     rbind (require (is_obj (fld wl ''health'')) (Workload3Error ''health must be an object'')) (\<lambda>_.
     Inr wl)))))))))"

section \<open>Digests\<close>

definition workload_sha256 :: "(json \<Rightarrow> string) \<Rightarrow> (string \<Rightarrow> string) \<Rightarrow> json \<Rightarrow> string result" where
  "workload_sha256 canon sha wl =
     rbind (validate_workload wl) (\<lambda>_. Inr (sha (canon wl)))"

definition v3_bundle_sha256 ::
  "(json \<Rightarrow> string) \<Rightarrow> (string \<Rightarrow> string) \<Rightarrow> json \<Rightarrow> string option \<Rightarrow> json \<Rightarrow> string result" where
  "v3_bundle_sha256 canon sha wl sidecar_bytes target =
     rbind (validate_workload wl) (\<lambda>_.
     rbind (if fld (fld wl ''provenance'') ''timing_model'' = JStr ''captured''
            then (case sidecar_bytes of
                    None \<Rightarrow> Inl (Workload3Error ''bundle digest needs the timing sidecar bytes'')
                  | Some side \<Rightarrow>
                      rbind (require (fld (fld wl ''timing'') ''sidecar_sha256'' = JStr (sha side))
                        (Workload3Error ''timing sidecar does not match the digest the workload binds''))
                        (\<lambda>_. Inr side))
            else Inr []) (\<lambda>side.
     Inr (sha (canon wl @ side @ (if target \<noteq> JNull then canon target else [])))))"

section \<open>The v2 adapter\<close>

definition node_name :: "string \<Rightarrow> string \<Rightarrow> string" where
  "node_name oid ver = oid @ ''@'' @ ver"

text \<open>\<open>any(x in n for n in notes)\<close>, which stops at the first note that contains \<open>x\<close>.\<close>

fun any_contains :: "json \<Rightarrow> json list \<Rightarrow> bool result" where
  "any_contains x [] = Inr False"
| "any_contains x (n # ns) = rbind (py_in x n) (\<lambda>b. if b then Inr True else any_contains x ns)"

definition v3_add_version :: "string \<Rightarrow> json \<Rightarrow> string \<times> json \<Rightarrow> json result" where
  "v3_add_version oid wl item = (case item of (ver, v) \<Rightarrow>
     rbind (obj_index v ''bytes'') (\<lambda>bytes.
     Inr (add_node wl (node_name oid ver) (JStr ''object'') (JInt (int (int_of_digits ver))) bytes ''storage'')))"

definition v3_add_versions :: "json \<Rightarrow> string \<times> json \<Rightarrow> json result" where
  "v3_add_versions wl item = (case item of (oid, obj) \<Rightarrow>
     rbind (obj_index obj ''versions'') (\<lambda>versions.
     mfold (v3_add_version oid) wl (the_obj versions)))"

definition v3_add_live :: "json \<Rightarrow> json \<Rightarrow> json result" where
  "v3_add_live wl item =
     (let name = node_name (the_str (fld item ''object_id'')) (the (py_str (fld item ''version''))) in
      Inr (add_entry wl (JStr (''live/'' @ name)) (JStr name)))"

definition v3_dep_of :: "bool \<Rightarrow> json list \<Rightarrow> json \<Rightarrow> json \<Rightarrow> json result" where
  "v3_dep_of identity_rule ops op d =
     (case find (\<lambda>e. fld e ''op_id'' = d) ops of
        None \<Rightarrow> Inl KeyError
      | Some e \<Rightarrow>
          let same = py_eq (fld e ''object_id'') (fld op ''object_id'') in
          Inr (JObj [(''op'', d),
            (''kind'', JStr (if identity_rule \<and> same \<and> \<not> py_eq (fld e ''stream'') (fld op ''stream'')
                             then ''identity'' else ''program''))]))"

definition v3_fields_of :: "json \<Rightarrow> fields" where
  "v3_fields_of op =
     (''node'', JStr (node_name (the_str (fld op ''object_id'')) (the (py_str (fld op ''version''))))) #
     (if fld op ''op'' = JStr ''store'' then [(''size'', fld op ''requested_bytes'')]
      else if fld op ''op'' = JStr ''load'' \<and> truthy (fld op ''range'')
      then [(''offset'', fld (fld op ''range'') ''offset''), (''length'', fld (fld op ''range'') ''length'')]
      else [])"

definition v3_add_v2_op :: "bool \<Rightarrow> json list \<Rightarrow> json \<Rightarrow> json \<Rightarrow> json result" where
  "v3_add_v2_op identity_rule ops wl op =
     rbind (mmap (v3_dep_of identity_rule ops op) (the_list (fld op ''deps''))) (\<lambda>deps.
     add_op wl \<lparr>pa_op_id = fld op ''op_id'', pa_family = ''object'', pa_call = the_str (fld op ''op''),
       pa_stream = fld op ''stream'', pa_deps = deps, pa_release_ns = fld op ''release_ns'',
       pa_declared_delay_ns = fld op ''declared_delay_ns'',
       pa_expected = (if truthy (fld op ''source_outcome'')
                      then [(''outcome'', fld op ''source_outcome'')] else []),
       pa_attempt = JInt 1, pa_batch_id = fld op ''batch_id'', pa_fields = v3_fields_of op\<rparr>)"

definition from_intent2 :: "(json \<Rightarrow> string) \<Rightarrow> (string \<Rightarrow> string) \<Rightarrow> json \<Rightarrow> json result" where
  "from_intent2 canon sha intent =
     rbind (validate_intent2 intent) (\<lambda>_.
     let p = fld intent ''provenance''; engine = fld intent ''engine''; ops = v2_operations intent in
     rbind (obj_index (fld p ''completeness'') ''notes'') (\<lambda>notes.
     rbind (py_iter notes) (\<lambda>note_list.
     rbind (any_contains (JStr ''ordered by identity'') note_list) (\<lambda>identity_rule.
     rbind (new_workload (fld p ''capture_level'') (fld p ''mapping_method'') (fld p ''timing_model'')
              (if fld p ''timing_model'' = JStr ''captured'' then ''observed_submission'' else ''none'')
              (JObj [(''family'', JStr ''object''), (''name'', fld engine ''name''),
                     (''revision'', fld engine ''revision''), (''config'', fld engine ''layout'')])
              (fld (fld p ''completeness'') ''status'') note_list
              [(''schema'', fld intent ''schema''), (''sha256'', JStr (sha (canon intent)))]
              ''incompressible'') (\<lambda>wl.
     rbind (mfold v3_add_versions wl (the_obj (fld intent ''objects''))) (\<lambda>wl.
     rbind (mfold v3_add_live wl (the_list (fld (fld intent ''initial_state'') ''live''))) (\<lambda>wl.
     rbind (mfold (v3_add_v2_op identity_rule ops) wl ops) (\<lambda>wl.
     let wl = obj_set (obj_set wl ''health'' (JObj (the_obj (fld intent ''health''))))
                ''timing'' (JObj (the_obj (fld intent ''timing'')))
     in validate_workload wl))))))))"

text \<open>\<open>load_workload\<close> on the decoded value of the file.\<close>

definition load_workload :: "(json \<Rightarrow> string) \<Rightarrow> (string \<Rightarrow> string) \<Rightarrow> json \<Rightarrow> json result" where
  "load_workload canon sha value =
     rbind (obj_get value ''schema'') (\<lambda>schema.
     if schema = JStr V2_SCHEMA then from_intent2 canon sha value else validate_workload value)"

section \<open>What the validator accepts\<close>

lemmas v3_checks = v3_int_def v3_str_def v3_enum_def

abbreviation v3_operations :: "json \<Rightarrow> json list" where
  "v3_operations wl \<equiv> the_list (fld wl ''operations'')"

definition v3_deps :: "json \<Rightarrow> string list" where
  "v3_deps op = map (\<lambda>d. the_str (fld d ''op'')) (the_list (fld op ''deps''))"

text \<open>The handles open after a sequence of operations.\<close>

definition v3_handle_step :: "json list \<Rightarrow> json \<Rightarrow> json list" where
  "v3_handle_step hs op =
     (if fld op ''family'' \<noteq> JStr ''posix'' then hs
      else case v3_check_posix (the_str (fld op ''call'')) (fld op ''args'') hs of
             Inl _ \<Rightarrow> hs | Inr hs' \<Rightarrow> hs')"

definition v3_handles :: "json list \<Rightarrow> json list \<Rightarrow> json list" where
  "v3_handles hs ops = foldl v3_handle_step hs ops"

definition v3_dep_ok :: "json list \<Rightarrow> json \<Rightarrow> bool" where
  "v3_dep_ok pre d \<longleftrightarrow> is_obj d \<and> (\<exists>e\<in>set pre. fld d ''op'' = fld e ''op_id'') \<and>
     in_tuple (fld d ''kind'') DEP_KINDS"

definition v3_op_ok :: "json \<Rightarrow> string \<Rightarrow> json \<Rightarrow> json list \<Rightarrow> json list \<Rightarrow> json \<Rightarrow> bool" where
  "v3_op_ok wl timing nodes hs pre op \<longleftrightarrow>
     is_obj op \<and> py_eq (fld op ''seq'') (JInt (int (length pre))) \<and>
     nonempty_str (fld op ''op_id'') \<and> (\<forall>e\<in>set pre. fld e ''op_id'' \<noteq> fld op ''op_id'') \<and>
     (\<exists>fam call. fld op ''family'' = JStr fam \<and> fam \<in> set V3_FAMILIES \<and>
        fld op ''call'' = JStr call \<and> call \<in> set (map fst (calls_of fam)) \<and>
        v3_check_args wl nodes fam call (fld op ''args'') = Inr () \<and>
        (fam = ''posix'' \<longrightarrow> (\<exists>hs'. v3_check_posix call (fld op ''args'') (v3_handles hs pre) = Inr hs'))) \<and>
     fld op ''stream'' \<noteq> JNull \<and>
     (has_key op ''attempt'' \<longrightarrow> (\<exists>n\<ge>1. fld op ''attempt'' = JInt n)) \<and>
     is_list (fld op ''deps'') \<and> (\<forall>d\<in>set (the_list (fld op ''deps'')). v3_dep_ok pre d) \<and>
     v3_check_timing timing op = Inr () \<and> v3_check_expected op = Inr ()"

definition v3_ops_ok :: "json \<Rightarrow> string \<Rightarrow> json \<Rightarrow> json list \<Rightarrow> json list \<Rightarrow> bool" where
  "v3_ops_ok wl timing nodes hs ops \<longleftrightarrow>
     (\<forall>i<length ops. v3_op_ok wl timing nodes hs (take i ops) (ops ! i))"

definition v3_scan_inv :: "json list \<Rightarrow> json list \<Rightarrow> v3_scan \<Rightarrow> bool" where
  "v3_scan_inv hs pre st \<longleftrightarrow> id_index pre (v3_seen st) \<and> open_handles st = v3_handles hs pre"

lemma v3_handles_snoc: "v3_handles hs (pre @ [op]) = v3_handle_step (v3_handles hs pre) op"
  by (simp add: v3_handles_def)

lemma v3_check_dep_iff:
  assumes "id_index pre seen" "seen x = None" "\<forall>e\<in>set pre. is_str (fld e ''op_id'')"
  shows "v3_check_dep (seen(x \<mapsto> length pre)) (length pre) d = Inr () \<longleftrightarrow> v3_dep_ok pre d"
proof (cases "is_str (fld d ''op'')")
  case True
  then obtain y where y: "fld d ''op'' = JStr y" by (auto simp: is_str_iff)
  have "(case (seen(x \<mapsto> length pre)) y of None \<Rightarrow> False | Some p \<Rightarrow> p < length pre)
      \<longleftrightarrow> (\<exists>e\<in>set pre. JStr y = fld e ''op_id'')"
    using id_index_earlier [OF assms(1,2), of y] by (simp only: eq_commute [of "JStr y"])
  then show ?thesis
    unfolding v3_check_dep_def v3_dep_ok_def rbind_Inr_iff require_Inr_iff y v3_checks check_enum_Inr_iff
    by (auto simp: in_tuple_def is_str_iff)
next
  case False
  with assms(3) show ?thesis
    unfolding v3_check_dep_def v3_dep_ok_def rbind_Inr_iff require_Inr_iff by metis
qed

lemma v3_check_op_sound:
  assumes inv: "v3_scan_inv hs pre st" and str: "\<forall>e\<in>set pre. is_str (fld e ''op_id'')"
    and run: "v3_check_op wl timing nodes st (length pre, op) = Inr st'"
  shows "v3_op_ok wl timing nodes hs pre op" "v3_scan_inv hs (pre @ [op]) st'"
proof -
  have index: "id_index pre (v3_seen st)" and handles: "open_handles st = v3_handles hs pre"
    using inv by (simp_all add: v3_scan_inv_def)
  obtain x fam call hs' attempt where *:
    "is_obj op" "py_eq (fld op ''seq'') (JInt (int (length pre)))"
    "fld op ''op_id'' = JStr x" "x \<noteq> []" "v3_seen st x = None"
    "fld op ''family'' = JStr fam" "fam \<in> set V3_FAMILIES"
    "fld op ''call'' = JStr call" "call \<in> set (map fst (calls_of fam))"
    "v3_check_args wl nodes fam call (fld op ''args'') = Inr ()"
    "(if fam = ''posix'' then v3_check_posix call (fld op ''args'') (open_handles st)
      else Inr (open_handles st)) = Inr hs'"
    "fld op ''stream'' \<noteq> JNull"
    "(if has_key op ''attempt'' then fld op ''attempt'' else JInt 1) = JInt attempt" "1 \<le> attempt"
    "is_list (fld op ''deps'')"
    "\<forall>d\<in>set (the_list (fld op ''deps'')).
       v3_check_dep ((v3_seen st)(x \<mapsto> length pre)) (length pre) d = Inr ()"
    "v3_check_timing timing op = Inr ()" "v3_check_expected op = Inr ()"
    "st' = \<lparr>v3_seen = (v3_seen st)(x \<mapsto> length pre), open_handles = hs'\<rparr>"
    using run unfolding v3_check_op_def Let_def v3_checks prod.case rbind_Inr_iff require_Inr_iff
      check_str_Inr_iff check_enum_Inr_iff check_int_Inr_iff mforall_Inr_iff obj_get_default_Inr_iff
    by (elim exE conjE) (simp split del: if_split)
  show "v3_op_ok wl timing nodes hs pre op"
    unfolding v3_op_ok_def
    using * id_index_None [OF index, of x]
    by (auto simp: handles v3_check_dep_iff [OF index * (5) str])
  have "v3_handle_step (v3_handles hs pre) op = hs'"
    using * (6,8,11) by (auto simp: v3_handle_step_def handles split: if_splits)
  then show "v3_scan_inv hs (pre @ [op]) st'"
    using id_index_snoc [OF index * (5) * (3)]
    by (simp add: v3_scan_inv_def * (19) v3_handles_snoc)
qed

lemma v3_check_op_complete:
  assumes inv: "v3_scan_inv hs pre st" and str: "\<forall>e\<in>set pre. is_str (fld e ''op_id'')"
    and ok: "v3_op_ok wl timing nodes hs pre op"
  shows "\<exists>st'. v3_check_op wl timing nodes st (length pre, op) = Inr st'"
proof -
  have index: "id_index pre (v3_seen st)" and handles: "open_handles st = v3_handles hs pre"
    using inv by (simp_all add: v3_scan_inv_def)
  obtain x where x: "fld op ''op_id'' = JStr x" "x \<noteq> []"
    using ok by (auto simp: v3_op_ok_def nonempty_str_iff)
  have fresh: "v3_seen st x = None"
    using ok x id_index_None [OF index, of x] by (simp add: v3_op_ok_def)
  obtain attempt where "(if has_key op ''attempt'' then fld op ''attempt'' else JInt 1) = JInt attempt" "1 \<le> attempt"
    using ok by (cases "has_key op ''attempt''") (auto simp: v3_op_ok_def)
  moreover obtain fam call hs' where "fld op ''family'' = JStr fam" "fam \<in> set V3_FAMILIES"
    "fld op ''call'' = JStr call" "call \<in> set (map fst (calls_of fam))"
    "v3_check_args wl nodes fam call (fld op ''args'') = Inr ()"
    "(if fam = ''posix'' then v3_check_posix call (fld op ''args'') (open_handles st)
      else Inr (open_handles st)) = Inr hs'"
    using ok unfolding v3_op_ok_def handles by (metis (full_types))
  ultimately show ?thesis
    using ok x fresh unfolding v3_op_ok_def v3_check_op_def Let_def v3_checks prod.case rbind_Inr_iff
      require_Inr_iff check_str_Inr_iff check_enum_Inr_iff check_int_Inr_iff mforall_Inr_iff
      obj_get_default_Inr_iff v3_check_dep_iff [OF index fresh str, symmetric]
    by (auto split del: if_split)
qed

lemma v3_op_ok_id: "v3_op_ok wl timing nodes hs pre op \<Longrightarrow> is_str (fld op ''op_id'')"
  by (cases "fld op ''op_id''") (auto simp: v3_op_ok_def)

lemma v3_ops_ok_ids:
  "v3_ops_ok wl timing nodes hs ops \<Longrightarrow> \<forall>e\<in>set ops. is_str (fld e ''op_id'')"
  unfolding v3_ops_ok_def all_set_conv_all_nth using v3_op_ok_id by blast

lemma v3_ops_ok_snoc:
  "v3_ops_ok wl timing nodes hs (ops @ [op]) \<longleftrightarrow>
     v3_ops_ok wl timing nodes hs ops \<and> v3_op_ok wl timing nodes hs ops op"
  by (auto simp: v3_ops_ok_def nth_append less_Suc_eq)

lemma v3_check_ops_iff:
  "(\<exists>st. mfold (v3_check_op wl timing nodes) \<lparr>v3_seen = Map.empty, open_handles = hs\<rparr>
       (enumerate 0 ops) = Inr st) \<longleftrightarrow> v3_ops_ok wl timing nodes hs ops"
  unfolding v3_ops_ok_def
proof (rule mfold_scan(1) [where I = "\<lambda>pre st. v3_scan_inv hs pre st \<and> (\<forall>e\<in>set pre. is_str (fld e ''op_id''))"])
  show "v3_scan_inv hs [] \<lparr>v3_seen = Map.empty, open_handles = hs\<rparr> \<and> (\<forall>e\<in>set []. is_str (fld e ''op_id''))"
    by (simp add: v3_scan_inv_def v3_handles_def)
next
  fix pre st op st'
  assume "v3_scan_inv hs pre st \<and> (\<forall>e\<in>set pre. is_str (fld e ''op_id''))"
    and "v3_check_op wl timing nodes st (length pre, op) = Inr st'"
  then show "v3_op_ok wl timing nodes hs pre op \<and> v3_scan_inv hs (pre @ [op]) st' \<and>
      (\<forall>e\<in>set (pre @ [op]). is_str (fld e ''op_id''))"
    using v3_check_op_sound [of hs pre st wl timing nodes op st'] v3_op_ok_id [of wl timing nodes hs pre op]
    by simp
next
  fix pre st op
  assume "v3_scan_inv hs pre st \<and> (\<forall>e\<in>set pre. is_str (fld e ''op_id''))" "v3_op_ok wl timing nodes hs pre op"
  then show "\<exists>st'. v3_check_op wl timing nodes st (length pre, op) = Inr st'"
    using v3_check_op_complete by blast
qed

definition v3_initial_handles :: "json \<Rightarrow> json list" where
  "v3_initial_handles wl = map JStr (obj_keys (fld (fld wl ''namespace'') ''handles''))"

abbreviation v3_nodes :: "json \<Rightarrow> json" where
  "v3_nodes wl \<equiv> fld (fld wl ''namespace'') ''nodes''"

lemma validate_workload_iff:
  "validate_workload wl = Inr r \<longleftrightarrow> r = wl \<and>
     is_obj wl \<and> fld wl ''schema'' = JStr V3_SCHEMA \<and>
     (\<exists>timing. v3_check_provenance (fld wl ''provenance'') = Inr timing \<and>
        v3_check_engine (fld wl ''engine'') = Inr () \<and>
        nonempty_str (fld wl ''content_profile'') \<and>
        v3_check_namespace (fld wl ''namespace'') = Inr () \<and>
        is_list (fld wl ''operations'') \<and>
        v3_ops_ok wl timing (v3_nodes wl) (v3_initial_handles wl) (v3_operations wl) \<and>
        v3_check_sidecar wl timing = Inr () \<and>
        is_obj (fld wl ''health''))"
  unfolding v3_check_ops_iff [symmetric] validate_workload_def Let_def v3_initial_handles_def v3_checks
    rbind_Inr_iff require_Inr_iff check_str_Inr_iff py_eq_JStr_iff nonempty_str_iff
  by (auto split del: if_split)

lemma v3_check_provenance_timing:
  "v3_check_provenance prov = Inr timing \<Longrightarrow> fld prov ''timing_model'' = JStr timing"
  by (auto simp: v3_check_provenance_def v3_checks Let_def result_simps)

lemma validate_workload_ops_ok:
  assumes "validate_workload wl = Inr r"
  obtains timing where "fld (fld wl ''provenance'') ''timing_model'' = JStr timing"
    "v3_ops_ok wl timing (v3_nodes wl) (v3_initial_handles wl) (v3_operations wl)"
  using assms v3_check_provenance_timing unfolding validate_workload_iff by blast

lemma v3_ops_ok_distinct:
  "v3_ops_ok wl timing nodes hs ops \<Longrightarrow> distinct (map (\<lambda>op. fld op ''op_id'') ops)"
proof (induction ops rule: rev_induct)
  case (snoc op ops)
  then show ?case
    by (auto simp: v3_ops_ok_snoc v3_op_ok_def)
qed simp

lemma v3_ops_ok_deps:
  assumes "v3_ops_ok wl timing nodes hs ops" "i < length ops" "d \<in> set (v3_deps (ops ! i))"
  shows "\<exists>k<i. fld (ops ! k) ''op_id'' = JStr d"
proof -
  have ok: "v3_op_ok wl timing nodes hs (take i ops) (ops ! i)"
    using assms by (simp add: v3_ops_ok_def)
  obtain v where v: "v \<in> set (the_list (fld (ops ! i) ''deps''))" "d = the_str (fld v ''op'')"
    using assms(3) by (auto simp: v3_deps_def)
  then obtain e where e: "e \<in> set (take i ops)" "fld v ''op'' = fld e ''op_id''"
    using ok unfolding v3_op_ok_def v3_dep_ok_def by blast
  then obtain k where "k < i" "e = ops ! k"
    using assms(2) by (auto simp: in_set_conv_nth)
  moreover have "is_str (fld e ''op_id'')"
    using v3_ops_ok_ids [OF assms(1)] e in_set_takeD by fast
  ultimately show ?thesis
    using e v by (auto simp: is_str_iff)
qed

section \<open>Handles\<close>

definition v3_posix_call :: "string \<Rightarrow> string \<Rightarrow> json \<Rightarrow> bool" where
  "v3_posix_call call h op \<longleftrightarrow> fld op ''family'' = JStr ''posix'' \<and> fld op ''call'' = JStr call \<and>
     fld (fld op ''args'') ''handle'' = JStr h"

lemma handle_open_JStr [simp]: "handle_open hs (JStr h) \<longleftrightarrow> JStr h \<in> set hs"
  by (auto simp: handle_open_def)

lemma py_eq_JStr_left [simp]: "py_eq (JStr s) v \<longleftrightarrow> v = JStr s"
  by simp

text \<open>One accepted operation opens, closes or keeps a handle.\<close>

lemma v3_handle_step_JStr:
  assumes "v3_op_ok wl timing nodes hs pre op"
  shows "JStr h \<in> set (v3_handle_step (v3_handles hs pre) op) \<longleftrightarrow>
     v3_posix_call ''open'' h op \<or>
     JStr h \<in> set (v3_handles hs pre) \<and> \<not> v3_posix_call ''close'' h op"
proof (cases "fld op ''family'' = JStr ''posix''")
  case False
  then show ?thesis by (simp add: v3_handle_step_def v3_posix_call_def)
next
  case True
  obtain call hs' where call: "fld op ''call'' = JStr call"
    and hs': "v3_check_posix call (fld op ''args'') (v3_handles hs pre) = Inr hs'"
    using assms True unfolding v3_op_ok_def by (metis json.inject(4))
  have step: "v3_handle_step (v3_handles hs pre) op = hs'"
    using True call hs' by (simp add: v3_handle_step_def)
  have null: "\<not> has_key (fld op ''args'') ''handle'' \<Longrightarrow> fld (fld op ''args'') ''handle'' = JNull"
    using fld_nonnull_has_key by blast
  consider "call = ''open''" | "call = ''close''" | "call \<noteq> ''open''" "call \<noteq> ''close''"
    by blast
  then show ?thesis
  proof cases
    case 1
    then have "hs' = fld (fld op ''args'') ''handle'' # v3_handles hs pre"
      using hs' by (simp add: v3_check_posix_def Let_def rbind_Inr_iff require_Inr_iff)
    then show ?thesis
      using True call 1 step by (auto simp: v3_posix_call_def)
  next
    case 2
    have "hs' = (if has_key (fld op ''args'') ''handle''
        then filter (\<lambda>x. \<not> py_eq x (fld (fld op ''args'') ''handle'')) (v3_handles hs pre)
        else v3_handles hs pre)"
      using hs' 2 by (auto simp: v3_check_posix_def Let_def rbind_Inr_iff require_Inr_iff)
    with True call 2 null show ?thesis
      unfolding step by (auto simp: v3_posix_call_def)
  next
    case 3
    then have "hs' = v3_handles hs pre"
      using hs' by (auto simp: v3_check_posix_def Let_def rbind_Inr_iff require_Inr_iff split: if_splits)
    then show ?thesis
      using call 3 step by (simp add: v3_posix_call_def)
  qed
qed

lemma v3_handles_JStr:
  assumes "v3_ops_ok wl timing nodes hs ops"
  shows "JStr h \<in> set (v3_handles hs ops) \<longleftrightarrow>
     (\<exists>k<length ops. v3_posix_call ''open'' h (ops ! k) \<and>
        (\<forall>m. k < m \<and> m < length ops \<longrightarrow> \<not> v3_posix_call ''close'' h (ops ! m))) \<or>
     (JStr h \<in> set hs \<and> (\<forall>m<length ops. \<not> v3_posix_call ''close'' h (ops ! m)))"
  (is "_ \<longleftrightarrow> ?opened ops \<or> ?kept ops")
  using assms
proof (induction ops rule: rev_induct)
  case Nil
  then show ?case by (simp add: v3_handles_def)
next
  case (snoc op ops)
  then have ok: "v3_op_ok wl timing nodes hs ops op"
    and IH: "JStr h \<in> set (v3_handles hs ops) \<longleftrightarrow> ?opened ops \<or> ?kept ops"
    by (simp_all only: v3_ops_ok_snoc)
  have kept: "?kept (ops @ [op]) \<longleftrightarrow> ?kept ops \<and> \<not> v3_posix_call ''close'' h op"
    by (auto simp: nth_append less_Suc_eq)
  have opened: "?opened (ops @ [op]) \<longleftrightarrow>
      v3_posix_call ''open'' h op \<or> ?opened ops \<and> \<not> v3_posix_call ''close'' h op"
    by (rule last_event_snoc)
  show ?case
    unfolding v3_handles_snoc v3_handle_step_JStr [OF ok] kept opened IH by blast
qed

section \<open>The v2 adapter keeps the operations\<close>

definition v3_carries :: "json \<Rightarrow> json \<Rightarrow> bool" where
  "v3_carries o2 o3 \<longleftrightarrow>
     fld o3 ''op_id'' = fld o2 ''op_id'' \<and> fld o3 ''family'' = JStr ''object'' \<and>
     fld o3 ''call'' = JStr (the_str (fld o2 ''op'')) \<and> fld o3 ''stream'' = fld o2 ''stream'' \<and>
     v3_deps o3 = v2_deps o2 \<and> fld o3 ''release_ns'' = fld o2 ''release_ns'' \<and>
     fld o3 ''declared_delay_ns'' = fld o2 ''declared_delay_ns'' \<and>
     fld (fld o3 ''args'') ''node'' =
       JStr (node_name (the_str (fld o2 ''object_id'')) (the (py_str (fld o2 ''version''))))"

lemma v3_add_keeps_operations:
  "fld (add_node wl n k i b t) ''operations'' = fld wl ''operations''"
  "fld (add_entry wl p m) ''operations'' = fld wl ''operations''"
  by (simp_all add: add_node_def add_entry_def Let_def fld_set)

lemma v3_setup_keeps_operations:
  "mfold v3_add_versions wl objs = Inr wl' \<Longrightarrow> fld wl' ''operations'' = fld wl ''operations''"
  "mfold v3_add_live wl items = Inr wl' \<Longrightarrow> fld wl' ''operations'' = fld wl ''operations''"
proof -
  have inner: "mfold (v3_add_version oid) u vs = Inr u' \<Longrightarrow> fld u' ''operations'' = fld u ''operations''"
    for u u' vs oid
    by (erule mfold_rule [where I = "\<lambda>_ w. fld w ''operations'' = fld u ''operations''"])
      (auto simp: v3_add_version_def rbind_Inr_iff v3_add_keeps_operations)
  show "mfold v3_add_versions wl objs = Inr wl' \<Longrightarrow> fld wl' ''operations'' = fld wl ''operations''"
    by (erule mfold_rule [where I = "\<lambda>_ w. fld w ''operations'' = fld wl ''operations''"])
      (auto simp: v3_add_versions_def rbind_Inr_iff dest!: inner)
  show "mfold v3_add_live wl items = Inr wl' \<Longrightarrow> fld wl' ''operations'' = fld wl ''operations''"
    by (erule mfold_rule [where I = "\<lambda>_ w. fld w ''operations'' = fld wl ''operations''"])
      (auto simp: v3_add_live_def Let_def v3_add_keeps_operations)
qed

lemma new_workload_no_ops:
  "new_workload level mapping tm relp engine completeness notes source profile = Inr wl \<Longrightarrow>
     v3_operations wl = []"
  by (auto simp: new_workload_def rbind_Inr_iff)

lemma v3_dep_of_op: "v3_dep_of rule ops op d = Inr d' \<Longrightarrow> is_obj d' \<and> fld d' ''op'' = d"
  by (auto simp: v3_dep_of_def Let_def split: option.splits)

lemma v3_add_v2_op_carries:
  assumes "v3_add_v2_op rule ops wl op = Inr wl'"
  shows "\<exists>o3. v3_carries op o3 \<and> fld wl' ''operations'' = JList (v3_operations wl @ [o3])"
proof -
  obtain deps where deps: "list_all2 (\<lambda>d d'. v3_dep_of rule ops op d = Inr d') (the_list (fld op ''deps'')) deps"
    and "add_op wl \<lparr>pa_op_id = fld op ''op_id'', pa_family = ''object'', pa_call = the_str (fld op ''op''),
       pa_stream = fld op ''stream'', pa_deps = deps, pa_release_ns = fld op ''release_ns'',
       pa_declared_delay_ns = fld op ''declared_delay_ns'',
       pa_expected = (if truthy (fld op ''source_outcome'') then [(''outcome'', fld op ''source_outcome'')] else []),
       pa_attempt = JInt 1, pa_batch_id = fld op ''batch_id'', pa_fields = v3_fields_of op\<rparr> = Inr wl'"
    (is "add_op wl ?a = _")
    using assms unfolding v3_add_v2_op_def rbind_Inr_iff mmap_Inr_iff by blast
  then have "fld wl' ''operations'' = JList (v3_operations wl @ [v3_operation (length (v3_operations wl)) ?a])"
    by (auto simp: add_op_def Let_def rbind_Inr_iff fld_set)
  moreover have "map (\<lambda>d. the_str (fld d ''op'')) (map (\<lambda>d. if is_obj d then d
      else JObj [(''op'', d), (''kind'', JStr ''program'')]) deps) = v2_deps op"
    using deps unfolding v2_deps_def
    by (induction rule: list_all2_induct) (auto dest: v3_dep_of_op)
  ultimately show ?thesis
    by (auto simp: v3_carries_def v3_operation_def v3_deps_def v3_fields_of_def)
qed

lemma v3_add_v2_ops_carry:
  assumes "mfold (v3_add_v2_op rule all) wl ops = Inr wl'" "v3_operations wl = []"
  shows "list_all2 v3_carries ops (v3_operations wl')"
  using assms(1)
proof (rule mfold_rule [where I = "\<lambda>ys w. list_all2 v3_carries ys (v3_operations w)"])
  fix ys op u u'
  assume "list_all2 v3_carries ys (v3_operations u)" "v3_add_v2_op rule all u op = Inr u'"
  then show "list_all2 v3_carries (ys @ [op]) (v3_operations u')"
    using v3_add_v2_op_carries [of rule all u op u'] by (auto intro: list_all2_appendI)
qed (simp add: assms(2))

section \<open>An example\<close>

definition v3_example_op :: "string \<Rightarrow> string \<Rightarrow> string list \<Rightarrow> fields \<Rightarrow> v3_op_args" where
  "v3_example_op op_id call deps args = \<lparr>pa_op_id = JStr op_id, pa_family = ''posix'', pa_call = call,
     pa_stream = JStr ''s0'', pa_deps = map JStr deps, pa_release_ns = JNull, pa_declared_delay_ns = JNull,
     pa_expected = [], pa_attempt = JInt 1, pa_batch_id = JNull, pa_fields = args\<rparr>"

definition v3_example :: "json result" where
  "v3_example =
     rbind (new_workload (JStr ''generated'') (JStr ''declared'') (JStr ''absent'') ''none''
              (JObj [(''family'', JStr ''posix''), (''name'', JStr ''demo''), (''revision'', JStr ''1'')])
              (JStr ''complete'') [] [] ''zeros'') (\<lambda>wl.
     rbind (add_op wl (v3_example_op ''a'' ''open'' []
              [(''path'', JStr ''d/f''), (''flags'', JList [JStr ''rdwr'', JStr ''creat'']), (''handle'', JStr ''h'')])) (\<lambda>wl.
     rbind (add_op wl (v3_example_op ''b'' ''pwrite'' [''a'']
              [(''handle'', JStr ''h''), (''offset'', JInt 0), (''length'', JInt 4)])) (\<lambda>wl.
     add_op wl (v3_example_op ''c'' ''close'' [''b''] [(''handle'', JStr ''h'')]))))"

definition v3_example_workload :: json where
  "v3_example_workload = (case v3_example of Inr wl \<Rightarrow> wl | Inl _ \<Rightarrow> JNull)"

lemma v3_example_ok: "validate_workload v3_example_workload = Inr v3_example_workload"
  by code_simp

lemma v3_example_ops:
  "length (v3_operations v3_example_workload) = 3"
  "fld (v3_operations v3_example_workload ! Suc 0) ''family'' = JStr ''posix''"
  "fld (v3_operations v3_example_workload ! Suc 0) ''call'' = JStr ''pwrite''"
  "fld (fld (v3_operations v3_example_workload ! Suc 0) ''args'') ''handle'' = JStr ''h''"
  "fld (fld (v3_operations v3_example_workload ! 0) ''args'') ''path'' = JStr ''d/f''"
  "has_key (fld (v3_operations v3_example_workload ! 0) ''args'') ''path''"
  "''a'' \<in> set (v3_deps (v3_operations v3_example_workload ! Suc 0))"
  by code_simp+

section \<open>Properties\<close>

text \<open>
  C30. In a workload the validator accepts, operation identifiers are pairwise distinct and every
  dependency edge leads to an operation strictly before its own.
\<close>

theorem validate_workload_dependencies:
  assumes "validate_workload wl = Inr r"
  shows "r = wl \<and> distinct (map (\<lambda>op. fld op ''op_id'') (v3_operations wl)) \<and>
    (\<forall>i<length (v3_operations wl). \<forall>d\<in>set (v3_deps (v3_operations wl ! i)).
       \<exists>k<i. fld (v3_operations wl ! k) ''op_id'' = JStr d)"
proof -
  obtain timing where ok: "v3_ops_ok wl timing (v3_nodes wl) (v3_initial_handles wl) (v3_operations wl)"
    using validate_workload_ops_ok [OF assms] .
  moreover have "r = wl"
    using assms unfolding validate_workload_iff by blast
  ultimately show ?thesis
    using v3_ops_ok_distinct [OF ok] v3_ops_ok_deps [OF ok] by blast
qed

theorem validate_workload_dependencies_witness:
  "\<exists>k<Suc 0. fld (v3_operations v3_example_workload ! k) ''op_id'' = JStr ''a''"
proof -
  have "Suc 0 < length (v3_operations v3_example_workload)"
    by (simp add: v3_example_ops)
  then show ?thesis
    using validate_workload_dependencies [OF v3_example_ok] v3_example_ops(7) by blast
qed

text \<open>
  C31. In a workload the validator accepts, a POSIX call other than open that names a handle uses
  one that is open at that point of the array order: an earlier open created it, or the initial
  namespace holds it, and no operation in between closed it.
\<close>

theorem validate_workload_handles:
  assumes "validate_workload wl = Inr r" "i < length (v3_operations wl)"
    and "v3_posix_call call h (v3_operations wl ! i)" "call \<noteq> ''open''"
  shows "(\<exists>k<i. v3_posix_call ''open'' h (v3_operations wl ! k) \<and>
            (\<forall>m. k < m \<and> m < i \<longrightarrow> \<not> v3_posix_call ''close'' h (v3_operations wl ! m))) \<or>
         (JStr h \<in> set (v3_initial_handles wl) \<and>
            (\<forall>m<i. \<not> v3_posix_call ''close'' h (v3_operations wl ! m)))"
proof -
  define ops where "ops = v3_operations wl"
  obtain timing where ok: "v3_ops_ok wl timing (v3_nodes wl) (v3_initial_handles wl) ops"
    using validate_workload_ops_ok [OF assms(1)] unfolding ops_def .
  have call: "fld (ops ! i) ''family'' = JStr ''posix''" "fld (ops ! i) ''call'' = JStr call"
    "fld (fld (ops ! i) ''args'') ''handle'' = JStr h"
    using assms(3) by (simp_all add: v3_posix_call_def ops_def)
  have "v3_op_ok wl timing (v3_nodes wl) (v3_initial_handles wl) (take i ops) (ops ! i)"
    using ok assms(2) by (simp add: v3_ops_ok_def ops_def)
  then obtain hs' where
    "v3_check_posix call (fld (ops ! i) ''args'') (v3_handles (v3_initial_handles wl) (take i ops)) = Inr hs'"
    using call unfolding v3_op_ok_def by auto
  moreover have "has_key (fld (ops ! i) ''args'') ''handle''"
    using call by (simp add: fld_nonnull_has_key)
  ultimately have "JStr h \<in> set (v3_handles (v3_initial_handles wl) (take i ops))"
    using call assms(4) by (simp add: v3_check_posix_def Let_def rbind_Inr_iff require_Inr_iff)
  moreover have "v3_ops_ok wl timing (v3_nodes wl) (v3_initial_handles wl) (take i ops)"
    using ok by (simp add: v3_ops_ok_def)
  ultimately show ?thesis
    using assms(2) v3_handles_JStr unfolding ops_def by (simp add: min_def cong: conj_cong)
qed

theorem validate_workload_handles_witness:
  "(\<exists>k<Suc 0. v3_posix_call ''open'' ''h'' (v3_operations v3_example_workload ! k) \<and>
      (\<forall>m. k < m \<and> m < Suc 0 \<longrightarrow> \<not> v3_posix_call ''close'' ''h'' (v3_operations v3_example_workload ! m))) \<or>
   (JStr ''h'' \<in> set (v3_initial_handles v3_example_workload) \<and>
      (\<forall>m<Suc 0. \<not> v3_posix_call ''close'' ''h'' (v3_operations v3_example_workload ! m)))"
  by (rule validate_workload_handles [OF v3_example_ok, of "Suc 0" "''pwrite''"])
    (simp_all add: v3_example_ops v3_posix_call_def)

text \<open>
  C32. In a workload the validator accepts, every operation is a call of its family's table with
  all the fields that call requires, its size, offset, length and part fields are non-negative
  integers, and its paths are relative strings without a parent component.
\<close>

theorem validate_workload_typed_calls:
  assumes "validate_workload wl = Inr r" "op \<in> set (v3_operations wl)"
  shows "\<exists>fam call. fld op ''family'' = JStr fam \<and> fld op ''call'' = JStr call \<and>
     (call, call_fields fam call) \<in> set (calls_of fam) \<and>
     (\<forall>f\<in>set (call_fields fam call). has_key (fld op ''args'') f) \<and>
     (\<forall>f\<in>{''size'', ''offset'', ''length'', ''part''}. has_key (fld op ''args'') f \<longrightarrow>
        (\<exists>n\<ge>0. fld (fld op ''args'') f = JInt n)) \<and>
     (\<forall>f\<in>{''path'', ''new_path''}. has_key (fld op ''args'') f \<longrightarrow>
        (\<exists>p. fld (fld op ''args'') f = JStr p \<and> traversal_free p))"
proof -
  obtain timing where "v3_ops_ok wl timing (v3_nodes wl) (v3_initial_handles wl) (v3_operations wl)"
    using validate_workload_ops_ok [OF assms(1)] .
  then obtain pre where "v3_op_ok wl timing (v3_nodes wl) (v3_initial_handles wl) pre op"
    using assms(2) by (auto simp: v3_ops_ok_def in_set_conv_nth)
  then obtain fam call where call: "fld op ''family'' = JStr fam" "fld op ''call'' = JStr call"
    "call \<in> set (map fst (calls_of fam))"
    and args: "v3_check_args wl (v3_nodes wl) fam call (fld op ''args'') = Inr ()"
    unfolding v3_op_ok_def by blast
  have "(call, call_fields fam call) \<in> set (calls_of fam)"
    using call(3) by (auto simp: call_fields_def split: option.splits dest: map_of_SomeD
        simp: map_of_eq_None_iff image_iff)
  moreover have "\<forall>f\<in>set (call_fields fam call). has_key (fld op ''args'') f"
    "\<forall>f\<in>{''size'', ''offset'', ''length'', ''part''}. has_key (fld op ''args'') f \<longrightarrow>
        (\<exists>n\<ge>0. fld (fld op ''args'') f = JInt n)"
    using args by (auto simp: v3_check_args_def v3_checks rbind_Inr_iff require_Inr_iff mforall_Inr_iff
        check_int_Inr_iff)
  moreover have "v3_check_path (fld op ''args'') ''path'' = Inr ()" "v3_check_path (fld op ''args'') ''new_path'' = Inr ()"
    using args unfolding v3_check_args_def rbind_Inr_iff by auto
  then have "\<forall>f\<in>{''path'', ''new_path''}. has_key (fld op ''args'') f \<longrightarrow>
        (\<exists>p. fld (fld op ''args'') f = JStr p \<and> traversal_free p)"
    by (auto simp: v3_check_path_def rbind_Inr_iff require_Inr_iff is_str_iff)
  ultimately show ?thesis
    using call(1,2) by blast
qed

theorem validate_workload_typed_calls_witness:
  "\<exists>p. fld (fld (v3_operations v3_example_workload ! 0) ''args'') ''path'' = JStr p \<and> traversal_free p"
proof -
  have "v3_operations v3_example_workload ! 0 \<in> set (v3_operations v3_example_workload)"
    using v3_example_ops(1) by simp
  from validate_workload_typed_calls [OF v3_example_ok this] show ?thesis
    using v3_example_ops(6) by blast
qed

text \<open>
  C17. The adapter carries a v2 record into a workload the v3 validator accepts, operation by
  operation in order: each keeps its identifier, verb, stream, release time, declared delay and
  dependencies, and addresses the node named after its object and version.
\<close>

theorem from_intent2_carries:
  assumes "from_intent2 canon sha intent = Inr wl"
  shows "validate_workload wl = Inr wl \<and> list_all2 v3_carries (v2_operations intent) (v3_operations wl)"
proof -
  obtain rule w0 w1 w2 w3 where w: "v3_operations w0 = []"
    "mfold v3_add_versions w0 (the_obj (fld intent ''objects'')) = Inr w1"
    "mfold v3_add_live w1 (the_list (fld (fld intent ''initial_state'') ''live'')) = Inr w2"
    "mfold (v3_add_v2_op rule (v2_operations intent)) w2 (v2_operations intent) = Inr w3"
    "validate_workload (obj_set (obj_set w3 ''health'' (JObj (the_obj (fld intent ''health''))))
                ''timing'' (JObj (the_obj (fld intent ''timing'')))) = Inr wl"
    using assms unfolding from_intent2_def Let_def rbind_Inr_iff by (blast dest: new_workload_no_ops)
  then have "list_all2 v3_carries (v2_operations intent) (v3_operations w3)"
    using v3_setup_keeps_operations [of w0 _ w1] v3_setup_keeps_operations [of w1 _ w2] v3_add_v2_ops_carry
    by simp
  moreover have wl: "wl = obj_set (obj_set w3 ''health'' (JObj (the_obj (fld intent ''health''))))
                ''timing'' (JObj (the_obj (fld intent ''timing'')))"
    using w(5) unfolding validate_workload_iff by blast
  moreover have "v3_operations wl = v3_operations w3"
    by (simp add: wl fld_set)
  ultimately show ?thesis
    using w(5) by simp
qed

theorem from_intent2_carries_witness:
  "\<exists>wl. from_intent2 (\<lambda>_. ''text'') (\<lambda>_. ''digest'') v2_example_intent = Inr wl \<and>
     list_all2 v3_carries (v2_operations v2_example_intent) (v3_operations wl)"
proof -
  obtain wl where "from_intent2 (\<lambda>_. ''text'') (\<lambda>_. ''digest'') v2_example_intent = Inr wl"
  proof (cases "from_intent2 (\<lambda>_. ''text'') (\<lambda>_. ''digest'') v2_example_intent")
    case (Inl e)
    moreover have "\<not> isl (from_intent2 (\<lambda>_. ''text'') (\<lambda>_. ''digest'') v2_example_intent)"
      by code_simp
    ultimately show ?thesis by simp
  qed
  with from_intent2_carries [OF this] show ?thesis by blast
qed

end
