(* ===== verification/Content_Profile.thy ===== *)
theory Content_Profile
  imports Kvio_Json "HOL-Library.Word"
begin

text \<open>
  Replay payloads: the named content profiles of \<open>src/tools/kvio/content_profile.py\<close> and the
  keyed byte stream \<open>synthetic_bytes\<close> of \<open>src/tools/kvio/intent_exec.py\<close>.

  The BLAKE2b digest of the standard library is a parameter \<open>blake\<close> (text and digest size to
  bytes); what the sources rely on is \<open>digest_size blake\<close>, that a digest has the size asked for.
  The conversions \<open>float(...)\<close> and \<open>int(...)\<close> of a text are parameters as well. Fractions are
  rationals; the rounding of the quotient to a double is not modelled.
\<close>

type_synonym byte = "8 word"
type_synonym bytes = "byte list"
type_synonym digest = "string \<Rightarrow> nat \<Rightarrow> bytes"

definition digest_size :: "digest \<Rightarrow> bool" where
  "digest_size blake \<longleftrightarrow> (\<forall>s n. length (blake s n) = n)"

section \<open>Profiles\<close>

definition CONTROLS :: "string list" where "CONTROLS = [''zeros'', ''incompressible'']"
definition BLOCK :: int where "BLOCK = 4096"

record content_profile =
  cp_name :: string
  cp_zero :: rat
  cp_pattern :: rat
  cp_pattern_len :: int
  cp_dup_classes :: int
  cp_block :: int

text \<open>\<open>s.partition(sep)\<close>: the text before the separator and the text after it.\<close>

fun partition_at :: "char \<Rightarrow> string \<Rightarrow> string \<times> string" where
  "partition_at sep [] = ([], [])"
| "partition_at sep (c # s) =
     (if c = sep then ([], s) else (case partition_at sep s of (a, b) \<Rightarrow> (c # a, b)))"

text \<open>
  The dictionary a control profile gives has no \<open>block\<close>; \<open>content\<close> then takes the default.
\<close>

definition mixed_defaults :: content_profile where
  "mixed_defaults = \<lparr>cp_name = ''mixed'', cp_zero = 0, cp_pattern = 0, cp_pattern_len = 64,
     cp_dup_classes = 0, cp_block = BLOCK\<rparr>"

definition set_knob ::
  "(string \<Rightarrow> rat option) \<Rightarrow> (string \<Rightarrow> int option) \<Rightarrow> content_profile \<Rightarrow> string \<Rightarrow> content_profile result" where
  "set_knob float_of int_of p kv =
     (case partition_at (CHR ''='') kv of (k, v) \<Rightarrow>
      if k = ''zero'' then
        (case float_of v of None \<Rightarrow> Inl (ValueError ''could not convert string to float'')
                          | Some q \<Rightarrow> Inr (p\<lparr>cp_zero := q\<rparr>))
      else if k = ''pattern'' then
        (case float_of v of None \<Rightarrow> Inl (ValueError ''could not convert string to float'')
                          | Some q \<Rightarrow> Inr (p\<lparr>cp_pattern := q\<rparr>))
      else if k \<in> {''pattern_len'', ''dup_classes'', ''block''} then
        (case int_of v of None \<Rightarrow> Inl (ValueError ''invalid literal for int'')
         | Some i \<Rightarrow> Inr (if k = ''pattern_len'' then p\<lparr>cp_pattern_len := i\<rparr>
                         else if k = ''dup_classes'' then p\<lparr>cp_dup_classes := i\<rparr>
                         else p\<lparr>cp_block := i\<rparr>))
      else Inl (ValueError ''unknown knob''))"

definition parse_profile ::
  "(string \<Rightarrow> rat option) \<Rightarrow> (string \<Rightarrow> int option) \<Rightarrow> string \<Rightarrow> content_profile result" where
  "parse_profile float_of int_of spec =
     (case partition_at (CHR '':'') spec of (name, rest) \<Rightarrow>
      if name \<in> set CONTROLS then
        rbind (require (rest = []) (ValueError ''takes no knobs'')) (\<lambda>_.
        Inr (mixed_defaults\<lparr>cp_name := name, cp_zero := (if name = ''zeros'' then 1 else 0)\<rparr>))
      else
        rbind (require (name = ''mixed'') (ValueError ''unknown profile'')) (\<lambda>_.
        rbind (mfold (set_knob float_of int_of) mixed_defaults
                 (filter (\<lambda>kv. kv \<noteq> []) (split_on (CHR '','') rest))) (\<lambda>p.
        rbind (require (\<not> cp_zero p + cp_pattern p > 1)
          (ValueError ''zero + pattern fractions exceed 1'')) (\<lambda>_. Inr p))))"

section \<open>Blocks\<close>

definition block_seed :: "string \<Rightarrow> int \<Rightarrow> string \<Rightarrow> string" where
  "block_seed identity block_index tag = identity @ '':'' @ str_int block_index @ '':'' @ tag"

text \<open>
  The loop of \<open>_hash_stream\<close> appends 64 bytes until the length is reached: as many rounds as the
  length has bytes are enough.
\<close>

fun hash_loop :: "digest \<Rightarrow> string \<Rightarrow> int \<Rightarrow> nat \<Rightarrow> nat \<Rightarrow> nat \<Rightarrow> bytes \<Rightarrow> bytes" where
  "hash_loop blake identity block_index len 0 n out = out"
| "hash_loop blake identity block_index len (Suc fuel) n out =
     (if length out < len
      then hash_loop blake identity block_index len fuel (Suc n)
             (out @ blake (block_seed identity block_index (str_nat n)) 64)
      else out)"

definition hash_stream :: "digest \<Rightarrow> string \<Rightarrow> int \<Rightarrow> nat \<Rightarrow> bytes" where
  "hash_stream blake identity block_index len =
     take len (hash_loop blake identity block_index len len 0 [])"

text \<open>\<open>int.from_bytes(data, "big")\<close>\<close>

definition from_bytes_big :: "bytes \<Rightarrow> nat" where
  "from_bytes_big bs = foldl (\<lambda>n b. 256 * n + unat b) 0 bs"

definition block_bytes :: "digest \<Rightarrow> content_profile \<Rightarrow> string \<Rightarrow> int \<Rightarrow> int \<Rightarrow> bytes result" where
  "block_bytes blake p identity block_index len =
     (let zeros = (if len < 0 then Inl (ValueError ''negative count'') else Inr (replicate (nat len) 0)) in
      if cp_name p = ''zeros'' then zeros
      else if cp_name p = ''incompressible'' then Inr (hash_stream blake identity block_index (nat len))
      else
        let r = of_nat (from_bytes_big (blake (block_seed identity block_index ''class'') 8)) / 2 ^ 64 in
        if r < cp_zero p then zeros
        else if r < cp_zero p + cp_pattern p then
          (let pat = blake (block_seed identity block_index ''pat'') (nat (max 1 (min 64 (cp_pattern_len p)))) in
           Inr (take (nat len) (concat (replicate (nat (len div int (length pat) + 1)) pat))))
        else if cp_dup_classes p \<noteq> 0 then
          (let cls = int (from_bytes_big (blake (block_seed identity block_index ''dup'') 4)) mod cp_dup_classes p in
           Inr (hash_stream blake (''dup-class-'' @ str_int cls) 0 (nat len)))
        else Inr (hash_stream blake identity block_index (nat len)))"

section \<open>Content of a range\<close>

text \<open>
  The loop of \<open>content\<close> does not end for every profile (a negative \<open>block\<close> never advances it), so
  it is a partial function; \<open>None\<close> is the loop that does not return.
\<close>

partial_function (option) content_loop ::
  "digest \<Rightarrow> content_profile \<Rightarrow> string \<Rightarrow> int \<Rightarrow> int \<Rightarrow> bytes \<Rightarrow> bytes result option" where
  "content_loop blake p identity pos stop out =
     (if pos < stop then
        (if cp_block p = 0 then Some (Inl ZeroDivisionError) else
         let off = pos mod cp_block p; n = min (cp_block p - off) (stop - pos) in
         case block_bytes blake p identity (pos div cp_block p) (cp_block p) of
           Inl e \<Rightarrow> Some (Inl e)
         | Inr b \<Rightarrow> content_loop blake p identity (pos + n) stop (out @ pyslice b (nat off) (nat (off + n))))
      else Some (Inr out))"

declare content_loop.simps [code]

definition content :: "digest \<Rightarrow> content_profile \<Rightarrow> string \<Rightarrow> int \<Rightarrow> int \<Rightarrow> bytes result option" where
  "content blake p identity offset len = content_loop blake p identity offset (offset + len) []"

section \<open>Keyed synthetic bytes\<close>

text \<open>\<open>version\<close> is the text the f-string shows.\<close>

definition synthetic_bytes :: "digest \<Rightarrow> string \<Rightarrow> string \<Rightarrow> nat \<Rightarrow> nat \<Rightarrow> bytes" where
  "synthetic_bytes blake object_id version offset len =
     (let first = int offset div 64; last = (int offset + int len - 1) div 64;
          out = concat (map (\<lambda>b. blake (object_id @ '':'' @ version @ '':'' @ str_int b) 64) [first..last]);
          start = nat (int offset - first * 64)
      in pyslice out start (start + len))"

section \<open>Lengths\<close>

lemma hash_loop_length:
  assumes "digest_size blake" "len \<le> length out + 64 * fuel"
  shows "len \<le> length (hash_loop blake identity bi len fuel n out)"
  using assms(2)
proof (induction fuel arbitrary: n out)
  case (Suc fuel)
  then show ?case
    using assms(1) by (auto simp: digest_size_def)
qed simp

lemma length_hash_stream: "digest_size blake \<Longrightarrow> length (hash_stream blake identity bi len) = len"
  using hash_loop_length [of blake len "[]" len identity bi 0] by (simp add: hash_stream_def min_def)

lemma length_concat_replicate: "length (concat (replicate n xs)) = n * length xs"
  by (induction n) auto

lemma block_bytes_length:
  assumes "digest_size blake" "0 \<le> len"
  shows "\<exists>b. block_bytes blake p identity bi len = Inr b \<and> length b = nat len"
proof -
  define k where "k = nat (max 1 (min 64 (cp_pattern_len p)))"
  have "0 < k" by (simp add: k_def)
  have "nat len \<le> nat (len div int k + 1) * k"
  proof -
    have "len = len div int k * int k + len mod int k"
      by simp
    moreover have "len mod int k < int k"
      using \<open>0 < k\<close> by simp
    ultimately have "len \<le> (len div int k + 1) * int k"
      by (simp only: distrib_right)
    then have "nat len \<le> nat ((len div int k + 1) * int k)"
      by (rule nat_mono)
    moreover have "0 \<le> len div int k + 1"
      using assms(2) \<open>0 < k\<close> by (simp add: pos_imp_zdiv_nonneg_iff add_nonneg_nonneg)
    ultimately show ?thesis
      by (simp add: nat_mult_distrib)
  qed
  moreover have "length (blake s n) = n" for s n
    using assms(1) by (simp add: digest_size_def)
  ultimately show ?thesis
    using assms length_hash_stream [OF assms(1)]
    by (auto simp: block_bytes_def Let_def length_concat_replicate k_def min_def)
qed

section \<open>Content is a function of the position\<close>

text \<open>The byte at one position, from the block it lies in.\<close>

definition content_byte :: "digest \<Rightarrow> content_profile \<Rightarrow> string \<Rightarrow> int \<Rightarrow> byte" where
  "content_byte blake p identity pos =
     (case block_bytes blake p identity (pos div cp_block p) (cp_block p) of
        Inl _ \<Rightarrow> 0 | Inr b \<Rightarrow> b ! nat (pos mod cp_block p))"

lemma content_chunk:
  assumes "digest_size blake" "0 < cp_block p" "0 \<le> pos" "n \<le> cp_block p - pos mod cp_block p" "0 \<le> n"
    and "block_bytes blake p identity (pos div cp_block p) (cp_block p) = Inr b"
  shows "pyslice b (nat (pos mod cp_block p)) (nat (pos mod cp_block p + n)) =
         map (content_byte blake p identity) [pos..pos + n - 1]"
proof (rule nth_equalityI)
  define off where "off = pos mod cp_block p"
  have off: "0 \<le> off" "off < cp_block p"
    using assms(2) by (simp_all add: off_def)
  have len: "length b = nat (cp_block p)"
    using block_bytes_length [OF assms(1), of "cp_block p" p identity "pos div cp_block p"] assms(2,6) by simp
  then show "length (pyslice b (nat (pos mod cp_block p)) (nat (pos mod cp_block p + n))) =
      length (map (content_byte blake p identity) [pos..pos + n - 1])"
    using off assms(4,5) by (simp add: off_def [symmetric])
  fix i
  assume "i < length (pyslice b (nat (pos mod cp_block p)) (nat (pos mod cp_block p + n)))"
  then have i: "int i < n"
    using off assms(5) by (simp add: off_def [symmetric] min_def split: if_splits)
  have split: "pos + int i = cp_block p * (pos div cp_block p) + (off + int i)"
    by (simp add: off_def)
  have bounds: "0 \<le> off + int i" "off + int i < cp_block p"
    using i off assms(4) by (simp_all add: off_def)
  have "(pos + int i) div cp_block p = pos div cp_block p" "(pos + int i) mod cp_block p = off + int i"
    using int_div_pos_eq [OF split bounds] int_mod_pos_eq [OF split bounds] by simp_all
  then have "content_byte blake p identity (pos + int i) = b ! nat (off + int i)"
    using assms(6) by (simp add: content_byte_def)
  moreover have "nat (off + int i) = nat off + i"
    using off by simp
  ultimately show "pyslice b (nat (pos mod cp_block p)) (nat (pos mod cp_block p + n)) ! i =
      map (content_byte blake p identity) [pos..pos + n - 1] ! i"
    using i off len assms(4) by (simp add: pyslice_def off_def [symmetric])
qed

lemma content_loop_bytes:
  assumes "digest_size blake" "0 < cp_block p" "0 \<le> pos"
  shows "content_loop blake p identity pos stop out =
           Some (Inr (out @ map (content_byte blake p identity) [pos..stop - 1]))"
  using assms(3)
proof (induction "nat (stop - pos)" arbitrary: pos out rule: less_induct)
  case less
  show ?case
  proof (cases "pos < stop")
    case False
    then show ?thesis by (subst content_loop.simps) simp
  next
    case True
    define n where "n = min (cp_block p - pos mod cp_block p) (stop - pos)"
    obtain b where b: "block_bytes blake p identity (pos div cp_block p) (cp_block p) = Inr b"
      using block_bytes_length [OF assms(1)] assms(2) by (meson less_imp_le)
    have n: "1 \<le> n" "n \<le> cp_block p - pos mod cp_block p" "n \<le> stop - pos"
      using True assms(2) pos_mod_bound [of "cp_block p" pos] by (simp_all add: n_def del: pos_mod_bound)
    have "content_loop blake p identity pos stop out = content_loop blake p identity (pos + n) stop
        (out @ map (content_byte blake p identity) [pos..pos + n - 1])"
      using content_chunk [OF assms(1,2) less.prems n(2) _ b] n True assms(2) b
      by (subst content_loop.simps) (simp add: n_def [symmetric] Let_def)
    also have "\<dots> = Some (Inr ((out @ map (content_byte blake p identity) [pos..pos + n - 1]) @
        map (content_byte blake p identity) [pos + n..stop - 1]))"
      using less n True by simp
    finally show ?thesis
      using upto_split2 [of pos "pos + n - 1" "stop - 1"] n by simp
  qed
qed

lemma content_bytes:
  assumes "digest_size blake" "0 < cp_block p" "0 \<le> offset"
  shows "content blake p identity offset len =
           Some (Inr (map (content_byte blake p identity) [offset..offset + len - 1]))"
  using content_loop_bytes [OF assms] by (simp add: content_def)

lemma concat_blocks_nth:
  assumes "\<And>x. length (f x) = k" "i < k * length xs"
  shows "concat (map f xs) ! i = f (xs ! (i div k)) ! (i mod k)"
  using assms(2)
proof (induction xs arbitrary: i)
  case (Cons x xs)
  have "0 < k"
    using Cons.prems by (cases k) auto
  show ?case
  proof (cases "i < k")
    case True
    then show ?thesis by (simp add: nth_append assms(1))
  next
    case False
    then have "i div k = Suc ((i - k) div k)" "i mod k = (i - k) mod k"
      using \<open>0 < k\<close> by (simp_all add: le_div_geq le_mod_geq not_less)
    moreover have "i - k < k * length xs"
      using Cons.prems False by simp
    ultimately show ?thesis
      using False Cons.IH [of "i - k"] by (simp add: nth_append assms(1))
  qed
qed simp

lemma length_concat_blocks: "(\<And>x. length (f x) = k) \<Longrightarrow> length (concat (map f xs)) = k * length xs"
  by (induction xs) auto

definition synthetic_byte :: "digest \<Rightarrow> string \<Rightarrow> string \<Rightarrow> nat \<Rightarrow> byte" where
  "synthetic_byte blake object_id version pos =
     blake (object_id @ '':'' @ version @ '':'' @ str_nat (pos div 64)) 64 ! (pos mod 64)"

lemma synthetic_bytes_eq:
  assumes "digest_size blake"
  shows "synthetic_bytes blake object_id version offset len =
           map (synthetic_byte blake object_id version) [offset..<offset + len]"
proof (cases "len = 0")
  case True
  then show ?thesis by (simp add: synthetic_bytes_def Let_def pyslice_def)
next
  case False
  define first where "first = offset div 64"
  define last where "last = (offset + len - 1) div 64"
  define f where "f = (\<lambda>b. blake (object_id @ '':'' @ version @ '':'' @ str_int b) 64)"
  have f: "length (f b) = 64" for b
    using assms by (simp add: f_def digest_size_def)
  have le: "first \<le> last"
    using False by (simp add: first_def last_def div_le_mono)
  have last_int: "(int offset + int len - 1) div 64 = int last"
    using False by (simp add: last_def zdiv_int of_nat_diff)
  have first_int: "int offset div 64 = int first"
    by (simp add: first_def zdiv_int)
  have start: "nat (int offset - int first * 64) = offset mod 64"
  proof -
    have "int offset - int first * 64 = int (offset mod 64)"
      by (simp add: first_def zdiv_int zmod_int minus_div_mult_eq_mod)
    then show ?thesis by simp
  qed
  have eq: "synthetic_bytes blake object_id version offset len =
      pyslice (concat (map f [int first..int last])) (offset mod 64) (offset mod 64 + len)"
    unfolding synthetic_bytes_def Let_def f_def [symmetric] first_int last_int start ..
  have blocks: "length [int first..int last] = Suc (last - first)"
    using le by simp
  have fits: "offset mod 64 + len \<le> 64 * Suc (last - first)"
  proof -
    have "offset = 64 * first + offset mod 64" "offset + len - 1 = 64 * last + (offset + len - 1) mod 64"
      by (simp_all add: first_def last_def)
    moreover have "(offset + len - 1) mod 64 < 64"
      by simp
    ultimately show ?thesis
      using False le by simp
  qed
  show ?thesis
  proof (rule nth_equalityI)
    show "length (synthetic_bytes blake object_id version offset len) =
        length (map (synthetic_byte blake object_id version) [offset..<offset + len])"
      using fits blocks by (simp add: eq length_concat_blocks [OF f])
    fix i
    assume "i < length (synthetic_bytes blake object_id version offset len)"
    then have i: "i < len"
      by (simp add: eq)
    have j: "offset mod 64 + i < 64 * length [int first..int last]"
      using fits i blocks by simp
    have pos: "offset + i = 64 * first + (offset mod 64 + i)"
      by (simp add: first_def)
    have "(offset + i) div 64 = first + (offset mod 64 + i) div 64"
      unfolding pos by simp
    moreover have "(offset + i) mod 64 = (offset mod 64 + i) mod 64"
      by (simp add: mod_add_left_eq)
    moreover have "(offset mod 64 + i) div 64 \<le> last - first"
      using j blocks by (simp add: less_mult_imp_div_less less_Suc_eq_le [symmetric] mult.commute)
    moreover from this have "[int first..int last] ! ((offset mod 64 + i) div 64) =
        int (first + (offset mod 64 + i) div 64)"
      using le by (subst nth_upto) (linarith, simp)
    moreover have "concat (map f [int first..int last]) ! (offset mod 64 + i) =
        f ([int first..int last] ! ((offset mod 64 + i) div 64)) ! ((offset mod 64 + i) mod 64)"
      using concat_blocks_nth [of f, OF f j] .
    ultimately show "synthetic_bytes blake object_id version offset len ! i =
        map (synthetic_byte blake object_id version) [offset..<offset + len] ! i"
      using i j unfolding eq
      by (simp add: pyslice_def synthetic_byte_def length_concat_blocks [OF f] del: of_nat_add)
         (simp add: f_def del: of_nat_add)
  qed
qed

section \<open>Properties\<close>

definition example_digest :: digest where
  "example_digest s n = replicate n (of_nat (length s))"

lemma example_digest_size: "digest_size example_digest"
  by (simp add: digest_size_def example_digest_def)



text \<open>
  C27. The keyed synthetic stream of an object version has the requested length at every range,
  and a ranged read agrees with the full read.
\<close>

theorem synthetic_bytes_ranges_agree:
  assumes "digest_size blake" "a + n \<le> len"
  shows "length (synthetic_bytes blake oid ver offset len) = len \<and>
    synthetic_bytes blake oid ver (offset + a) n =
      pyslice (synthetic_bytes blake oid ver offset len) a (a + n)"
  using assms(2) unfolding synthetic_bytes_eq [OF assms(1)]
  by (auto simp: pyslice_def drop_map take_map intro!: nth_equalityI)

theorem synthetic_bytes_ranges_agree_witness:
  "synthetic_bytes example_digest ''obj'' ''1'' (10 + 60) 20 =
     pyslice (synthetic_bytes example_digest ''obj'' ''1'' 10 100) 60 (60 + 20)"
  by (rule conjunct2 [OF synthetic_bytes_ranges_agree [OF example_digest_size]]) simp

end
