(* ===== verification/Object_Backend.thy ===== *)
theory Object_Backend
  imports Workload_V3 Content_Profile
begin

text \<open>
  What the executor asks of a storage target (\<open>Backend\<close> in \<open>src/tools/kvio/intent_exec.py\<close>) as a
  record of functions over the target's state, and the in-memory \<open>FakeBackend\<close> of the contract
  tests as an instance of it.

  The locale \<open>verified_backend\<close> is the contract the executor's content guarantee rests on: an
  invariant that every call keeps, and a predicate every outcome satisfies.
\<close>

section \<open>Outcomes and the interface\<close>

record outcome =
  status :: string
  completed_bytes :: nat
  detail :: string

definition mk_outcome :: "string \<Rightarrow> nat \<Rightarrow> string \<Rightarrow> outcome" where
  "mk_outcome s n d = \<lparr>status = s, completed_bytes = n, detail = d\<rparr>"

text \<open>
  An object identity and version as the executor passes them (decoded values: the version of a
  v2 record is an integer or a digit string, a v3 operation passes 0).
\<close>

type_synonym okey = "json \<times> json"

record 'b backend =
  be_initialize :: "json \<Rightarrow> 'b \<Rightarrow> 'b result"
  be_payload :: "'b \<Rightarrow> okey \<Rightarrow> nat \<Rightarrow> nat \<Rightarrow> bytes result"
  be_store :: "okey \<Rightarrow> bytes \<Rightarrow> string \<Rightarrow> 'b \<Rightarrow> (outcome \<times> 'b) result"
  be_load :: "okey \<Rightarrow> nat \<Rightarrow> nat \<Rightarrow> string \<Rightarrow> 'b \<Rightarrow> (outcome \<times> 'b) result"
  be_release :: "okey \<Rightarrow> string \<Rightarrow> 'b \<Rightarrow> (outcome \<times> 'b) result"
  be_exists :: "(json \<Rightarrow> string \<Rightarrow> 'b \<Rightarrow> (outcome \<times> 'b) result) option"
  be_perform :: "json \<Rightarrow> 'b \<Rightarrow> (outcome \<times> 'b) result"
  be_service_ns :: "json \<Rightarrow> 'b \<Rightarrow> int"
  be_adopt_profile :: "content_profile \<Rightarrow> 'b \<Rightarrow> 'b"
  be_close :: "'b \<Rightarrow> 'b result"

text \<open>
  A decoded size used as a byte count: \<open>range\<close> and \<open>bytes\<close> refuse a float, and \<open>True\<close> counts as
  1. Sizes are never negative here (both validators check that).
\<close>

fun as_count :: "json \<Rightarrow> nat result" where
  "as_count (JInt i) = Inr (nat i)"
| "as_count (JBool b) = Inr (if b then 1 else 0)"
| "as_count _ = Inl TypeError"

section \<open>The initial live set\<close>

definition initial_objects_v3 :: "json \<Rightarrow> (okey \<times> json) list" where
  "initial_objects_v3 wl =
     (let ns = fld wl ''namespace''; nodes = fld ns ''nodes'' in
      concat (map (\<lambda>e.
        let node = fld nodes (the_str (fld e ''node'')) in
        if fld node ''kind'' = JStr ''object''
        then [((fld e ''node'', JInt 0), if has_key node ''size'' then fld node ''size'' else JInt 0)]
        else []) (the_list (fld ns ''entries''))))"

definition initial_objects_v2 :: "json \<Rightarrow> (okey \<times> json) list" where
  "initial_objects_v2 intent =
     map (\<lambda>i. ((fld i ''object_id'', fld i ''version''),
              fld (fld (fld (fld (fld intent ''objects'') (the_str (fld i ''object_id''))) ''versions'')
                (the (py_str (fld i ''version'')))) ''bytes''))
       (the_list (fld (fld intent ''initial_state'') ''live''))"

text \<open>\<open>initial_objects\<close> runs on validated records, where every name it follows exists.\<close>

definition initial_objects :: "json \<Rightarrow> (okey \<times> json) list" where
  "initial_objects intent =
     (if fld intent ''schema'' = JStr V3_SCHEMA then initial_objects_v3 intent
      else initial_objects_v2 intent)"

section \<open>The in-memory target\<close>

record fake =
  fk_latency_ns :: "json \<Rightarrow> int"
  fk_fail :: "string \<Rightarrow> string option"
  fk_verify :: bool
  fk_objects :: "okey \<Rightarrow> bytes option"
  fk_calls :: "(string \<times> okey \<times> string) list"
  fk_profile :: "content_profile option"

text \<open>\<open>Backend.payload\<close>: the content profile when one is set, the keyed stream otherwise.\<close>

definition payload :: "digest \<Rightarrow> content_profile option \<Rightarrow> okey \<Rightarrow> nat \<Rightarrow> nat \<Rightarrow> bytes result" where
  "payload blake profile key offset len =
     (case profile of
        Some p \<Rightarrow> (case content blake p (the (py_str (fst key))) (int offset) (int len) of
                     None \<Rightarrow> Inl Diverges | Some r \<Rightarrow> r)
      | None \<Rightarrow> Inr (synthetic_bytes blake (the (py_str (fst key))) (the (py_str (snd key))) offset len))"

definition fake_initialize :: "digest \<Rightarrow> json \<Rightarrow> fake \<Rightarrow> fake result" where
  "fake_initialize blake intent b =
     mfold (\<lambda>b (key, bytes).
       rbind (as_count bytes) (\<lambda>n.
       rbind (payload blake (fk_profile b) key 0 n) (\<lambda>data.
       Inr (b\<lparr>fk_objects := (fk_objects b)(key \<mapsto> data)\<rparr>)))) b (initial_objects intent)"

definition fake_log :: "string \<Rightarrow> okey \<Rightarrow> string \<Rightarrow> fake \<Rightarrow> fake" where
  "fake_log call key op_id b = b\<lparr>fk_calls := fk_calls b @ [(call, key, op_id)]\<rparr>"

text \<open>An entry of \<open>fail\<close> forces its status; an empty status is no entry (\<open>if forced\<close>).\<close>

definition fake_forced :: "fake \<Rightarrow> string \<Rightarrow> string option" where
  "fake_forced b op_id = (case fk_fail b op_id of Some s \<Rightarrow> if s = [] then None else Some s | None \<Rightarrow> None)"

definition fake_store :: "okey \<Rightarrow> bytes \<Rightarrow> string \<Rightarrow> fake \<Rightarrow> (outcome \<times> fake) result" where
  "fake_store key data op_id b0 =
     (let b = fake_log ''store'' key op_id b0 in
      case fake_forced b op_id of
        Some s \<Rightarrow> Inr (mk_outcome s 0 ''injected'', b)
      | None \<Rightarrow>
          if fk_objects b key \<noteq> None then Inr (mk_outcome ''already_present'' 0 [], b)
          else Inr (mk_outcome ''success'' (length data) [],
                    b\<lparr>fk_objects := (fk_objects b)(key \<mapsto> data)\<rparr>))"

definition fake_load :: "digest \<Rightarrow> okey \<Rightarrow> nat \<Rightarrow> nat \<Rightarrow> string \<Rightarrow> fake \<Rightarrow> (outcome \<times> fake) result" where
  "fake_load blake key offset len op_id b0 =
     (let b = fake_log ''load'' key op_id b0 in
      case fake_forced b op_id of
        Some s \<Rightarrow> Inr (mk_outcome s 0 ''injected'', b)
      | None \<Rightarrow>
          (case fk_objects b key of
             None \<Rightarrow> Inr (mk_outcome ''miss'' 0 [], b)
           | Some data \<Rightarrow>
               let chunk = pyslice data offset (offset + len) in
               rbind (if fk_verify b then payload blake (fk_profile b) key offset (length chunk)
                      else Inr chunk) (\<lambda>want.
               Inr (if chunk \<noteq> want then mk_outcome ''error'' (length chunk) ''content mismatch''
                    else if length chunk < len then mk_outcome ''short'' (length chunk) []
                    else mk_outcome ''success'' (length chunk) [], b))))"

definition fake_release :: "okey \<Rightarrow> string \<Rightarrow> fake \<Rightarrow> (outcome \<times> fake) result" where
  "fake_release key op_id b0 =
     (let b = fake_log ''release'' key op_id b0 in
      case fake_forced b op_id of
        Some s \<Rightarrow> Inr (mk_outcome s 0 ''injected'', b)
      | None \<Rightarrow>
          (case fk_objects b key of
             None \<Rightarrow> Inr (mk_outcome ''miss'' 0 [], b)
           | Some _ \<Rightarrow> Inr (mk_outcome ''success'' 0 [],
                           b\<lparr>fk_objects := (fk_objects b)(key := None)\<rparr>)))"

text \<open>The executor gives a target that has no content profile its own (\<open>Executor.__init__\<close>).\<close>

definition fake_adopt_profile :: "content_profile \<Rightarrow> fake \<Rightarrow> fake" where
  "fake_adopt_profile p b = (if fk_profile b = None then b\<lparr>fk_profile := Some p\<rparr> else b)"

definition fake_service_ns :: "json \<Rightarrow> fake \<Rightarrow> int" where
  "fake_service_ns op b = fk_latency_ns b op"

text \<open>\<open>FakeBackend\<close> has no \<open>exists\<close> and no \<open>perform\<close>.\<close>

definition fake_backend :: "digest \<Rightarrow> fake backend" where
  "fake_backend blake = \<lparr>be_initialize = fake_initialize blake,
     be_payload = (\<lambda>b. payload blake (fk_profile b)),
     be_store = fake_store, be_load = fake_load blake, be_release = fake_release,
     be_exists = None, be_perform = (\<lambda>_ _. Inl AttributeError), be_service_ns = fake_service_ns,
     be_adopt_profile = fake_adopt_profile, be_close = Inr\<rparr>"

section \<open>The contract of a verified target\<close>

text \<open>
  \<open>inv\<close> holds of the state before and after every call, and \<open>good\<close> of every outcome, provided the
  bytes stored under a key are what the target itself generates for it (which is what the
  executor stores).
\<close>

locale verified_backend =
  fixes B :: "'b backend" and inv :: "'b \<Rightarrow> bool" and good :: "outcome \<Rightarrow> bool"
  assumes store_inv: "inv b \<Longrightarrow> be_payload B b key 0 n = Inr data \<Longrightarrow>
      be_store B key data op_id b = Inr (oc, b') \<Longrightarrow> inv b' \<and> good oc"
    and load_inv: "inv b \<Longrightarrow> be_load B key offset len op_id b = Inr (oc, b') \<Longrightarrow> inv b' \<and> good oc"
    and release_inv: "inv b \<Longrightarrow> be_release B key op_id b = Inr (oc, b') \<Longrightarrow> inv b' \<and> good oc"
    and exists_inv: "inv b \<Longrightarrow> be_exists B = Some f \<Longrightarrow> f node op_id b = Inr (oc, b') \<Longrightarrow> inv b' \<and> good oc"
    and perform_inv: "inv b \<Longrightarrow> be_perform B op b = Inr (oc, b') \<Longrightarrow> inv b' \<and> good oc"
    and close_inv: "inv b \<Longrightarrow> be_close B b = Inr b' \<Longrightarrow> inv b'"
    and synthetic_good: "detail oc = ''source cancelled; not submitted'' \<Longrightarrow> good oc"
      "detail oc = ''backend has no exists'' \<Longrightarrow> good oc"

section \<open>The in-memory target meets the contract\<close>

definition profile_ok :: "content_profile option \<Rightarrow> bool" where
  "profile_ok profile \<longleftrightarrow> (case profile of None \<Rightarrow> True | Some p \<Rightarrow> 0 < cp_block p)"

lemma payload_range:
  assumes "digest_size blake" "profile_ok profile" "a + m \<le> n"
  shows "\<exists>data. payload blake profile key 0 n = Inr data \<and> length data = n \<and>
           payload blake profile key a m = Inr (pyslice data a (a + m))"
proof (cases profile)
  case None
  have bytes: "length (synthetic_bytes blake (the (py_str (fst key))) (the (py_str (snd key))) 0 n) = n"
    "synthetic_bytes blake (the (py_str (fst key))) (the (py_str (snd key))) a m =
       pyslice (synthetic_bytes blake (the (py_str (fst key))) (the (py_str (snd key))) 0 n) a (a + m)"
    using assms(3) unfolding synthetic_bytes_eq [OF assms(1)]
    by (auto simp: pyslice_def drop_map take_map intro!: nth_equalityI)
  then show ?thesis
    using None by (simp add: payload_def)
next
  case (Some p)
  then have "0 < cp_block p"
    using assms(2) by (simp add: profile_ok_def)
  note bytes = content_bytes [OF assms(1) this]
  have "pyslice [0..int n - 1] a (a + m) = [int a..int a + int m - 1]"
    using assms(3) by (intro nth_equalityI) (auto simp: pyslice_def nth_upto)
  then show ?thesis
    using Some assms(3) by (simp add: payload_def bytes pyslice_def drop_map take_map)
qed

lemma payload_empty: "digest_size blake \<Longrightarrow> profile_ok profile \<Longrightarrow> payload blake profile key a 0 = Inr []"
  using payload_range [of blake profile a 0 a key] by (auto simp: pyslice_def)

definition fake_inv :: "digest \<Rightarrow> fake \<Rightarrow> bool" where
  "fake_inv blake b \<longleftrightarrow> digest_size blake \<and> profile_ok (fk_profile b) \<and>
     (\<forall>key data. fk_objects b key = Some data \<longrightarrow>
        payload blake (fk_profile b) key 0 (length data) = Inr data)"

definition no_mismatch :: "outcome \<Rightarrow> bool" where
  "no_mismatch oc \<longleftrightarrow> detail oc \<noteq> ''content mismatch''"

lemma fake_log_simps [simp]:
  "fk_objects (fake_log c k i b) = fk_objects b" "fk_profile (fake_log c k i b) = fk_profile b"
  "fk_verify (fake_log c k i b) = fk_verify b" "fake_forced (fake_log c k i b) = fake_forced b"
  "fake_inv blake (fake_log c k i b) = fake_inv blake b"
  by (simp_all add: fake_log_def fake_forced_def fake_inv_def fun_eq_iff)

lemma mk_outcome_simps [simp]:
  "status (mk_outcome s n d) = s" "completed_bytes (mk_outcome s n d) = n" "detail (mk_outcome s n d) = d"
  by (simp_all add: mk_outcome_def)

lemma fake_load_chunk:
  assumes "fake_inv blake b" "fk_objects b key = Some data"
  shows "payload blake (fk_profile b) key offset (length (pyslice data offset (offset + len))) =
           Inr (pyslice data offset (offset + len))"
proof (cases "offset \<le> length data")
  case True
  define m where "m = length (pyslice data offset (offset + len))"
  have m: "m = min len (length data - offset)"
    by (simp add: m_def)
  have whole: "payload blake (fk_profile b) key 0 (length data) = Inr data"
    and ok: "digest_size blake" "profile_ok (fk_profile b)"
    using assms unfolding fake_inv_def by blast+
  have "offset + m \<le> length data"
    using True m by simp
  then have "payload blake (fk_profile b) key offset m = Inr (pyslice data offset (offset + m))"
    using payload_range [OF ok, of offset m "length data" key] whole by auto
  moreover have "pyslice data offset (offset + m) = pyslice data offset (offset + len)"
    by (cases "len \<le> length data - offset") (simp_all add: pyslice_def m)
  ultimately show ?thesis by (simp add: m_def)
next
  case False
  then show ?thesis
    using assms payload_empty by (simp add: fake_inv_def pyslice_def)
qed

lemma fake_store_inv:
  assumes "fake_inv blake b" "payload blake (fk_profile b) key 0 n = Inr data"
    "fake_store key data op_id b = Inr (oc, b')"
  shows "fake_inv blake b' \<and> no_mismatch oc"
proof -
  have "payload blake (fk_profile b) key 0 (length data) = Inr data"
    using payload_range [of blake "fk_profile b" 0 n n key] assms(1,2) by (auto simp: fake_inv_def)
  then show ?thesis
    using assms(1,3)
    by (auto simp: fake_store_def fake_inv_def fake_log_def no_mismatch_def Let_def
        split: option.splits if_splits)
qed

lemma fake_load_inv:
  assumes "fake_inv blake b" "fake_load blake key offset len op_id b = Inr (oc, b')"
  shows "fake_inv blake b' \<and> no_mismatch oc"
  using assms fake_load_chunk [OF assms(1)]
  by (auto simp: fake_load_def no_mismatch_def Let_def split: option.splits if_splits)

lemma fake_release_inv:
  assumes "fake_inv blake b" "fake_release key op_id b = Inr (oc, b')"
  shows "fake_inv blake b' \<and> no_mismatch oc"
  using assms
  by (auto simp: fake_release_def fake_inv_def fake_log_def no_mismatch_def Let_def
      split: option.splits if_splits)

interpretation fake: verified_backend "fake_backend blake" "fake_inv blake" no_mismatch
  for blake
proof
  show "fake_inv blake b \<Longrightarrow> be_payload (fake_backend blake) b key 0 n = Inr data \<Longrightarrow>
      be_store (fake_backend blake) key data op_id b = Inr (oc, b') \<Longrightarrow> fake_inv blake b' \<and> no_mismatch oc"
    for b key n data op_id oc b'
    using fake_store_inv by (simp add: fake_backend_def)
  show "fake_inv blake b \<Longrightarrow> be_load (fake_backend blake) key offset len op_id b = Inr (oc, b') \<Longrightarrow>
      fake_inv blake b' \<and> no_mismatch oc" for b key offset len op_id oc b'
    using fake_load_inv by (simp add: fake_backend_def)
  show "fake_inv blake b \<Longrightarrow> be_release (fake_backend blake) key op_id b = Inr (oc, b') \<Longrightarrow>
      fake_inv blake b' \<and> no_mismatch oc" for b key op_id oc b'
    using fake_release_inv by (simp add: fake_backend_def)
qed (simp_all add: fake_backend_def no_mismatch_def)

text \<open>The three calls of the in-memory target always return.\<close>

lemma fake_total:
  assumes "fake_inv blake b"
  shows "\<exists>r. fake_store key data op_id b = Inr r" "\<exists>r. fake_load blake key offset len op_id b = Inr r"
    "\<exists>r. fake_release key op_id b = Inr r"
  using fake_load_chunk [OF assms]
  by (auto simp: fake_store_def fake_load_def fake_release_def Let_def split: option.split)

end
