(* ===== verification/Executor.thy ===== *)
theory Executor
  imports Object_Backend
begin

text \<open>
  The workload executor of \<open>src/tools/kvio/intent_exec.py\<close>: construction, preparation of the
  ledger, dispatch of one operation to the backend, and the discrete-event loop of the simulated
  mode, followed by the ledger checks.

  \<open>heapq\<close> is the list of its entries in the order they would be popped: entries are tuples that
  start with a time and a sequence number, and sequence numbers are unique, so no comparison
  goes further. The loop that may not end is a partial function; that it returns is proved.
\<close>

section \<open>The ledger\<close>

record row =
  r_op_id :: string
  r_op :: string
  r_object_id :: json
  r_version :: json
  r_requested :: json
  r_release_ns :: int
  r_family :: string
  r_eligible_ns :: "int option"
  r_submit_ns :: "int option"
  r_complete_ns :: "int option"
  r_outcome :: "string option"
  r_completed :: nat
  r_detail :: string
  r_source_outcome :: json
  r_deps :: "string list"

section \<open>Construction\<close>

definition PROFILES :: "string list" where
  "PROFILES = [''offered'', ''dependency'', ''saturation'']"

record executor =
  ex_intent :: json
  ex_v3 :: bool
  ex_profile :: string
  ex_mode :: string
  ex_workers :: int
  ex_delay_ns :: int
  ex_cancelled_skip :: bool
  ex_content :: content_profile

text \<open>
  \<open>__init__\<close>: the record is validated, the content profile parsed (\<open>content_arg\<close> is what
  \<open>parse_profile\<close> returns for a string, or the profile the caller passed), a target without a
  profile adopts it when the record is v3, and the arguments are checked in turn.
\<close>

definition executor_init ::
  "'b backend \<Rightarrow> json \<Rightarrow> 'b \<Rightarrow> string \<Rightarrow> string \<Rightarrow> int \<Rightarrow> int \<Rightarrow> bool \<Rightarrow> content_profile result \<Rightarrow>
     (executor \<times> 'b) result" where
  "executor_init B intent b profile mode workers declared_delay_ns cancelled_skip content_arg =
     (let v3 = (is_obj intent \<and> fld intent ''schema'' = JStr V3_SCHEMA) in
      rbind (if v3 then validate_workload intent else validate_intent2 intent) (\<lambda>_.
      rbind content_arg (\<lambda>cp.
      let b' = (if v3 then be_adopt_profile B cp b else b) in
      rbind (require (profile \<in> set PROFILES) (ValueError ''profile must be one of PROFILES'')) (\<lambda>_.
      rbind (require (\<not> (profile = ''offered'' \<and>
                fld (fld intent ''provenance'') ''timing_model'' = JStr ''absent''))
        (ValueError ''offered-load replay needs recorded release times'')) (\<lambda>_.
      rbind (require (mode \<in> {''simulated'', ''real''}) (ValueError ''mode must be simulated or real'')) (\<lambda>_.
      Inr (\<lparr>ex_intent = intent, ex_v3 = v3, ex_profile = profile, ex_mode = mode,
            ex_workers = max 1 workers, ex_delay_ns = declared_delay_ns,
            ex_cancelled_skip = cancelled_skip, ex_content = cp\<rparr>, b')))))))"

section \<open>Preparation\<close>

text \<open>
  Preparation and execution run on a validated record: \<open>fld\<close>, \<open>the_str\<close> and \<open>the_int\<close> read the
  fields whose presence and type the validators have checked.
\<close>

definition first_truthy :: "json list \<Rightarrow> json \<Rightarrow> json" where
  "first_truthy vs d = (case find truthy vs of None \<Rightarrow> d | Some v \<Rightarrow> v)"

definition base_release :: "json list \<Rightarrow> int" where
  "base_release ops =
     (let ts = map (\<lambda>op. the_int (fld op ''release_ns'')) (filter (\<lambda>op. fld op ''release_ns'' \<noteq> JNull) ops)
      in if ts = [] then 0 else Min (set ts))"

definition release_of :: "executor \<Rightarrow> int \<Rightarrow> json \<Rightarrow> int" where
  "release_of ex base op =
     (if ex_profile ex = ''offered'' \<and> fld op ''release_ns'' \<noteq> JNull
      then the_int (fld op ''release_ns'') - base else 0)"

definition op_deps :: "executor \<Rightarrow> json \<Rightarrow> string list" where
  "op_deps ex op = (if ex_v3 ex then v3_deps op else v2_deps op)"

definition make_row :: "executor \<Rightarrow> int \<Rightarrow> json \<Rightarrow> row" where
  "make_row ex base op =
     (let a = fld op ''args'' in
      \<lparr>r_op_id = the_str (fld op ''op_id''),
       r_op = the_str (fld op (if ex_v3 ex then ''call'' else ''op'')),
       r_object_id = (if ex_v3 ex
          then first_truthy [fld a ''node'', fld a ''path'', fld a ''key'', fld a ''handle''] (JStr [])
          else fld op ''object_id''),
       r_version = (if ex_v3 ex then JInt 0 else fld op ''version''),
       r_requested = (if ex_v3 ex then first_truthy [fld a ''length'', fld a ''size''] (JInt 0)
                      else fld op ''requested_bytes''),
       r_release_ns = release_of ex base op,
       r_family = (if ex_v3 ex then the_str (fld op ''family'') else ''object''),
       r_eligible_ns = None, r_submit_ns = None, r_complete_ns = None, r_outcome = None,
       r_completed = 0, r_detail = [],
       r_source_outcome = (if ex_v3 ex then fld (fld op ''expected'') ''outcome''
                           else fld op ''source_outcome''),
       r_deps = op_deps ex op\<rparr>)"

text \<open>
  What \<open>_prepare\<close> leaves on the executor besides the rows: the array order, the operations by
  identifier and the dependents of each, in array order and with multiplicity.
\<close>

record plan =
  p_order :: "string list"
  p_by_id :: "string \<Rightarrow> json option"
  p_dependents :: "string \<Rightarrow> string list"

definition op_id_of :: "json \<Rightarrow> string" where
  "op_id_of op = the_str (fld op ''op_id'')"

definition make_plan :: "executor \<Rightarrow> json list \<Rightarrow> plan" where
  "make_plan ex ops =
     \<lparr>p_order = map op_id_of ops,
      p_by_id = map_of (map (\<lambda>op. (op_id_of op, op)) ops),
      p_dependents = (\<lambda>d. concat (map (\<lambda>op. map (\<lambda>_. op_id_of op) (filter (\<lambda>x. x = d) (op_deps ex op))) ops))\<rparr>"

definition make_rows :: "executor \<Rightarrow> json list \<Rightarrow> string \<Rightarrow> row option" where
  "make_rows ex ops = map_of (map (\<lambda>op. (op_id_of op, make_row ex (base_release ops) op)) ops)"

definition make_remaining :: "executor \<Rightarrow> json list \<Rightarrow> string \<Rightarrow> int" where
  "make_remaining ex ops = (\<lambda>x. case map_of (map (\<lambda>op. (op_id_of op, op)) ops) x of
      None \<Rightarrow> 0 | Some op \<Rightarrow> int (length (op_deps ex op)))"

section \<open>Eligible time\<close>

text \<open>
  The delay is the operation's own when it declares one. A v3 record may carry a value here that
  is no integer; adding it to a time raises.
\<close>

definition delay_or :: "int \<Rightarrow> json \<Rightarrow> int result" where
  "delay_or dflt op = (case fld op ''declared_delay_ns'' of
      JNull \<Rightarrow> Inr dflt | JInt i \<Rightarrow> Inr i | JBool b \<Rightarrow> Inr (if b then 1 else 0) | _ \<Rightarrow> Inl TypeError)"

definition op_delay :: "executor \<Rightarrow> json \<Rightarrow> int result" where
  "op_delay ex op = delay_or (ex_delay_ns ex) op"

definition eligible_time ::
  "executor \<Rightarrow> plan \<Rightarrow> (string \<Rightarrow> row option) \<Rightarrow> string \<Rightarrow> int result" where
  "eligible_time ex pl rows op_id =
     (case (p_by_id pl op_id, rows op_id) of
        (Some op, Some r) \<Rightarrow>
          mfold (\<lambda>t d. case rows d of
                   None \<Rightarrow> Inl KeyError
                 | Some p \<Rightarrow> (case r_complete_ns p of
                     None \<Rightarrow> Inl TypeError
                   | Some c \<Rightarrow> rbind (op_delay ex op) (\<lambda>delay. Inr (max t (c + delay)))))
            (if ex_profile ex = ''offered'' then r_release_ns r else 0) (r_deps r)
      | _ \<Rightarrow> Inl KeyError)"

section \<open>One operation on the target\<close>

definition cancelled_outcome :: outcome where
  "cancelled_outcome = mk_outcome ''cancelled'' 0 ''source cancelled; not submitted''"

definition perform_v3 :: "'b backend \<Rightarrow> executor \<Rightarrow> json \<Rightarrow> 'b \<Rightarrow> (outcome \<times> 'b) result" where
  "perform_v3 B ex op b =
     (if ex_cancelled_skip ex \<and> fld (fld op ''expected'') ''outcome'' = JStr ''cancelled''
      then Inr (cancelled_outcome, b)
      else if fld op ''family'' = JStr ''object'' then
        let a = fld op ''args''; node = fld a ''node''; op_id = op_id_of op;
            entry = fld (v3_nodes (ex_intent ex)) (the_str node);
            bytes = (if truthy (fld a ''size'') then fld a ''size''
                     else if has_key entry ''size'' then fld entry ''size'' else JInt 0)
        in if fld op ''call'' = JStr ''store'' then
             rbind (as_count bytes) (\<lambda>n.
             rbind (be_payload B b (node, JInt 0) 0 n) (\<lambda>data.
             be_store B (node, JInt 0) data op_id b))
           else if fld op ''call'' = JStr ''load'' then
             rbind (as_count (if has_key a ''offset'' then fld a ''offset'' else JInt 0)) (\<lambda>off.
             rbind (as_count (if has_key a ''length'' then fld a ''length'' else bytes)) (\<lambda>ln.
             be_load B (node, JInt 0) off ln op_id b))
           else if fld op ''call'' = JStr ''release'' then be_release B (node, JInt 0) op_id b
           else if fld op ''call'' = JStr ''exists'' then
             (case be_exists B of
                Some f \<Rightarrow> f node op_id b
              | None \<Rightarrow> Inr (mk_outcome ''error'' 0 ''backend has no exists'', b))
           else be_perform B op b
      else be_perform B op b)"

definition v2_object_bytes :: "json \<Rightarrow> json \<Rightarrow> json" where
  "v2_object_bytes intent op =
     fld (fld (fld (fld (fld intent ''objects'') (fst (v2_key op))) ''versions'') (snd (v2_key op))) ''bytes''"

definition perform_v2 :: "'b backend \<Rightarrow> executor \<Rightarrow> json \<Rightarrow> 'b \<Rightarrow> (outcome \<times> 'b) result" where
  "perform_v2 B ex op b =
     (if ex_cancelled_skip ex \<and> fld op ''source_outcome'' = JStr ''cancelled''
      then Inr (cancelled_outcome, b)
      else
        let key = (fld op ''object_id'', fld op ''version''); op_id = op_id_of op;
            bytes = v2_object_bytes (ex_intent ex) op
        in if fld op ''op'' = JStr ''store'' then
             rbind (as_count bytes) (\<lambda>n.
             rbind (be_payload B b key 0 n) (\<lambda>data.
             be_store B key data op_id b))
           else if fld op ''op'' = JStr ''load'' then
             rbind (as_count (if truthy (fld op ''range'') then fld (fld op ''range'') ''offset'' else JInt 0)) (\<lambda>off.
             rbind (as_count (if truthy (fld op ''range'') then fld (fld op ''range'') ''length'' else bytes)) (\<lambda>ln.
             be_load B key off ln op_id b))
           else be_release B key op_id b)"

definition perform :: "'b backend \<Rightarrow> executor \<Rightarrow> json \<Rightarrow> 'b \<Rightarrow> (outcome \<times> 'b) result" where
  "perform B ex op b = (if ex_v3 ex then perform_v3 B ex op b else perform_v2 B ex op b)"

section \<open>The simulated run\<close>

text \<open>The entries of a heap in the order they are popped; equal times by sequence number.\<close>

fun heap_push :: "int \<Rightarrow> nat \<Rightarrow> 'a \<Rightarrow> (int \<times> nat \<times> 'a) list \<Rightarrow> (int \<times> nat \<times> 'a) list" where
  "heap_push t n x [] = [(t, n, x)]"
| "heap_push t n x ((t', n', x') # h) =
     (if t < t' \<or> (t = t' \<and> n < n') then (t, n, x) # (t', n', x') # h
      else (t', n', x') # heap_push t n x h)"

text \<open>The executor's tables that change, and the local variables of \<open>_run_simulated\<close>.\<close>

record 'b sim =
  s_rows :: "string \<Rightarrow> row option"
  s_remaining :: "string \<Rightarrow> int"
  s_now :: int
  s_pending :: "(int \<times> nat \<times> string) list"
  s_completions :: "(int \<times> nat \<times> string \<times> outcome) list"
  s_running :: int
  s_seq :: nat
  s_backend :: 'b

definition push_pending :: "executor \<Rightarrow> plan \<Rightarrow> 'b sim \<Rightarrow> string \<Rightarrow> 'b sim result" where
  "push_pending ex pl s op_id =
     rbind (eligible_time ex pl (s_rows s) op_id) (\<lambda>t.
     Inr (s\<lparr>s_pending := heap_push t (s_seq s) op_id (s_pending s), s_seq := Suc (s_seq s)\<rparr>))"

definition is_cancelled :: "outcome \<Rightarrow> bool" where
  "is_cancelled oc \<longleftrightarrow> status oc = ''cancelled'' \<and> starts_with (detail oc) ''source''"

text \<open>One pass of the inner submission loop, for the entry \<open>(t, op_id)\<close> just popped.\<close>

definition submit_op ::
  "'b backend \<Rightarrow> executor \<Rightarrow> plan \<Rightarrow> 'b sim \<Rightarrow> int \<Rightarrow> string \<Rightarrow> 'b sim result" where
  "submit_op B ex pl s t op_id =
     (case (s_rows s op_id, p_by_id pl op_id) of
        (Some r, Some op) \<Rightarrow>
          rbind (perform B ex op (s_backend s)) (\<lambda>(oc, b).
          let service = (if is_cancelled oc then 0 else be_service_ns B op b) in
          Inr (s\<lparr>s_rows := (s_rows s)(op_id \<mapsto> r\<lparr>r_eligible_ns := Some t, r_submit_ns := Some (s_now s)\<rparr>),
                 s_completions := heap_push (s_now s + service) (s_seq s) (op_id, oc) (s_completions s),
                 s_seq := Suc (s_seq s), s_running := s_running s + 1, s_backend := b\<rparr>))
      | _ \<Rightarrow> Inl KeyError)"

fun submit_loop ::
  "'b backend \<Rightarrow> executor \<Rightarrow> plan \<Rightarrow> (int \<times> nat \<times> string) list \<Rightarrow> 'b sim \<Rightarrow> 'b sim result" where
  "submit_loop B ex pl [] s = Inr (s\<lparr>s_pending := []\<rparr>)"
| "submit_loop B ex pl ((t, n, op_id) # rest) s =
     (if s_running s < ex_workers ex \<and> t \<le> s_now s
      then rbind (submit_op B ex pl (s\<lparr>s_pending := rest\<rparr>) t op_id) (\<lambda>s'. submit_loop B ex pl rest s')
      else Inr (s\<lparr>s_pending := (t, n, op_id) # rest\<rparr>))"

definition next_event :: "executor \<Rightarrow> 'b sim \<Rightarrow> int option" where
  "next_event ex s =
     (let c = (case s_completions s of [] \<Rightarrow> None | e # _ \<Rightarrow> Some (fst e)) in
      case s_pending s of
        [] \<Rightarrow> c
      | p # _ \<Rightarrow> if s_running s < ex_workers ex
                 then Some (case c of None \<Rightarrow> fst p | Some t \<Rightarrow> min t (fst p)) else c)"

text \<open>The loop over the dependents of an operation that has completed.\<close>

definition wake_dependent :: "executor \<Rightarrow> plan \<Rightarrow> 'b sim \<Rightarrow> string \<Rightarrow> 'b sim result" where
  "wake_dependent ex pl s dep =
     (let left = s_remaining s dep - 1; s' = s\<lparr>s_remaining := (s_remaining s)(dep := left)\<rparr> in
      if left = 0 then push_pending ex pl s' dep else Inr s')"

definition complete_op ::
  "executor \<Rightarrow> plan \<Rightarrow> 'b sim \<Rightarrow> int \<Rightarrow> string \<Rightarrow> outcome \<Rightarrow> 'b sim result" where
  "complete_op ex pl s t op_id oc =
     (case s_rows s op_id of
        None \<Rightarrow> Inl KeyError
      | Some r \<Rightarrow>
          mfold (wake_dependent ex pl)
            (s\<lparr>s_running := s_running s - 1,
               s_rows := (s_rows s)(op_id \<mapsto> r\<lparr>r_complete_ns := Some t, r_outcome := Some (status oc),
                 r_completed := completed_bytes oc, r_detail := detail oc\<rparr>)\<rparr>)
            (p_dependents pl op_id))"

fun complete_loop ::
  "executor \<Rightarrow> plan \<Rightarrow> (int \<times> nat \<times> string \<times> outcome) list \<Rightarrow> 'b sim \<Rightarrow> 'b sim result" where
  "complete_loop ex pl [] s = Inr (s\<lparr>s_completions := []\<rparr>)"
| "complete_loop ex pl ((t, n, op_id, oc) # rest) s =
     (if t \<le> s_now s
      then rbind (complete_op ex pl (s\<lparr>s_completions := rest\<rparr>) t op_id oc) (\<lambda>s'. complete_loop ex pl rest s')
      else Inr (s\<lparr>s_completions := (t, n, op_id, oc) # rest\<rparr>))"

text \<open>One pass of the outer loop; the flag says whether it goes on (\<open>break\<close> otherwise).\<close>

definition sim_pass :: "'b backend \<Rightarrow> executor \<Rightarrow> plan \<Rightarrow> 'b sim \<Rightarrow> ('b sim \<times> bool) result" where
  "sim_pass B ex pl s =
     rbind (submit_loop B ex pl (s_pending s) s) (\<lambda>s1.
     case next_event ex s1 of
       None \<Rightarrow> Inr (s1, False)
     | Some t \<Rightarrow>
         rbind (complete_loop ex pl (s_completions s1) (s1\<lparr>s_now := max (s_now s1) t\<rparr>)) (\<lambda>s2.
         Inr (s2, True)))"

partial_function (option) sim_loop ::
  "'b backend \<Rightarrow> executor \<Rightarrow> plan \<Rightarrow> 'b sim \<Rightarrow> 'b sim result option" where
  "sim_loop B ex pl s =
     (if s_pending s = [] \<and> s_completions s = [] then Some (Inr s)
      else case sim_pass B ex pl s of
             Inl e \<Rightarrow> Some (Inl e)
           | Inr (s', go) \<Rightarrow> if go then sim_loop B ex pl s' else Some (Inr s'))"

declare sim_loop.simps [code]

definition sim_start :: "executor \<Rightarrow> plan \<Rightarrow> 'b sim \<Rightarrow> 'b sim result" where
  "sim_start ex pl s =
     mfold (\<lambda>s op_id. if s_remaining s op_id = 0 then push_pending ex pl s op_id else Inr s) s (p_order pl)"

definition run_simulated :: "'b backend \<Rightarrow> executor \<Rightarrow> plan \<Rightarrow> 'b sim \<Rightarrow> 'b sim result option" where
  "run_simulated B ex pl s =
     (case sim_start ex pl s of Inl e \<Rightarrow> Some (Inl e) | Inr s' \<Rightarrow> sim_loop B ex pl s')"

section \<open>The whole run and the ledger checks\<close>

definition prepare :: "'b backend \<Rightarrow> executor \<Rightarrow> 'b \<Rightarrow> 'b sim result" where
  "prepare B ex b =
     (let ops = the_list (fld (ex_intent ex) ''operations'') in
      rbind (be_initialize B (ex_intent ex) b) (\<lambda>b'.
      Inr \<lparr>s_rows = make_rows ex ops, s_remaining = make_remaining ex ops, s_now = 0, s_pending = [],
           s_completions = [], s_running = 0, s_seq = 0, s_backend = b'\<rparr>))"

definition ex_plan :: "executor \<Rightarrow> plan" where
  "ex_plan ex = make_plan ex (the_list (fld (ex_intent ex) ''operations''))"

text \<open>
  The rows of a simulated run in array order, its wall time and the target it leaves. \<open>None\<close> is a
  run that does not return.
\<close>

definition run_rows :: "'b backend \<Rightarrow> executor \<Rightarrow> 'b \<Rightarrow> (row list \<times> int \<times> 'b) result option" where
  "run_rows B ex b =
     (case prepare B ex b of
        Inl e \<Rightarrow> Some (Inl e)
      | Inr s \<Rightarrow>
          (case run_simulated B ex (ex_plan ex) s of
             None \<Rightarrow> None
           | Some (Inl e) \<Rightarrow> Some (Inl e)
           | Some (Inr s') \<Rightarrow>
               Some (rbind (be_close B (s_backend s')) (\<lambda>b'.
                 Inr (map (\<lambda>i. the (s_rows s' i)) (p_order (ex_plan ex)), s_now s', b')))))"

text \<open>
  \<open>_pct\<close> for the quotient \<open>num / den\<close>: the index is \<open>int(q * len(values))\<close>. For the two quantiles used
  (0.5 and 0.95) the double product and the exact quotient have the same integer part for every
  length below \<open>2 ^ 48\<close>.
\<close>

definition pct :: "int list \<Rightarrow> nat \<Rightarrow> nat \<Rightarrow> int option" where
  "pct values num den =
     (if values = [] then None
      else Some (sort values ! min (length values - 1) (num * length values div den)))"

text \<open>A dictionary of counters, in insertion order: \<open>d[k] = d.get(k, 0) + n\<close>.\<close>

fun bump :: "'k \<Rightarrow> nat \<Rightarrow> ('k \<times> nat) list \<Rightarrow> ('k \<times> nat) list" where
  "bump k n [] = [(k, n)]"
| "bump k n ((k', m) # rest) = (if k = k' then (k', m + n) # rest else (k', m) # bump k n rest)"

definition max_of :: "int list \<Rightarrow> int option" where
  "max_of xs = (if xs = [] then None else Some (Max (set xs)))"

record summary =
  su_profile :: string
  su_mode :: string
  su_content_model :: string
  su_operations :: nat
  su_completed :: nat
  su_outcomes :: "(string option \<times> nat) list"
  su_bytes_by_op :: "(string \<times> nat) list"
  su_lag :: "int option \<times> int option \<times> int option"
  su_release_to_complete :: "int option \<times> int option \<times> int option"
  su_submit_to_complete :: "int option \<times> int option"
  su_wall_ns :: int
  su_diverged :: "string list"
  su_unfinished :: "string list"

definition ns_diff :: "int option \<Rightarrow> int option \<Rightarrow> int result" where
  "ns_diff a b = (case (a, b) of (Some x, Some y) \<Rightarrow> Inr (x - y) | _ \<Rightarrow> Inl TypeError)"

text \<open>The target's outcome against the source's: \<open>None\<close> for a row that carries no source outcome.\<close>

definition outcome_json :: "row \<Rightarrow> json" where
  "outcome_json r = (case r_outcome r of None \<Rightarrow> JNull | Some oc \<Rightarrow> JStr oc)"

definition source_differs :: "row \<Rightarrow> bool" where
  "source_differs r \<longleftrightarrow> r_source_outcome r \<noteq> JNull \<and> \<not> py_eq (outcome_json r) (r_source_outcome r)"

definition summarize :: "row list \<Rightarrow> string \<Rightarrow> string \<Rightarrow> string \<Rightarrow> summary result" where
  "summarize rows profile mode content_model =
     (let by_outcome = foldl (\<lambda>d r. bump (r_outcome r) 1 d) [] rows;
          bytes_by = foldl (\<lambda>d r. bump (r_op r) (r_completed r) d) [] rows;
          finished = filter (\<lambda>r. r_complete_ns r \<noteq> None) rows in
      rbind (mmap (\<lambda>r. ns_diff (r_submit_ns r) (r_eligible_ns r)) finished) (\<lambda>lag.
      rbind (mmap (\<lambda>r. ns_diff (r_complete_ns r) (Some (r_release_ns r))) finished) (\<lambda>wait.
      rbind (mmap (\<lambda>r. ns_diff (r_complete_ns r) (r_submit_ns r)) finished) (\<lambda>svc.
      Inr \<lparr>su_profile = profile, su_mode = mode, su_content_model = content_model,
           su_operations = length rows, su_completed = length finished,
           su_outcomes = by_outcome, su_bytes_by_op = bytes_by,
           su_lag = (pct lag 1 2, pct lag 95 100, max_of lag),
           su_release_to_complete = (pct wait 1 2, pct wait 95 100, max_of wait),
           su_submit_to_complete = (pct svc 1 2, pct svc 95 100),
           su_wall_ns = (if finished = [] then 0
              else Max (set (map (\<lambda>r. the (r_complete_ns r)) finished)) - Min (set (map r_release_ns rows))),
           su_diverged = map r_op_id (filter source_differs rows),
           su_unfinished = []\<rparr>))))"

text \<open>
  \<open>compare_outcomes\<close>: a v3 operation may permit a set of outcomes; any other row is held against
  the outcome its source saw. An entry is the identifier, what the source has, what the target
  reported and its detail.
\<close>

definition permitted_outcomes :: "json \<Rightarrow> string \<Rightarrow> json list option" where
  "permitted_outcomes intent =
     (if fld intent ''schema'' = JStr V3_SCHEMA
      then map_of (rev (map (\<lambda>op. (op_id_of op, the_list (fld (fld op ''expected'') ''outcomes'')))
             (filter (\<lambda>op. truthy (fld (fld op ''expected'') ''outcomes''))
               (the_list (fld intent ''operations'')))))
      else Map.empty)"

definition compare_outcomes :: "row list \<Rightarrow> json \<Rightarrow> (string \<times> json list \<times> string option \<times> string) list" where
  "compare_outcomes rows intent =
     concat (map (\<lambda>r.
       case permitted_outcomes intent (r_op_id r) of
         Some permitted \<Rightarrow>
           if list_ex (py_eq (outcome_json r)) permitted then []
           else [(r_op_id r, permitted, r_outcome r, r_detail r)]
       | None \<Rightarrow>
           if source_differs r then [(r_op_id r, [r_source_outcome r], r_outcome r, r_detail r)] else [])
       rows)"

definition unfinished :: "row list \<Rightarrow> string list" where
  "unfinished rows = map r_op_id (filter (\<lambda>r. r_complete_ns r = None) rows)"

text \<open>\<open>by\<close> maps each identifier to the last row that carries it.\<close>

definition row_by_id :: "row list \<Rightarrow> string \<Rightarrow> row option" where
  "row_by_id rows = map_of (rev (map (\<lambda>r. (r_op_id r, r)) rows))"

definition dep_violated :: "(string \<Rightarrow> row option) \<Rightarrow> json \<Rightarrow> int \<Rightarrow> int \<Rightarrow> string \<Rightarrow> bool result" where
  "dep_violated by_id op dflt submit d =
     (case by_id d of
        None \<Rightarrow> Inl KeyError
      | Some p \<Rightarrow> (case r_complete_ns p of
          None \<Rightarrow> Inr True
        | Some c \<Rightarrow> rbind (delay_or dflt op) (\<lambda>delay. Inr (submit < c + delay))))"

definition check_dependencies :: "row list \<Rightarrow> json \<Rightarrow> int \<Rightarrow> (string \<times> string) list result" where
  "check_dependencies rows intent declared_delay_ns =
     (let by_id = row_by_id rows in
      mfold (\<lambda>violations op. case by_id (op_id_of op) of
          None \<Rightarrow> Inl KeyError
        | Some r \<Rightarrow> (case r_submit_ns r of
            None \<Rightarrow> Inr violations
          | Some submit \<Rightarrow>
              mfold (\<lambda>violations d. rbind (dep_violated by_id op declared_delay_ns submit d) (\<lambda>bad.
                       Inr (if bad then violations @ [(op_id_of op, d)] else violations)))
                violations (r_deps r)))
        [] (the_list (fld intent ''operations'')))"

text \<open>\<open>run\<close> in simulated mode: the rows and the result, with the entries \<open>run\<close> adds to it.\<close>

definition run :: "'b backend \<Rightarrow> executor \<Rightarrow> 'b \<Rightarrow> (row list \<times> summary \<times> 'b) result option" where
  "run B ex b =
     (case run_rows B ex b of
        None \<Rightarrow> None
      | Some r \<Rightarrow> Some (
          rbind r (\<lambda>(rows, wall, b').
          rbind (summarize rows (ex_profile ex) (ex_mode ex) (cp_name (ex_content ex))) (\<lambda>res.
          Inr (rows, res\<lparr>su_diverged := map fst (compare_outcomes rows (ex_intent ex)),
                         su_unfinished := unfinished rows, su_wall_ns := wall\<rparr>, b')))))"

end
