(* ===== verification/Executor_Run.thy ===== *)
theory Executor_Run
  imports Executor "HOL-Library.Multiset"
begin

text \<open>
  Correctness of the simulated run: the loop returns, every operation completes, no operation is
  submitted before its prerequisites have completed and its delay has passed, and the worker
  budget is kept.

  The proof carries one invariant through the submission loop, the completion loop and the loop
  over the dependents of a completed operation. It is parametrized by an invariant of the
  backend's state and a predicate of its outcomes (\<open>binv\<close> and \<open>good\<close>), so that the same induction
  also gives the content guarantee of a verified backend.
\<close>

section \<open>Static facts of a plan\<close>

definition deps_of :: "(string \<Rightarrow> row option) \<Rightarrow> string \<Rightarrow> string list" where
  "deps_of rows x = (case rows x of None \<Rightarrow> [] | Some r \<Rightarrow> r_deps r)"

definition start_of :: "executor \<Rightarrow> (string \<Rightarrow> row option) \<Rightarrow> string \<Rightarrow> int" where
  "start_of ex rows x =
     (case rows x of None \<Rightarrow> 0 | Some r \<Rightarrow> if ex_profile ex = ''offered'' then r_release_ns r else 0)"

definition delay_of :: "executor \<Rightarrow> plan \<Rightarrow> string \<Rightarrow> int" where
  "delay_of ex pl x = (case p_by_id pl x of None \<Rightarrow> 0 | Some op \<Rightarrow>
     (case op_delay ex op of Inl _ \<Rightarrow> 0 | Inr d \<Rightarrow> d))"

text \<open>The fields of a row that preparation fixes.\<close>

definition static_part :: "row \<Rightarrow> string \<times> string list \<times> int" where
  "static_part r = (r_op_id r, r_deps r, r_release_ns r)"

definition plan_ok :: "executor \<Rightarrow> plan \<Rightarrow> (string \<Rightarrow> row option) \<Rightarrow> bool" where
  "plan_ok ex pl rows0 \<longleftrightarrow>
     0 < ex_workers ex \<and> distinct (p_order pl) \<and>
     (\<forall>x\<in>set (p_order pl). (\<exists>op. p_by_id pl x = Some op \<and> (\<exists>d. op_delay ex op = Inr d)) \<and>
        (\<exists>r. rows0 x = Some r \<and> r_op_id r = x)) \<and>
     (\<forall>i<length (p_order pl). \<forall>d\<in>set (deps_of rows0 (p_order pl ! i)). \<exists>k<i. p_order pl ! k = d) \<and>
     (\<forall>d x. count_list (p_dependents pl d) x =
        (if x \<in> set (p_order pl) then count_list (deps_of rows0 x) d else 0))"

section \<open>The invariant\<close>

definition pend_ids :: "'b sim \<Rightarrow> string list" where
  "pend_ids s = map (\<lambda>(t, n, x). x) (s_pending s)"

definition comp_ids :: "'b sim \<Rightarrow> string list" where
  "comp_ids s = map (\<lambda>(t, n, x, oc). x) (s_completions s)"

definition done_at :: "(string \<Rightarrow> row option) \<Rightarrow> string \<Rightarrow> int option" where
  "done_at rows x = (case rows x of None \<Rightarrow> None | Some r \<Rightarrow> r_complete_ns r)"

definition open_deps :: "(string \<Rightarrow> row option) \<Rightarrow> (string \<Rightarrow> row option) \<Rightarrow> string \<Rightarrow> nat" where
  "open_deps rows0 rows x = length (filter (\<lambda>d. done_at rows d = None) (deps_of rows0 x))"

definition ready ::
  "executor \<Rightarrow> plan \<Rightarrow> (string \<Rightarrow> row option) \<Rightarrow> (string \<Rightarrow> row option) \<Rightarrow> string \<Rightarrow> int \<Rightarrow> bool" where
  "ready ex pl rows0 rows x t \<longleftrightarrow> start_of ex rows0 x \<le> t \<and>
     (\<forall>d\<in>set (deps_of rows0 x). \<exists>c. done_at rows d = Some c \<and> c + delay_of ex pl x \<le> t)"

definition submitted ::
  "executor \<Rightarrow> plan \<Rightarrow> (string \<Rightarrow> row option) \<Rightarrow> 'b sim \<Rightarrow> string \<Rightarrow> bool" where
  "submitted ex pl rows0 s x \<longleftrightarrow> (\<exists>r e u. s_rows s x = Some r \<and> r_eligible_ns r = Some e \<and>
     r_submit_ns r = Some u \<and> e \<le> u \<and> u \<le> s_now s \<and> ready ex pl rows0 (s_rows s) x e)"

definition finished :: "(outcome \<Rightarrow> bool) \<Rightarrow> 'b sim \<Rightarrow> string \<Rightarrow> bool" where
  "finished good s x \<longleftrightarrow> (\<exists>r c oc. s_rows s x = Some r \<and> r_complete_ns r = Some c \<and> c \<le> s_now s \<and>
     good oc \<and> r_outcome r = Some (status oc) \<and> r_completed r = completed_bytes oc \<and> r_detail r = detail oc)"

text \<open>
  \<open>L\<close> lists the dependents of a just completed operation that are still to be woken; it is empty
  outside that loop.
\<close>

definition sim_inv ::
  "executor \<Rightarrow> plan \<Rightarrow> (string \<Rightarrow> row option) \<Rightarrow> ('b \<Rightarrow> bool) \<Rightarrow> (outcome \<Rightarrow> bool) \<Rightarrow>
   string list \<Rightarrow> 'b sim \<Rightarrow> bool" where
  "sim_inv ex pl rows0 binv good L s \<longleftrightarrow>
     (\<forall>x. map_option static_part (s_rows s x) = map_option static_part (rows0 x)) \<and>
     distinct (pend_ids s @ comp_ids s) \<and> set (pend_ids s @ comp_ids s) \<subseteq> set (p_order pl) \<and>
     (\<forall>x\<in>set (pend_ids s @ comp_ids s). done_at (s_rows s) x = None) \<and>
     (\<forall>x. done_at (s_rows s) x \<noteq> None \<longrightarrow> x \<in> set (p_order pl)) \<and>
     (\<forall>x\<in>set (p_order pl). s_remaining s x = int (open_deps rows0 (s_rows s) x) + int (count_list L x) \<and>
        (s_remaining s x = 0 \<longleftrightarrow> x \<in> set (pend_ids s @ comp_ids s) \<or> done_at (s_rows s) x \<noteq> None)) \<and>
     s_running s = int (length (s_completions s)) \<and> s_running s \<le> ex_workers ex \<and>
     (\<forall>(t, n, x)\<in>set (s_pending s). ready ex pl rows0 (s_rows s) x t) \<and>
     (\<forall>x. x \<in> set (comp_ids s) \<or> done_at (s_rows s) x \<noteq> None \<longrightarrow> submitted ex pl rows0 s x) \<and>
     (\<forall>x. done_at (s_rows s) x \<noteq> None \<longrightarrow> finished good s x) \<and>
     (\<forall>(t, n, x, oc)\<in>set (s_completions s). good oc) \<and> binv (s_backend s)"

lemma set_heap_push [simp]: "set (heap_push t n x h) = insert (t, n, x) (set h)"
  by (induction t n x h rule: heap_push.induct) auto

lemma mset_heap_push: "mset (heap_push t n x h) = add_mset (t, n, x) (mset h)"
  by (induction t n x h rule: heap_push.induct) auto

lemma heap_push_ids:
  "distinct (map f (heap_push t n x h)) \<longleftrightarrow> f (t, n, x) \<notin> f ` set h \<and> distinct (map f h)"
  "length (heap_push t n x h) = Suc (length h)"
proof -
  have "mset (map f (heap_push t n x h)) = mset (map f ((t, n, x) # h))"
    by (simp add: mset_heap_push)
  then show "distinct (map f (heap_push t n x h)) \<longleftrightarrow> f (t, n, x) \<notin> f ` set h \<and> distinct (map f h)"
    using mset_eq_imp_distinct_iff by (metis distinct.simps(2) list.map(2) list.set_map)
  show "length (heap_push t n x h) = Suc (length h)"
    by (induction t n x h rule: heap_push.induct) auto
qed

lemma sim_invD:
  assumes "sim_inv ex pl rows0 binv good L s"
  shows sim_inv_static: "map_option static_part (s_rows s x) = map_option static_part (rows0 x)"
    and sim_inv_distinct: "distinct (pend_ids s @ comp_ids s)"
    and sim_inv_known: "set (pend_ids s @ comp_ids s) \<subseteq> set (p_order pl)"
    and sim_inv_not_done: "x \<in> set (pend_ids s @ comp_ids s) \<Longrightarrow> done_at (s_rows s) x = None"
    and sim_inv_done_known: "done_at (s_rows s) x \<noteq> None \<Longrightarrow> x \<in> set (p_order pl)"
    and sim_inv_remaining: "x \<in> set (p_order pl) \<Longrightarrow>
      s_remaining s x = int (open_deps rows0 (s_rows s) x) + int (count_list L x)"
    and sim_inv_zero: "x \<in> set (p_order pl) \<Longrightarrow>
      s_remaining s x = 0 \<longleftrightarrow> x \<in> set (pend_ids s @ comp_ids s) \<or> done_at (s_rows s) x \<noteq> None"
    and sim_inv_running: "s_running s = int (length (s_completions s))" "s_running s \<le> ex_workers ex"
    and sim_inv_ready: "(t, n, x) \<in> set (s_pending s) \<Longrightarrow> ready ex pl rows0 (s_rows s) x t"
    and sim_inv_submitted: "x \<in> set (comp_ids s) \<or> done_at (s_rows s) x \<noteq> None \<Longrightarrow> submitted ex pl rows0 s x"
    and sim_inv_finished: "done_at (s_rows s) x \<noteq> None \<Longrightarrow> finished good s x"
    and sim_inv_good: "(t, n, x, oc) \<in> set (s_completions s) \<Longrightarrow> good oc"
    and sim_inv_backend: "binv (s_backend s)"
  using assms unfolding sim_inv_def by blast+

lemma sim_invI:
  assumes "\<And>x. map_option static_part (s_rows s x) = map_option static_part (rows0 x)"
    and "distinct (pend_ids s @ comp_ids s)"
    and "set (pend_ids s @ comp_ids s) \<subseteq> set (p_order pl)"
    and "\<And>x. x \<in> set (pend_ids s @ comp_ids s) \<Longrightarrow> done_at (s_rows s) x = None"
    and "\<And>x. done_at (s_rows s) x \<noteq> None \<Longrightarrow> x \<in> set (p_order pl)"
    and "\<And>x. x \<in> set (p_order pl) \<Longrightarrow>
      s_remaining s x = int (open_deps rows0 (s_rows s) x) + int (count_list L x)"
    and "\<And>x. x \<in> set (p_order pl) \<Longrightarrow>
      s_remaining s x = 0 \<longleftrightarrow> x \<in> set (pend_ids s @ comp_ids s) \<or> done_at (s_rows s) x \<noteq> None"
    and "s_running s = int (length (s_completions s))" "s_running s \<le> ex_workers ex"
    and "\<And>t n x. (t, n, x) \<in> set (s_pending s) \<Longrightarrow> ready ex pl rows0 (s_rows s) x t"
    and "\<And>x. x \<in> set (comp_ids s) \<or> done_at (s_rows s) x \<noteq> None \<Longrightarrow> submitted ex pl rows0 s x"
    and "\<And>x. done_at (s_rows s) x \<noteq> None \<Longrightarrow> finished good s x"
    and "\<And>t n x oc. (t, n, x, oc) \<in> set (s_completions s) \<Longrightarrow> good oc"
    and "binv (s_backend s)"
  shows "sim_inv ex pl rows0 binv good L s"
  unfolding sim_inv_def by (intro conjI) (use assms in blast)+

lemma submitted_cong:
  "s_rows s' = s_rows s \<Longrightarrow> s_now s' = s_now s \<Longrightarrow> submitted ex pl rows0 s' = submitted ex pl rows0 s"
  "s_rows s' = s_rows s \<Longrightarrow> s_now s' = s_now s \<Longrightarrow> finished good s' = finished good s"
  by (rule ext, simp add: submitted_def finished_def)+

text \<open>A step that only touches the counters and the pending heap keeps the other conjuncts.\<close>

lemma sim_inv_pending:
  assumes inv: "sim_inv ex pl rows0 binv good L s"
    and frame: "s_rows s' = s_rows s" "s_now s' = s_now s" "s_completions s' = s_completions s"
      "s_running s' = s_running s" "s_backend s' = s_backend s"
    and ids: "distinct (pend_ids s' @ comp_ids s)" "set (pend_ids s') \<subseteq> set (p_order pl)"
      "\<And>x. x \<in> set (pend_ids s') \<Longrightarrow> done_at (s_rows s) x = None"
    and count: "\<And>x. x \<in> set (p_order pl) \<Longrightarrow>
        s_remaining s' x = int (open_deps rows0 (s_rows s) x) + int (count_list L' x)"
      "\<And>x. x \<in> set (p_order pl) \<Longrightarrow> s_remaining s' x = 0 \<longleftrightarrow>
        x \<in> set (pend_ids s') \<or> x \<in> set (comp_ids s) \<or> done_at (s_rows s) x \<noteq> None"
    and rdy: "\<And>t n x. (t, n, x) \<in> set (s_pending s') \<Longrightarrow> ready ex pl rows0 (s_rows s) x t"
  shows "sim_inv ex pl rows0 binv good L' s'"
proof -
  note D = sim_invD [OF inv]
  have comp: "comp_ids s' = comp_ids s"
    by (simp add: comp_ids_def frame)
  have known: "done_at (s_rows s) x = Some c \<Longrightarrow> x \<in> set (p_order pl)"
    "x \<in> set (comp_ids s) \<Longrightarrow> done_at (s_rows s) x = None" for x c
    using D(5) [of x] D(4) [of x] by simp_all
  show ?thesis
    by (rule sim_invI; (unfold frame comp submitted_cong [of s' s, OF frame(1,2)])?)
      (use ids count D(3) in \<open>auto intro: known D(1,8-) rdy\<close>)
qed

lemma plan_okD:
  assumes "plan_ok ex pl rows0"
  shows plan_workers: "0 < ex_workers ex" and plan_distinct: "distinct (p_order pl)"
    and plan_op: "x \<in> set (p_order pl) \<Longrightarrow> \<exists>op d. p_by_id pl x = Some op \<and> op_delay ex op = Inr d"
    and plan_row: "x \<in> set (p_order pl) \<Longrightarrow> \<exists>r. rows0 x = Some r \<and> r_op_id r = x"
    and plan_earlier: "i < length (p_order pl) \<Longrightarrow> d \<in> set (deps_of rows0 (p_order pl ! i)) \<Longrightarrow>
      \<exists>k<i. p_order pl ! k = d"
    and plan_dependents: "count_list (p_dependents pl d) x =
      (if x \<in> set (p_order pl) then count_list (deps_of rows0 x) d else 0)"
  using assms unfolding plan_ok_def by blast+

lemma static_part_deps:
  assumes "map_option static_part (rows x) = map_option static_part (rows0 x)"
  shows "deps_of rows x = deps_of rows0 x" "start_of ex rows x = start_of ex rows0 x"
  using assms by (auto simp: deps_of_def start_of_def static_part_def split: option.splits)

text \<open>When all prerequisites are done the eligible time is computed and is late enough.\<close>

lemma eligible_time_ready:
  assumes plan: "plan_ok ex pl rows0" and x: "x \<in> set (p_order pl)"
    and static: "map_option static_part (rows x) = map_option static_part (rows0 x)"
    and none_open: "open_deps rows0 rows x = 0"
  shows "\<exists>t. eligible_time ex pl rows x = Inr t \<and> ready ex pl rows0 rows x t"
proof -
  obtain op d where op: "p_by_id pl x = Some op" "op_delay ex op = Inr d"
    using plan_op [OF plan x] by blast
  obtain r0 where "rows0 x = Some r0"
    using plan_row [OF plan x] by blast
  then obtain r where r: "rows x = Some r" "r_deps r = r_deps r0"
    using static by (cases "rows x") (auto simp: static_part_def)
  have all_done: "\<exists>c. done_at rows e = Some c" if "e \<in> set (r_deps r)" for e
    using none_open that r \<open>rows0 x = Some r0\<close> by (auto simp: open_deps_def deps_of_def filter_empty_conv)
  define t0 where "t0 = (if ex_profile ex = ''offered'' then r_release_ns r else 0)"
  define f where "f = (\<lambda>t e. case rows e of None \<Rightarrow> Inl KeyError
      | Some p \<Rightarrow> (case r_complete_ns p of None \<Rightarrow> Inl TypeError
        | Some c \<Rightarrow> rbind (op_delay ex op) (\<lambda>delay. Inr (max t (c + delay)))))"
  have "\<exists>t. mfold f t0 (r_deps r) = Inr t \<and>
      (t0 \<le> t \<and> (\<forall>e\<in>set (r_deps r). \<exists>c. done_at rows e = Some c \<and> c + d \<le> t))"
  proof (rule mfold_total)
    fix ys e zs t
    assume "r_deps r = ys @ e # zs" and t: "t0 \<le> t \<and> (\<forall>e\<in>set ys. \<exists>c. done_at rows e = Some c \<and> c + d \<le> t)"
    then obtain c where c: "done_at rows e = Some c"
      using all_done by fastforce
    then have "f t e = Inr (max t (c + d))"
      by (auto simp: f_def done_at_def op split: option.splits)
    moreover have "\<forall>e\<in>set (ys @ [e]). \<exists>c'. done_at rows e = Some c' \<and> c' + d \<le> max t (c + d)"
      using t c by fastforce
    ultimately show "\<exists>u. f t e = Inr u \<and> (t0 \<le> u \<and> (\<forall>e\<in>set (ys @ [e]). \<exists>c. done_at rows e = Some c \<and> c + d \<le> u))"
      using t by auto
  qed simp
  moreover have "eligible_time ex pl rows x = mfold f t0 (r_deps r)"
    by (simp add: eligible_time_def op r t0_def f_def)
  moreover have "start_of ex rows0 x = t0" "deps_of rows0 x = r_deps r"
    using static_part_deps [of rows x rows0, OF static] r by (auto simp: start_of_def deps_of_def t0_def)
  moreover have "delay_of ex pl x = d"
    by (simp add: delay_of_def op)
  ultimately show ?thesis
    by (auto simp: ready_def)
qed

text \<open>Waking one dependent.\<close>

lemma wake_dependent_inv:
  assumes plan: "plan_ok ex pl rows0" and x: "x \<in> set (p_order pl)"
    and inv: "sim_inv ex pl rows0 binv good (x # L) s"
  shows "\<exists>s'. wake_dependent ex pl s x = Inr s' \<and> sim_inv ex pl rows0 binv good L s' \<and>
    s_completions s' = s_completions s \<and> s_rows s' = s_rows s \<and> s_now s' = s_now s"
proof -
  note D = sim_invD [OF inv]
  define k where "k = open_deps rows0 (s_rows s) x + count_list L x"
  have rem: "s_remaining s x = int k + 1"
    using D(6) [OF x] by (simp add: k_def)
  then have fresh: "x \<notin> set (pend_ids s @ comp_ids s)" "done_at (s_rows s) x = None"
    using D(7) [OF x] by auto
  define s1 where "s1 = s\<lparr>s_remaining := (s_remaining s)(x := int k)\<rparr>"
  have others: "s_remaining s1 y = int (open_deps rows0 (s_rows s) y) + int (count_list L y)"
    if "y \<in> set (p_order pl)" for y
    using D(6) [OF that] by (simp add: s1_def k_def)
  have s1: "pend_ids s1 = pend_ids s"
    by (simp add: s1_def pend_ids_def)
  show ?thesis
  proof (cases "k = 0")
    case False
    have "sim_inv ex pl rows0 binv good L s1"
    proof (rule sim_inv_pending [OF inv])
      show "s_remaining s1 y = 0 \<longleftrightarrow> y \<in> set (pend_ids s1) \<or> y \<in> set (comp_ids s) \<or> done_at (s_rows s) y \<noteq> None"
        if "y \<in> set (p_order pl)" for y
        unfolding s1 using D(7) [OF that] fresh False by (auto simp: s1_def)
      show "distinct (pend_ids s1 @ comp_ids s)" "set (pend_ids s1) \<subseteq> set (p_order pl)"
        unfolding s1 using D(2,3) by simp_all
      show "done_at (s_rows s) y = None" if "y \<in> set (pend_ids s1)" for y
        using that D(4) [of y] unfolding s1 by simp
      show "ready ex pl rows0 (s_rows s) y t" if "(t, n, y) \<in> set (s_pending s1)" for t n y
        using that D(10) by (simp add: s1_def)
    qed (use others in \<open>simp_all add: s1_def\<close>)
    then show ?thesis
      using False by (simp add: wake_dependent_def rem s1_def)
  next
    case True
    then have "open_deps rows0 (s_rows s) x = 0"
      by (simp add: k_def)
    then obtain t where t: "eligible_time ex pl (s_rows s) x = Inr t" "ready ex pl rows0 (s_rows s) x t"
      using eligible_time_ready [OF plan x, of "s_rows s"] D(1) by blast
    define s2 where "s2 = s1\<lparr>s_pending := heap_push t (s_seq s) x (s_pending s), s_seq := Suc (s_seq s)\<rparr>"
    have ids: "set (pend_ids s2) = insert x (set (pend_ids s))" "distinct (pend_ids s2 @ comp_ids s)"
      using D(2) fresh by (auto simp: s2_def pend_ids_def heap_push_ids)
    have "sim_inv ex pl rows0 binv good L s2"
    proof (rule sim_inv_pending [OF inv])
      show "s_remaining s2 y = 0 \<longleftrightarrow> y \<in> set (pend_ids s2) \<or> y \<in> set (comp_ids s) \<or> done_at (s_rows s) y \<noteq> None"
        if "y \<in> set (p_order pl)" for y
        unfolding ids using D(7) [OF that] fresh True by (auto simp: s2_def s1_def)
      show "s_remaining s2 y = int (open_deps rows0 (s_rows s) y) + int (count_list L y)"
        if "y \<in> set (p_order pl)" for y
        using others [OF that] by (simp add: s2_def)
      show "ready ex pl rows0 (s_rows s) y t'" if "(t', n, y) \<in> set (s_pending s2)" for t' n y
        using that t(2) D(10) by (auto simp: s2_def)
      show "done_at (s_rows s) y = None" if "y \<in> set (pend_ids s2)" for y
        using that fresh D(4) [of y] unfolding ids by auto
      show "distinct (pend_ids s2 @ comp_ids s)" "set (pend_ids s2) \<subseteq> set (p_order pl)"
        using ids D(3) x by auto
    qed (simp_all add: s2_def s1_def)
    then show ?thesis
      using True t(1) by (simp add: wake_dependent_def push_pending_def rem s1_def s2_def)
  qed
qed

lemma wake_dependents_inv:
  assumes plan: "plan_ok ex pl rows0" and "set L \<subseteq> set (p_order pl)"
    and "sim_inv ex pl rows0 binv good L s"
  shows "\<exists>s'. mfold (wake_dependent ex pl) s L = Inr s' \<and> sim_inv ex pl rows0 binv good [] s' \<and>
    s_completions s' = s_completions s \<and> s_rows s' = s_rows s \<and> s_now s' = s_now s"
  using assms(2,3)
proof (induction L arbitrary: s)
  case (Cons x L)
  then obtain s1 where s1: "wake_dependent ex pl s x = Inr s1" "sim_inv ex pl rows0 binv good L s1"
    "s_completions s1 = s_completions s" "s_rows s1 = s_rows s" "s_now s1 = s_now s"
    using wake_dependent_inv [OF plan] by (metis list.set_intros(1) subsetD)
  with Cons show ?case by fastforce
qed simp

section \<open>Completing an operation\<close>

lemma ready_mono:
  assumes "ready ex pl rows0 rows x t" "\<And>d c. done_at rows d = Some c \<Longrightarrow> done_at rows' d = Some c"
  shows "ready ex pl rows0 rows' x t"
  using assms unfolding ready_def by blast

lemma open_deps_complete:
  assumes "done_at rows x = None" "\<And>d. done_at rows' d = (if d = x then Some t else done_at rows d)"
  shows "open_deps rows0 rows y = open_deps rows0 rows' y + count_list (deps_of rows0 y) x"
proof -
  have "length (filter (\<lambda>d. done_at rows d = None) ds) =
      length (filter (\<lambda>d. done_at rows' d = None) ds) + count_list ds x" for ds
    using assms by (induction ds) auto
  then show ?thesis by (simp add: open_deps_def)
qed

definition mark_complete :: "'b sim \<Rightarrow> (int \<times> nat \<times> string \<times> outcome) list \<Rightarrow> row \<Rightarrow> int \<Rightarrow> string \<Rightarrow> outcome \<Rightarrow> 'b sim" where
  "mark_complete s rest r t x oc = s\<lparr>s_completions := rest, s_running := s_running s - 1,
     s_rows := (s_rows s)(x \<mapsto> r\<lparr>r_complete_ns := Some t, r_outcome := Some (status oc),
       r_completed := completed_bytes oc, r_detail := detail oc\<rparr>)\<rparr>"

lemma mark_complete_inv:
  assumes plan: "plan_ok ex pl rows0" and inv: "sim_inv ex pl rows0 binv good [] s"
    and head: "s_completions s = (t, n, x, oc) # rest" and due: "t \<le> s_now s"
    and r: "s_rows s x = Some r"
  shows "sim_inv ex pl rows0 binv good (p_dependents pl x) (mark_complete s rest r t x oc)"
    (is "sim_inv ex pl rows0 binv good ?L ?s")
proof -
  note D = sim_invD [OF inv]
  have comp: "comp_ids s = x # comp_ids ?s" and pend: "pend_ids ?s = pend_ids s"
    by (simp_all add: mark_complete_def comp_ids_def pend_ids_def head)
  have x: "x \<in> set (p_order pl)" "done_at (s_rows s) x = None"
    using D(3) D(4) [of x] by (simp_all add: comp)
  have rows: "s_rows ?s y = (if y = x then Some (r\<lparr>r_complete_ns := Some t, r_outcome := Some (status oc),
       r_completed := completed_bytes oc, r_detail := detail oc\<rparr>) else s_rows s y)" for y
    by (simp add: mark_complete_def)
  have after: "done_at (s_rows ?s) y = (if y = x then Some t else done_at (s_rows s) y)" for y
    by (simp add: done_at_def rows)
  have mono: "done_at (s_rows s) d = Some c \<Longrightarrow> done_at (s_rows ?s) d = Some c" for d c
    using x(2) by (auto simp: after)
  have sub: "submitted ex pl rows0 ?s y" if "submitted ex pl rows0 s y" for y
    using that ready_mono [OF _ mono] r unfolding submitted_def
    by (auto simp: rows mark_complete_def)
  have good: "good oc"
    using D(13) [of t n x oc] head by simp
  show ?thesis
  proof (rule sim_invI)
    show "map_option static_part (s_rows ?s y) = map_option static_part (rows0 y)" for y
      using D(1) [of y] r by (auto simp: rows static_part_def)
    show "distinct (pend_ids ?s @ comp_ids ?s)" "set (pend_ids ?s @ comp_ids ?s) \<subseteq> set (p_order pl)"
      using D(2,3) unfolding pend comp by auto
    show "done_at (s_rows ?s) y = None" if "y \<in> set (pend_ids ?s @ comp_ids ?s)" for y
      using that D(2) D(4) [of y] unfolding pend comp after by auto
    show "y \<in> set (p_order pl)" if "done_at (s_rows ?s) y \<noteq> None" for y
      using that D(5) [of y] x(1) unfolding after by (auto split: if_splits)
    show "s_remaining ?s y = int (open_deps rows0 (s_rows ?s) y) + int (count_list ?L y)"
      if "y \<in> set (p_order pl)" for y
      using D(6) [OF that] open_deps_complete [OF x(2) after, of rows0 y] plan_dependents [OF plan, of x y] that
      by (simp add: mark_complete_def)
    show "s_remaining ?s y = 0 \<longleftrightarrow> y \<in> set (pend_ids ?s @ comp_ids ?s) \<or> done_at (s_rows ?s) y \<noteq> None"
      if "y \<in> set (p_order pl)" for y
      using D(7) [OF that] unfolding pend comp after by (auto simp: mark_complete_def)
    show "s_running ?s = int (length (s_completions ?s))" "s_running ?s \<le> ex_workers ex"
      using D(8,9) head by (simp_all add: mark_complete_def)
    show "ready ex pl rows0 (s_rows ?s) y u" if "(u, m, y) \<in> set (s_pending ?s)" for u m y
      using that D(10) [of u m y] ready_mono [OF _ mono] by (simp add: mark_complete_def)
    show "submitted ex pl rows0 ?s y" if "y \<in> set (comp_ids ?s) \<or> done_at (s_rows ?s) y \<noteq> None" for y
      using that D(11) [of y] sub unfolding after comp by (auto split: if_splits)
    show "finished good ?s y" if "done_at (s_rows ?s) y \<noteq> None" for y
    proof (cases "y = x")
      case True
      then show ?thesis
        using due good by (auto simp: finished_def rows) (simp add: mark_complete_def)
    next
      case False
      then have "finished good s y"
        using D(12) that after by simp
      then show ?thesis
        using False by (simp add: finished_def rows) (simp add: mark_complete_def)
    qed
    show "good oc'" if "(u, m, y, oc') \<in> set (s_completions ?s)" for u m y oc'
      using that D(13) [of u m y oc'] head by (simp add: mark_complete_def)
    show "binv (s_backend ?s)"
      using D(14) by (simp add: mark_complete_def)
  qed
qed

text \<open>How many operations have not been submitted yet.\<close>

definition waiting :: "plan \<Rightarrow> 'b sim \<Rightarrow> nat" where
  "waiting pl s = card {y \<in> set (p_order pl). y \<notin> set (comp_ids s) \<and> done_at (s_rows s) y = None}"

lemma sim_inv_row:
  assumes "plan_ok ex pl rows0" "sim_inv ex pl rows0 binv good L s" "x \<in> set (p_order pl)"
  shows "\<exists>r. s_rows s x = Some r \<and> r_op_id r = x"
  using plan_row [OF assms(1,3)] sim_inv_static [OF assms(2), of x]
  by (auto simp: static_part_def)

lemma complete_op_inv:
  assumes plan: "plan_ok ex pl rows0" and inv: "sim_inv ex pl rows0 binv good [] s"
    and head: "s_completions s = (t, n, x, oc) # rest" and due: "t \<le> s_now s"
  shows "\<exists>s'. complete_op ex pl (s\<lparr>s_completions := rest\<rparr>) t x oc = Inr s' \<and>
    sim_inv ex pl rows0 binv good [] s' \<and> s_completions s' = rest \<and> s_now s' = s_now s \<and>
    waiting pl s' = waiting pl s"
proof -
  note D = sim_invD [OF inv]
  have x: "x \<in> set (p_order pl)" "x \<in> set (comp_ids s)"
    using D(3) by (simp_all add: comp_ids_def head)
  then obtain r where r: "s_rows s x = Some r"
    using sim_inv_row [OF plan inv] by blast
  define s1 where "s1 = mark_complete s rest r t x oc"
  have "set (p_dependents pl x) \<subseteq> set (p_order pl)"
    using plan_dependents [OF plan, of x] by (metis count_list_0_iff subsetI)
  then obtain s' where s': "mfold (wake_dependent ex pl) s1 (p_dependents pl x) = Inr s'"
    "sim_inv ex pl rows0 binv good [] s'" "s_completions s' = s_completions s1" "s_rows s' = s_rows s1"
    "s_now s' = s_now s1"
    using wake_dependents_inv [OF plan _ mark_complete_inv [OF plan inv head due r]] unfolding s1_def by blast
  have "{y \<in> set (p_order pl). y \<notin> set (comp_ids s') \<and> done_at (s_rows s') y = None} =
      {y \<in> set (p_order pl). y \<notin> set (comp_ids s) \<and> done_at (s_rows s) y = None}"
    using D(4) [of x] x by (auto simp: s'(3,4) s1_def mark_complete_def comp_ids_def head done_at_def)
  then have "waiting pl s' = waiting pl s"
    by (simp add: waiting_def)
  moreover have "complete_op ex pl (s\<lparr>s_completions := rest\<rparr>) t x oc = Inr s'"
    using s'(1) by (simp add: complete_op_def r s1_def mark_complete_def)
  ultimately show ?thesis
    using s' by (auto simp: s1_def mark_complete_def)
qed

lemma complete_loop_inv:
  assumes plan: "plan_ok ex pl rows0" and "sim_inv ex pl rows0 binv good [] s" "s_completions s = cs"
  shows "\<exists>s'. complete_loop ex pl cs s = Inr s' \<and> sim_inv ex pl rows0 binv good [] s' \<and>
    s_now s' = s_now s \<and> waiting pl s' = waiting pl s \<and> length (s_completions s') \<le> length cs \<and>
    (if cs \<noteq> [] \<and> fst (hd cs) \<le> s_now s then length (s_completions s') < length cs else s' = s)"
  using assms(2,3)
proof (induction cs arbitrary: s)
  case Nil
  then have "complete_loop ex pl [] s = Inr s" by (cases s) simp
  with Nil show ?case by (simp del: complete_loop.simps)
next
  case (Cons c rest)
  obtain t n x oc where c: "c = (t, n, x, oc)" by (cases c) auto
  show ?case
  proof (cases "t \<le> s_now s")
    case False
    then have "complete_loop ex pl (c # rest) s = Inr s" using Cons.prems(2) by (cases s) (simp add: c)
    with False Cons.prems show ?thesis by (simp add: c del: complete_loop.simps)
  next
    case True
    obtain s1 where s1: "complete_op ex pl (s\<lparr>s_completions := rest\<rparr>) t x oc = Inr s1"
      "sim_inv ex pl rows0 binv good [] s1" "s_completions s1 = rest" "s_now s1 = s_now s"
      "waiting pl s1 = waiting pl s"
      using complete_op_inv [OF plan Cons.prems(1) _ True] Cons.prems(2) c by blast
    with Cons.IH [OF s1(2,3)] True show ?thesis
      by (auto simp: c)
  qed
qed

section \<open>Submitting an operation\<close>

text \<open>
  What the backend is asked to keep: its invariant, and a predicate of every outcome.
\<close>

definition performs_well ::
  "'b backend \<Rightarrow> executor \<Rightarrow> plan \<Rightarrow> ('b \<Rightarrow> bool) \<Rightarrow> (outcome \<Rightarrow> bool) \<Rightarrow> bool" where
  "performs_well B ex pl binv good \<longleftrightarrow> (\<forall>x op b oc b'. p_by_id pl x = Some op \<longrightarrow> binv b \<longrightarrow>
     perform B ex op b = Inr (oc, b') \<longrightarrow> binv b' \<and> good oc)"

lemma submit_op_inv:
  assumes plan: "plan_ok ex pl rows0" and inv: "sim_inv ex pl rows0 binv good [] s"
    and well: "performs_well B ex pl binv good"
    and head: "s_pending s = (t, n, x) # rest" and free: "s_running s < ex_workers ex" "t \<le> s_now s"
    and op: "p_by_id pl x = Some op" and run: "perform B ex op (s_backend s) = Inr (oc, b)"
  shows "\<exists>s'. submit_op B ex pl (s\<lparr>s_pending := rest\<rparr>) t x = Inr s' \<and>
    sim_inv ex pl rows0 binv good [] s' \<and> s_pending s' = rest \<and> s_now s' = s_now s \<and>
    Suc (waiting pl s') = waiting pl s \<and> length (s_completions s') = Suc (length (s_completions s))"
proof -
  note D = sim_invD [OF inv]
  have x: "x \<in> set (p_order pl)" "x \<in> set (pend_ids s)" "x \<notin> set (comp_ids s)" "done_at (s_rows s) x = None"
    using D(2,3) D(4) [of x] by (auto simp: pend_ids_def head)
  obtain r where r: "s_rows s x = Some r"
    using sim_inv_row [OF plan inv x(1)] by blast
  define service where "service = (if is_cancelled oc then 0 else be_service_ns B op b)"
  define s1 where "s1 = s\<lparr>s_pending := rest,
      s_rows := (s_rows s)(x \<mapsto> r\<lparr>r_eligible_ns := Some t, r_submit_ns := Some (s_now s)\<rparr>),
      s_completions := heap_push (s_now s + service) (s_seq s) (x, oc) (s_completions s),
      s_seq := Suc (s_seq s), s_running := s_running s + 1, s_backend := b\<rparr>"
  have eq: "submit_op B ex pl (s\<lparr>s_pending := rest\<rparr>) t x = Inr s1"
    using r op run by (simp add: submit_op_def s1_def service_def Let_def)
  have b: "binv b" "good oc"
    using well op run D(14) unfolding performs_well_def by blast+
  have same: "done_at (s_rows s1) y = done_at (s_rows s) y" for y
    using r by (simp add: done_at_def s1_def)
  have pend: "pend_ids s = x # pend_ids s1"
    by (simp add: pend_ids_def head s1_def)
  have comp: "set (comp_ids s1) = insert x (set (comp_ids s))" "distinct (comp_ids s1)"
    using D(2) x(3) by (auto simp: comp_ids_def s1_def heap_push_ids image_iff)
  have rdy: "ready ex pl rows0 (s_rows s1) y u = ready ex pl rows0 (s_rows s) y u" for y u
    by (simp add: ready_def same)
  have "sim_inv ex pl rows0 binv good [] s1"
  proof (rule sim_invI)
    show "map_option static_part (s_rows s1 y) = map_option static_part (rows0 y)" for y
      using D(1) [of y] r by (auto simp: s1_def static_part_def)
    show "distinct (pend_ids s1 @ comp_ids s1)" "set (pend_ids s1 @ comp_ids s1) \<subseteq> set (p_order pl)"
      using D(2,3) comp unfolding pend by auto
    show "done_at (s_rows s1) y = None" if "y \<in> set (pend_ids s1 @ comp_ids s1)" for y
      using that D(4) [of y] x(4) unfolding same pend using comp by auto
    show "y \<in> set (p_order pl)" if "done_at (s_rows s1) y \<noteq> None" for y
      using that D(5) [of y] unfolding same by simp
    show "s_remaining s1 y = int (open_deps rows0 (s_rows s1) y) + int (count_list [] y)"
      if "y \<in> set (p_order pl)" for y
      using D(6) [OF that] by (simp add: open_deps_def same) (simp add: s1_def)
    show "s_remaining s1 y = 0 \<longleftrightarrow> y \<in> set (pend_ids s1 @ comp_ids s1) \<or> done_at (s_rows s1) y \<noteq> None"
      if "y \<in> set (p_order pl)" for y
      using D(7) [OF that] unfolding same pend using comp by (auto simp: s1_def)
    show "s_running s1 = int (length (s_completions s1))" "s_running s1 \<le> ex_workers ex"
      using D(8) free by (simp_all add: s1_def heap_push_ids)
    show "ready ex pl rows0 (s_rows s1) y u" if "(u, m, y) \<in> set (s_pending s1)" for u m y
      unfolding rdy using that D(10) [of u m y] by (simp add: s1_def head)
    show "submitted ex pl rows0 s1 y" if "y \<in> set (comp_ids s1) \<or> done_at (s_rows s1) y \<noteq> None" for y
    proof (cases "y = x")
      case True
      then show ?thesis
        using D(10) [of t n x] free r unfolding submitted_def rdy by (simp add: head) (simp add: s1_def)
    next
      case False
      then have "submitted ex pl rows0 s y"
        using that D(11) [of y] comp unfolding same by auto
      then show ?thesis
        using False unfolding submitted_def rdy by (simp add: s1_def)
    qed
    show "finished good s1 y" if "done_at (s_rows s1) y \<noteq> None" for y
      using that D(12) [of y] x(4) unfolding same finished_def by (cases "y = x") (auto simp: s1_def)
    show "good oc'" if "(u, m, y, oc') \<in> set (s_completions s1)" for u m y oc'
      using that D(13) [of u m y oc'] b by (auto simp: s1_def)
    show "binv (s_backend s1)"
      using b by (simp add: s1_def)
  qed
  moreover have "{y \<in> set (p_order pl). y \<notin> set (comp_ids s) \<and> done_at (s_rows s) y = None} =
      insert x {y \<in> set (p_order pl). y \<notin> set (comp_ids s1) \<and> done_at (s_rows s1) y = None}"
    using x comp unfolding same by auto
  then have "waiting pl s = Suc (waiting pl s1)"
    unfolding waiting_def using comp by simp
  ultimately show ?thesis
    using eq by (auto simp: s1_def heap_push_ids)
qed

section \<open>The loops\<close>

text \<open>The exceptions a run may end with are those of the backend.\<close>

definition raised :: "'b backend \<Rightarrow> executor \<Rightarrow> plan \<Rightarrow> ('b \<Rightarrow> bool) \<Rightarrow> exn \<Rightarrow> bool" where
  "raised B ex pl binv e \<longleftrightarrow> (\<exists>x op b. p_by_id pl x = Some op \<and> binv b \<and> perform B ex op b = Inl e)"

definition can_submit :: "executor \<Rightarrow> 'b sim \<Rightarrow> bool" where
  "can_submit ex s \<longleftrightarrow> s_pending s \<noteq> [] \<and> s_running s < ex_workers ex \<and> fst (hd (s_pending s)) \<le> s_now s"

definition work_left :: "plan \<Rightarrow> 'b sim \<Rightarrow> nat" where
  "work_left pl s = 2 * waiting pl s + length (s_completions s)"

lemma submit_loop_inv:
  assumes plan: "plan_ok ex pl rows0" and well: "performs_well B ex pl binv good"
    and "sim_inv ex pl rows0 binv good [] s" "s_pending s = ps"
  shows "(\<exists>e. submit_loop B ex pl ps s = Inl e \<and> raised B ex pl binv e) \<or>
    (\<exists>s'. submit_loop B ex pl ps s = Inr s' \<and> sim_inv ex pl rows0 binv good [] s' \<and>
      s_now s' = s_now s \<and> \<not> can_submit ex s' \<and>
      (if can_submit ex s then work_left pl s' < work_left pl s \<and> s_completions s' \<noteq> [] else s' = s))"
  using assms(3,4)
proof (induction ps arbitrary: s)
  case Nil
  then have "submit_loop B ex pl [] s = Inr s" by (cases s) simp
  with Nil show ?case by (simp add: can_submit_def del: submit_loop.simps)
next
  case (Cons p rest)
  obtain t n x where p: "p = (t, n, x)" by (cases p) auto
  show ?case
  proof (cases "can_submit ex s")
    case False
    then have "submit_loop B ex pl (p # rest) s = Inr s"
      using Cons.prems(2) by (cases s) (auto simp: p can_submit_def)
    with False Cons.prems show ?thesis by (simp del: submit_loop.simps)
  next
    case True
    then have free: "s_running s < ex_workers ex" "t \<le> s_now s"
      using Cons.prems(2) by (simp_all add: can_submit_def p)
    have head: "s_pending s = (t, n, x) # rest"
      using Cons.prems(2) p by simp
    have "x \<in> set (p_order pl)"
      using sim_inv_known [OF Cons.prems(1)] by (simp add: pend_ids_def head)
    then obtain op where op: "p_by_id pl x = Some op"
      using plan_op [OF plan] by blast
    obtain r where r: "s_rows s x = Some r"
      using sim_inv_row [OF plan Cons.prems(1) \<open>x \<in> set (p_order pl)\<close>] by blast
    show ?thesis
    proof (cases "perform B ex op (s_backend s)")
      case (Inl e)
      then have "submit_loop B ex pl (p # rest) s = Inl e"
        using free r op by (simp add: p submit_op_def)
      moreover have "raised B ex pl binv e"
        using Inl op sim_inv_backend [OF Cons.prems(1)] by (auto simp: raised_def)
      ultimately show ?thesis by (simp del: submit_loop.simps)
    next
      case (Inr res)
      obtain s1 where s1: "submit_op B ex pl (s\<lparr>s_pending := rest\<rparr>) t x = Inr s1"
        "sim_inv ex pl rows0 binv good [] s1" "s_pending s1 = rest" "s_now s1 = s_now s"
        "Suc (waiting pl s1) = waiting pl s" "length (s_completions s1) = Suc (length (s_completions s))"
        using submit_op_inv [OF plan Cons.prems(1) well head free op] Inr by (cases res) blast
      have step: "submit_loop B ex pl (p # rest) s = submit_loop B ex pl rest s1"
        using free s1(1) by (simp add: p)
      have less: "work_left pl s1 < work_left pl s" "s_completions s1 \<noteq> []"
        using s1(5,6) by (auto simp: work_left_def)
      show ?thesis
        using Cons.IH [OF s1(2,3)] less True s1(4) unfolding step
        by (cases "can_submit ex s1") (auto intro: less_trans)
    qed
  qed
qed

lemma sim_inv_now:
  assumes inv: "sim_inv ex pl rows0 binv good [] s" and "s_now s \<le> t"
  shows "sim_inv ex pl rows0 binv good [] (s\<lparr>s_now := t\<rparr>)"
proof -
  note D = sim_invD [OF inv]
  have ids: "pend_ids (s\<lparr>s_now := t\<rparr>) = pend_ids s" "comp_ids (s\<lparr>s_now := t\<rparr>) = comp_ids s"
    by (simp_all add: pend_ids_def comp_ids_def)
  have mono: "submitted ex pl rows0 s x \<Longrightarrow> submitted ex pl rows0 (s\<lparr>s_now := t\<rparr>) x"
    "finished good s x \<Longrightarrow> finished good (s\<lparr>s_now := t\<rparr>) x" for x
    using assms(2) unfolding submitted_def finished_def by fastforce+
  have "done_at (s_rows s) x \<noteq> None \<Longrightarrow> finished good (s\<lparr>s_now := t\<rparr>) x"
    "x \<in> set (comp_ids s) \<or> done_at (s_rows s) x \<noteq> None \<Longrightarrow> submitted ex pl rows0 (s\<lparr>s_now := t\<rparr>) x" for x
    using mono D(11,12) by blast+
  then show ?thesis
    using inv unfolding sim_inv_def ids by simp (metis of_nat_eq_0_iff)
qed

text \<open>One pass makes progress: it finishes or submits work, or moves the clock to a pending release.\<close>

definition progress :: "executor \<Rightarrow> plan \<Rightarrow> 'b sim \<Rightarrow> nat" where
  "progress ex pl s = 2 * work_left pl s + (if can_submit ex s then 0 else 1)"

lemma next_event_cases:
  assumes "s_running s = int (length (s_completions s))" "0 < ex_workers ex"
    and "s_pending s \<noteq> [] \<or> s_completions s \<noteq> []"
  shows "\<exists>t. next_event ex s = Some t \<and>
    (s_completions s \<noteq> [] \<and> fst (hd (s_completions s)) \<le> t \<or>
     s_pending s \<noteq> [] \<and> s_running s < ex_workers ex \<and> fst (hd (s_pending s)) \<le> t)"
  using assms by (cases "s_completions s"; cases "s_pending s") (auto simp: next_event_def Let_def min_def)

lemma sim_pass_inv:
  assumes plan: "plan_ok ex pl rows0" and well: "performs_well B ex pl binv good"
    and inv: "sim_inv ex pl rows0 binv good [] s" and some: "s_pending s \<noteq> [] \<or> s_completions s \<noteq> []"
  shows "(\<exists>e. sim_pass B ex pl s = Inl e \<and> raised B ex pl binv e) \<or>
    (\<exists>s'. sim_pass B ex pl s = Inr (s', True) \<and> sim_inv ex pl rows0 binv good [] s' \<and>
       progress ex pl s' < progress ex pl s)"
proof (rule disjE [OF submit_loop_inv [OF plan well inv refl]])
  assume "\<exists>e. submit_loop B ex pl (s_pending s) s = Inl e \<and> raised B ex pl binv e"
  then show ?thesis by (auto simp: sim_pass_def)
next
  assume "\<exists>s'. submit_loop B ex pl (s_pending s) s = Inr s' \<and> sim_inv ex pl rows0 binv good [] s' \<and>
      s_now s' = s_now s \<and> \<not> can_submit ex s' \<and>
      (if can_submit ex s then work_left pl s' < work_left pl s \<and> s_completions s' \<noteq> [] else s' = s)"
  then obtain s1 where s1: "submit_loop B ex pl (s_pending s) s = Inr s1"
    "sim_inv ex pl rows0 binv good [] s1" "\<not> can_submit ex s1"
    "if can_submit ex s then work_left pl s1 < work_left pl s \<and> s_completions s1 \<noteq> [] else s1 = s"
    by blast
  have "s_pending s1 \<noteq> [] \<or> s_completions s1 \<noteq> []"
    using s1(4) some by (auto split: if_splits)
  then obtain t where t: "next_event ex s1 = Some t"
    and due: "s_completions s1 \<noteq> [] \<and> fst (hd (s_completions s1)) \<le> t \<or>
      s_pending s1 \<noteq> [] \<and> s_running s1 < ex_workers ex \<and> fst (hd (s_pending s1)) \<le> t"
    using next_event_cases [OF sim_inv_running(1) [OF s1(2)] plan_workers [OF plan]] by blast
  define s2 where "s2 = s1\<lparr>s_now := max (s_now s1) t\<rparr>"
  have inv2: "sim_inv ex pl rows0 binv good [] s2"
    unfolding s2_def by (rule sim_inv_now [OF s1(2)]) simp
  have same: "s_completions s2 = s_completions s1" "waiting pl s2 = waiting pl s1"
    by (simp_all add: s2_def waiting_def comp_ids_def)
  obtain s3 where s3: "complete_loop ex pl (s_completions s1) s2 = Inr s3"
    "sim_inv ex pl rows0 binv good [] s3" "waiting pl s3 = waiting pl s2"
    "length (s_completions s3) \<le> length (s_completions s1)"
    "if s_completions s1 \<noteq> [] \<and> fst (hd (s_completions s1)) \<le> s_now s2
     then length (s_completions s3) < length (s_completions s1) else s3 = s2"
    using complete_loop_inv [OF plan inv2 same(1)] by blast
  have pass: "sim_pass B ex pl s = Inr (s3, True)"
    using s1(1) t s3(1) by (simp add: sim_pass_def s2_def)
  have le: "work_left pl s3 \<le> work_left pl s1" "work_left pl s1 \<le> work_left pl s"
    using s3(3,4) same s1(4) by (auto simp: work_left_def split: if_splits)
  have "progress ex pl s3 < progress ex pl s"
  proof (cases "can_submit ex s \<or> s_completions s1 \<noteq> [] \<and> fst (hd (s_completions s1)) \<le> s_now s2")
    case True
    then have "work_left pl s3 < work_left pl s"
      using le s1(4) s3(3,5) same by (auto simp: work_left_def split: if_splits)
    then show ?thesis by (simp add: progress_def)
  next
    case False
    then have "s1 = s" "s3 = s2"
      using s1(4) s3(5) by (auto split: if_splits)
    moreover have "t \<le> s_now s2"
      by (simp add: s2_def)
    then have "can_submit ex s2"
      using due False by (auto simp: can_submit_def s2_def)
    ultimately show ?thesis
      using False same by (simp add: progress_def work_left_def)
  qed
  with pass s3(2) show ?thesis by blast
qed

lemma sim_loop_inv:
  assumes plan: "plan_ok ex pl rows0" and well: "performs_well B ex pl binv good"
    and "sim_inv ex pl rows0 binv good [] s"
  shows "(\<exists>e. sim_loop B ex pl s = Some (Inl e) \<and> raised B ex pl binv e) \<or>
    (\<exists>s'. sim_loop B ex pl s = Some (Inr s') \<and> sim_inv ex pl rows0 binv good [] s' \<and>
       s_pending s' = [] \<and> s_completions s' = [])"
  using assms(3)
proof (induction "progress ex pl s" arbitrary: s rule: less_induct)
  case less
  show ?case
  proof (cases "s_pending s = [] \<and> s_completions s = []")
    case True
    then show ?thesis using less.prems by (subst (1 2) sim_loop.simps) simp
  next
    case False
    then consider e where "sim_pass B ex pl s = Inl e" "raised B ex pl binv e"
      | s' where "sim_pass B ex pl s = Inr (s', True)" "sim_inv ex pl rows0 binv good [] s'"
          "progress ex pl s' < progress ex pl s"
      using sim_pass_inv [OF plan well less.prems] by blast
    then show ?thesis
    proof cases
      case 1
      then show ?thesis using False by (subst (1 2) sim_loop.simps) auto
    next
      case 2
      have "sim_loop B ex pl s = sim_loop B ex pl s'"
        using 2(1) False by (subst sim_loop.simps) auto
      then show ?thesis using less.hyps [OF 2(3,2)] by simp
    qed
  qed
qed

text \<open>When nothing is pending and nothing runs, every operation is done.\<close>

lemma sim_inv_all_done:
  assumes plan: "plan_ok ex pl rows0" and inv: "sim_inv ex pl rows0 binv good [] s"
    and empty: "s_pending s = []" "s_completions s = []" and "i < length (p_order pl)"
  shows "done_at (s_rows s) (p_order pl ! i) \<noteq> None"
  using assms(5)
proof (induction i rule: less_induct)
  case (less i)
  define x where "x = p_order pl ! i"
  have x: "x \<in> set (p_order pl)"
    using less.prems by (simp add: x_def)
  have "\<forall>d\<in>set (deps_of rows0 x). done_at (s_rows s) d \<noteq> None"
    using plan_earlier [OF plan less.prems] less unfolding x_def by (metis dual_order.strict_trans)
  then have "open_deps rows0 (s_rows s) x = 0"
    by (auto simp: open_deps_def filter_empty_conv)
  then have "s_remaining s x = 0"
    using sim_inv_remaining [OF inv x] by simp
  then show ?case
    using sim_inv_zero [OF inv x] empty by (simp add: x_def pend_ids_def comp_ids_def)
qed

section \<open>The start of a run\<close>

definition fresh_sim :: "plan \<Rightarrow> (string \<Rightarrow> row option) \<Rightarrow> 'b sim \<Rightarrow> bool" where
  "fresh_sim pl rows0 s \<longleftrightarrow> s_rows s = rows0 \<and> s_pending s = [] \<and> s_completions s = [] \<and> s_running s = 0 \<and>
     (\<forall>x. done_at rows0 x = None) \<and>
     (\<forall>x\<in>set (p_order pl). s_remaining s x = int (length (deps_of rows0 x)))"

lemma sim_start_inv:
  assumes plan: "plan_ok ex pl rows0" and fresh: "fresh_sim pl rows0 s" and "binv (s_backend s)"
  shows "\<exists>s'. sim_start ex pl s = Inr s' \<and> sim_inv ex pl rows0 binv good [] s'"
proof -
  define I where "I = (\<lambda>ys u. s_rows u = rows0 \<and> s_remaining u = s_remaining s \<and> s_now u = s_now s \<and>
      s_completions u = [] \<and> s_running u = 0 \<and> s_backend u = s_backend s \<and> distinct (pend_ids u) \<and>
      set (pend_ids u) = {x \<in> set ys. s_remaining s x = 0} \<and>
      (\<forall>(t, n, x)\<in>set (s_pending u). ready ex pl rows0 rows0 x t))"
  have "\<exists>t. sim_start ex pl s = Inr t \<and> I (p_order pl) t"
    unfolding sim_start_def
  proof (rule mfold_total)
    show "I [] s"
      using fresh by (simp add: I_def fresh_sim_def pend_ids_def)
    fix ys x zs u
    assume order: "p_order pl = ys @ x # zs" and u: "I ys u"
    have x: "x \<in> set (p_order pl)" "x \<notin> set ys"
      using order plan_distinct [OF plan] by auto
    show "\<exists>u'. (if s_remaining u x = 0 then push_pending ex pl u x else Inr u) = Inr u' \<and> I (ys @ [x]) u'"
    proof (cases "s_remaining s x = 0")
      case False
      then show ?thesis
        using u by (auto simp: I_def)
    next
      case True
      then have "open_deps rows0 rows0 x = 0"
        using fresh x(1) by (simp add: fresh_sim_def open_deps_def)
      then obtain t where t: "eligible_time ex pl rows0 x = Inr t" "ready ex pl rows0 rows0 x t"
        using eligible_time_ready [OF plan x(1), of rows0] by blast
      have "x \<notin> set (pend_ids u)"
        using u x(2) by (simp add: I_def)
      then show ?thesis
        using True u t x(2)
        by (auto simp: I_def push_pending_def pend_ids_def heap_push_ids)
    qed
  qed
  then obtain t where t: "sim_start ex pl s = Inr t" "I (p_order pl) t"
    by blast
  have none: "done_at rows0 x = None" for x
    using fresh by (simp add: fresh_sim_def)
  have comp: "comp_ids t = []"
    using t(2) by (simp add: I_def comp_ids_def)
  have "open_deps rows0 rows0 x = length (deps_of rows0 x)" for x
    by (simp add: open_deps_def none)
  then have "sim_inv ex pl rows0 binv good [] t"
    using t(2) fresh assms(3) plan_workers [OF plan]
    unfolding sim_inv_def comp by (auto simp: I_def fresh_sim_def none)
  with t(1) show ?thesis by blast
qed

lemma run_simulated_inv:
  assumes plan: "plan_ok ex pl rows0" and well: "performs_well B ex pl binv good"
    and fresh: "fresh_sim pl rows0 s" and "binv (s_backend s)"
  shows "(\<exists>e. run_simulated B ex pl s = Some (Inl e) \<and> raised B ex pl binv e) \<or>
    (\<exists>s'. run_simulated B ex pl s = Some (Inr s') \<and> sim_inv ex pl rows0 binv good [] s' \<and>
       (\<forall>x\<in>set (p_order pl). done_at (s_rows s') x \<noteq> None))"
proof -
  obtain s1 where s1: "sim_start ex pl s = Inr s1" "sim_inv ex pl rows0 binv good [] s1"
    using sim_start_inv [of ex pl rows0 s binv, OF plan fresh assms(4)] by blast
  have run: "run_simulated B ex pl s = sim_loop B ex pl s1"
    by (simp add: run_simulated_def s1(1))
  have "\<forall>x\<in>set (p_order pl). done_at (s_rows s') x \<noteq> None"
    if "sim_inv ex pl rows0 binv good [] s'" "s_pending s' = []" "s_completions s' = []" for s'
    using sim_inv_all_done [OF plan that] by (metis in_set_conv_nth)
  then show ?thesis
    using sim_loop_inv [OF plan well s1(2)] unfolding run by blast
qed

section \<open>The plan of a validated record\<close>

definition ops_wf :: "executor \<Rightarrow> json list \<Rightarrow> bool" where
  "ops_wf ex ops \<longleftrightarrow> 0 < ex_workers ex \<and> distinct (map op_id_of ops) \<and>
     (\<forall>i<length ops. \<forall>d\<in>set (op_deps ex (ops ! i)). \<exists>k<i. op_id_of (ops ! k) = d) \<and>
     (\<forall>op\<in>set ops. \<exists>d. op_delay ex op = Inr d)"

lemma map_of_ops:
  assumes "distinct (map op_id_of ops)" "op \<in> set ops"
  shows "map_of (map (\<lambda>op. (op_id_of op, f op)) ops) (op_id_of op) = Some (f op)"
  using assms by (intro map_of_is_SomeI) (auto simp: comp_def)

lemma sum_list_unique:
  assumes "distinct (map g xs)" "x \<in> set xs"
  shows "(\<Sum>y\<leftarrow>xs. if g y = g x then f y else 0) = (f x :: nat)"
  using assms
proof (induction xs)
  case (Cons y ys)
  have "(\<Sum>z\<leftarrow>ys. if g z = g x then f z else 0) = 0" if "g x \<notin> g ` set ys"
    using that by (induction ys) auto
  with Cons show ?case by auto
qed simp

lemma count_dependents:
  "count_list (p_dependents (make_plan ex ops) d) x =
     (\<Sum>op\<leftarrow>ops. if op_id_of op = x then count_list (op_deps ex op) d else 0)"
proof -
  have "count_list (map (\<lambda>_. op_id_of op) (filter (\<lambda>e. e = d) es)) x =
      (if op_id_of op = x then count_list es d else 0)" for op es
    by (induction es) auto
  moreover have "count_list (concat (map h os)) x = (\<Sum>op\<leftarrow>os. count_list (h op) x)" for h and os :: "json list"
    by (induction os) auto
  ultimately show ?thesis
    by (simp add: make_plan_def)
qed

lemma make_plan_ok:
  assumes wf: "ops_wf ex ops"
  shows "plan_ok ex (make_plan ex ops) (make_rows ex ops)"
proof -
  have dist: "distinct (map op_id_of ops)"
    using wf by (simp add: ops_wf_def)
  have row: "make_rows ex ops (op_id_of op) = Some (make_row ex (base_release ops) op)"
    "p_by_id (make_plan ex ops) (op_id_of op) = Some op" if "op \<in> set ops" for op
    using map_of_ops [OF dist that, of "make_row ex (base_release ops)"] map_of_ops [OF dist that, of "\<lambda>op. op"]
    by (simp_all add: make_rows_def make_plan_def)
  have deps: "deps_of (make_rows ex ops) (op_id_of op) = op_deps ex op" if "op \<in> set ops" for op
    using row [OF that] by (simp add: deps_of_def make_row_def Let_def)
  have order: "p_order (make_plan ex ops) = map op_id_of ops"
    by (simp add: make_plan_def)
  have "count_list (p_dependents (make_plan ex ops) d) x =
      (if x \<in> set (map op_id_of ops) then count_list (deps_of (make_rows ex ops) x) d else 0)" for d x
  proof (cases "x \<in> set (map op_id_of ops)")
    case True
    then obtain op where "op \<in> set ops" "x = op_id_of op" by auto
    then show ?thesis
      using sum_list_unique [OF dist, of op] deps by (simp add: count_dependents)
  next
    case False
    then have "(\<Sum>op\<leftarrow>ops. if op_id_of op = x then count_list (op_deps ex op) d else 0) = (\<Sum>op\<leftarrow>ops. 0)"
      by (intro arg_cong [where f = sum_list] map_cong) auto
    with False show ?thesis by (simp add: count_dependents)
  qed
  moreover have "\<forall>x\<in>set (map op_id_of ops). \<exists>r. make_rows ex ops x = Some r \<and> r_op_id r = x"
    using row by (auto simp: make_row_def op_id_of_def Let_def)
  moreover have "\<forall>x\<in>set (map op_id_of ops). \<exists>op. p_by_id (make_plan ex ops) x = Some op \<and> (\<exists>d. op_delay ex op = Inr d)"
    using row wf by (auto simp: ops_wf_def)
  moreover have "\<exists>k<i. op_id_of (ops ! k) = d"
    if "i < length ops" "d \<in> set (deps_of (make_rows ex ops) (op_id_of (ops ! i)))" for i d
    using that deps wf by (simp add: ops_wf_def)
  ultimately show ?thesis
    using wf unfolding plan_ok_def order by (fastforce simp: ops_wf_def)
qed

lemma make_rows_fresh:
  assumes wf: "ops_wf ex ops"
    and "s = \<lparr>s_rows = make_rows ex ops, s_remaining = make_remaining ex ops, s_now = 0, s_pending = [],
           s_completions = [], s_running = 0, s_seq = 0, s_backend = b\<rparr>"
  shows "fresh_sim (make_plan ex ops) (make_rows ex ops) s"
proof -
  have dist: "distinct (map op_id_of ops)"
    using wf by (simp add: ops_wf_def)
  have "r_complete_ns r = None" if "make_rows ex ops x = Some r" for x r
    using that by (auto simp: make_rows_def make_row_def Let_def dest!: map_of_SomeD)
  then have "done_at (make_rows ex ops) x = None" for x
    by (simp add: done_at_def split: option.split)
  moreover have "make_remaining ex ops (op_id_of op) = int (length (deps_of (make_rows ex ops) (op_id_of op)))"
    if "op \<in> set ops" for op
    using map_of_ops [OF dist that, of "make_row ex (base_release ops)"] map_of_ops [OF dist that, of "\<lambda>op. op"]
    by (simp add: make_remaining_def make_rows_def deps_of_def) (simp add: make_row_def Let_def)
  ultimately show ?thesis
    using assms(2) by (auto simp: fresh_sim_def make_plan_def)
qed

section \<open>The ledger of a run\<close>

definition row_ok :: "executor \<Rightarrow> json list \<Rightarrow> row list \<Rightarrow> int \<Rightarrow> nat \<Rightarrow> bool" where
  "row_ok ex ops rows wall i \<longleftrightarrow>
     r_op_id (rows ! i) = op_id_of (ops ! i) \<and> r_deps (rows ! i) = op_deps ex (ops ! i) \<and>
     (\<exists>e u c delay. r_eligible_ns (rows ! i) = Some e \<and> r_submit_ns (rows ! i) = Some u \<and>
        r_complete_ns (rows ! i) = Some c \<and> op_delay ex (ops ! i) = Inr delay \<and>
        release_of ex (base_release ops) (ops ! i) \<le> e \<and> e \<le> u \<and> u \<le> wall \<and> c \<le> wall \<and>
        (\<forall>k<length ops. op_id_of (ops ! k) \<in> set (op_deps ex (ops ! i)) \<longrightarrow>
           (\<exists>c'. r_complete_ns (rows ! k) = Some c' \<and> c' + delay \<le> e)))"

definition ledger_ok :: "executor \<Rightarrow> json list \<Rightarrow> (outcome \<Rightarrow> bool) \<Rightarrow> row list \<Rightarrow> int \<Rightarrow> bool" where
  "ledger_ok ex ops good rows wall \<longleftrightarrow> length rows = length ops \<and>
     (\<forall>i<length ops. row_ok ex ops rows wall i) \<and>
     (\<forall>r\<in>set rows. \<exists>oc. good oc \<and> r_outcome r = Some (status oc) \<and> r_detail r = detail oc)"

lemma release_start:
  assumes "rows0 x = Some (make_row ex base op)" "ex_profile ex = ''offered'' \<or> release_of ex base op = 0"
  shows "start_of ex rows0 x = release_of ex base op"
  using assms by (auto simp: start_of_def make_row_def Let_def release_of_def)

lemma run_ledger:
  assumes wf: "ops_wf ex ops" and ops: "ops = the_list (fld (ex_intent ex) ''operations'')"
    and well: "performs_well B ex (ex_plan ex) binv good"
    and init: "be_initialize B (ex_intent ex) b = Inr b0" "binv b0"
    and close: "\<And>b b'. binv b \<Longrightarrow> be_close B b = Inr b' \<Longrightarrow> binv b'"
  shows "(\<exists>e. run_rows B ex b = Some (Inl e) \<and>
       (raised B ex (ex_plan ex) binv e \<or> (\<exists>b. binv b \<and> be_close B b = Inl e))) \<or>
    (\<exists>rows wall b'. run_rows B ex b = Some (Inr (rows, wall, b')) \<and> ledger_ok ex ops good rows wall \<and> binv b')"
proof -
  define rows0 where "rows0 = make_rows ex ops"
  have pl: "ex_plan ex = make_plan ex ops" "p_order (ex_plan ex) = map op_id_of ops"
    by (simp_all add: ex_plan_def ops make_plan_def)
  note plan = make_plan_ok [OF wf, folded pl(1) rows0_def]
  obtain s where s: "prepare B ex b = Inr s" "fresh_sim (ex_plan ex) rows0 s" "s_backend s = b0"
    using make_rows_fresh [OF wf refl, of b0] init(1)
    by (simp add: prepare_def ops [symmetric] pl(1) [symmetric] rows0_def [symmetric])
  consider e where "run_simulated B ex (ex_plan ex) s = Some (Inl e)" "raised B ex (ex_plan ex) binv e"
    | s' where "run_simulated B ex (ex_plan ex) s = Some (Inr s')"
        "sim_inv ex (ex_plan ex) rows0 binv good [] s'"
        "\<forall>x\<in>set (p_order (ex_plan ex)). done_at (s_rows s') x \<noteq> None"
    using run_simulated_inv [OF plan well s(2)] init(2) s(3) by blast
  then show ?thesis
  proof cases
    case 1
    then show ?thesis by (auto simp: run_rows_def s(1))
  next
    case 2
    define rows where "rows = map (\<lambda>i. the (s_rows s' i)) (p_order (ex_plan ex))"
    have run: "run_rows B ex b = Some (rbind (be_close B (s_backend s')) (\<lambda>b'. Inr (rows, s_now s', b')))"
      by (simp add: run_rows_def s(1) 2(1) rows_def)
    have dist: "distinct (map op_id_of ops)"
      using wf by (simp add: ops_wf_def)
    have row0: "rows0 (op_id_of (ops ! i)) = Some (make_row ex (base_release ops) (ops ! i))"
      if "i < length ops" for i
      unfolding rows0_def make_rows_def using map_of_ops [OF dist nth_mem [OF that]] .
    have row: "s_rows s' (op_id_of (ops ! i)) = Some (rows ! i)" if "i < length ops" for i
      using 2(3) that by (auto simp: rows_def pl(2) done_at_def split: option.splits)
    have static: "r_op_id (rows ! i) = op_id_of (ops ! i)" "r_deps (rows ! i) = op_deps ex (ops ! i)"
      if "i < length ops" for i
      using sim_inv_static [OF 2(2), of "op_id_of (ops ! i)"] row0 [OF that] row [OF that]
      by (auto simp: static_part_def make_row_def Let_def op_id_of_def)
    have "row_ok ex ops rows (s_now s') i" if i: "i < length ops" for i
    proof -
      define x where "x = op_id_of (ops ! i)"
      have x: "done_at (s_rows s') x \<noteq> None"
        using 2(3) i by (simp add: x_def pl(2))
      obtain e u where eu: "r_eligible_ns (rows ! i) = Some e" "r_submit_ns (rows ! i) = Some u" "e \<le> u"
        "u \<le> s_now s'" "ready ex (ex_plan ex) rows0 (s_rows s') x e"
        using sim_inv_submitted [OF 2(2), of x] x row [OF i] by (auto simp: submitted_def x_def)
      obtain c where c: "r_complete_ns (rows ! i) = Some c" "c \<le> s_now s'"
        using sim_inv_finished [OF 2(2), of x] x row [OF i] by (auto simp: finished_def x_def)
      obtain d where d: "op_delay ex (ops ! i) = Inr d"
        using wf nth_mem [OF i] by (auto simp: ops_wf_def)
      have "p_by_id (ex_plan ex) x = Some (ops ! i)"
        using map_of_ops [OF dist nth_mem [OF i], of "\<lambda>op. op"] by (simp add: pl(1) make_plan_def x_def)
      then have "delay_of ex (ex_plan ex) x = d"
        by (simp add: delay_of_def d)
      moreover have "deps_of rows0 x = op_deps ex (ops ! i)"
        using row0 [OF i] by (simp add: deps_of_def x_def make_row_def Let_def)
      moreover have "start_of ex rows0 x = release_of ex (base_release ops) (ops ! i)"
        using release_start [of rows0 x ex "base_release ops" "ops ! i"] row0 [OF i] by (simp add: x_def release_of_def)
      moreover have "done_at (s_rows s') (op_id_of (ops ! k)) = r_complete_ns (rows ! k)" if "k < length ops" for k
        using row [OF that] by (simp add: done_at_def)
      ultimately show ?thesis
        unfolding row_ok_def using static [OF i] eu c d by (fastforce simp: ready_def)
    qed
    moreover have "\<exists>oc. good oc \<and> r_outcome r = Some (status oc) \<and> r_detail r = detail oc" if "r \<in> set rows" for r
    proof -
      obtain i where i: "i < length ops" "r = rows ! i"
        using \<open>r \<in> set rows\<close> by (auto simp: in_set_conv_nth rows_def pl(2))
      then show ?thesis
        using sim_inv_finished [OF 2(2), of "op_id_of (ops ! i)"] 2(3) row [OF i(1)]
        by (auto simp: finished_def pl(2))
    qed
    moreover have "length rows = length ops"
      by (simp add: rows_def pl(2))
    ultimately have "ledger_ok ex ops good rows (s_now s')"
      unfolding ledger_ok_def by blast
    then show ?thesis
      using run sim_inv_backend [OF 2(2)] close by (cases "be_close B (s_backend s')") auto
  qed
qed

text \<open>A ledger of this shape passes the check the command line runs on it.\<close>

lemma row_by_id_nth:
  assumes "distinct (map op_id_of ops)" "length rows = length ops"
    and "\<And>i. i < length ops \<Longrightarrow> r_op_id (rows ! i) = op_id_of (ops ! i)" "i < length ops"
  shows "row_by_id rows (op_id_of (ops ! i)) = Some (rows ! i)"
proof -
  have ids: "map r_op_id rows = map op_id_of ops"
    using assms(2,3) by (intro nth_equalityI) auto
  then have "distinct (map fst (rev (map (\<lambda>r. (r_op_id r, r)) rows)))"
    using assms(1) by (simp add: comp_def ids flip: rev_map)
  moreover have "(op_id_of (ops ! i), rows ! i) \<in> set (rev (map (\<lambda>r. (r_op_id r, r)) rows))"
    using assms(2-4) by (auto simp: in_set_conv_nth image_iff)
  ultimately show ?thesis
    unfolding row_by_id_def by (rule map_of_is_SomeI)
qed

lemma ledger_no_violation:
  assumes wf: "ops_wf ex ops" and ops: "ops = the_list (fld intent ''operations'')"
    and ledger: "ledger_ok ex ops good rows wall"
  shows "check_dependencies rows intent (ex_delay_ns ex) = Inr [] \<and> unfinished rows = []"
proof
  have len: "length rows = length ops" and dist: "distinct (map op_id_of ops)"
    and ok: "\<And>i. i < length ops \<Longrightarrow> row_ok ex ops rows wall i"
    using wf ledger by (simp_all add: ops_wf_def ledger_ok_def)
  have by_id: "row_by_id rows (op_id_of (ops ! i)) = Some (rows ! i)" if "i < length ops" for i
    using row_by_id_nth [OF dist len _ that] ok by (simp add: row_ok_def)
  have "dep_violated (row_by_id rows) (ops ! i) (ex_delay_ns ex) u d = Inr False"
    if i: "i < length ops" "r_submit_ns (rows ! i) = Some u" "d \<in> set (op_deps ex (ops ! i))" for i u d
  proof -
    obtain k where k: "k < i" "op_id_of (ops ! k) = d"
      using wf i unfolding ops_wf_def by blast
    obtain e delay where e: "e \<le> u" "op_delay ex (ops ! i) = Inr delay"
      "\<forall>k<length ops. op_id_of (ops ! k) \<in> set (op_deps ex (ops ! i)) \<longrightarrow>
         (\<exists>c'. r_complete_ns (rows ! k) = Some c' \<and> c' + delay \<le> e)"
      using ok [OF i(1)] i(2) unfolding row_ok_def by auto
    then obtain c where "r_complete_ns (rows ! k) = Some c" "c + delay \<le> e"
      using k i by (metis order.strict_trans)
    with e(1,2) show ?thesis
      using by_id [of k] k i(1) by (simp add: dep_violated_def op_delay_def)
  qed
  note dep = this
  show "check_dependencies rows intent (ex_delay_ns ex) = Inr []"
  proof -
    have skip: "mfold f [] os = Inr []" if "\<And>op. op \<in> set os \<Longrightarrow> f [] op = Inr []"
      for f :: "(string \<times> string) list \<Rightarrow> 'a \<Rightarrow> _" and os
      using that by (induction os) auto
    have "\<exists>u. r_submit_ns (rows ! i) = Some u \<and> r_deps (rows ! i) = op_deps ex (ops ! i)" if "i < length ops" for i
      using ok [OF that] unfolding row_ok_def by blast
    note submit = this
    show ?thesis
      unfolding check_dependencies_def Let_def ops [symmetric]
    proof (rule skip)
      fix op
      assume "op \<in> set ops"
      then obtain i where i: "i < length ops" "op = ops ! i"
        by (auto simp: in_set_conv_nth)
      obtain u where "r_submit_ns (rows ! i) = Some u" "r_deps (rows ! i) = op_deps ex (ops ! i)"
        using submit [OF i(1)] by blast
      then show "(case row_by_id rows (op_id_of op) of None \<Rightarrow> Inl KeyError
          | Some r \<Rightarrow> (case r_submit_ns r of None \<Rightarrow> Inr []
            | Some submit \<Rightarrow> mfold (\<lambda>violations d.
                rbind (dep_violated (row_by_id rows) op (ex_delay_ns ex) submit d) (\<lambda>bad.
                  Inr (if bad then violations @ [(op_id_of op, d)] else violations)))
                [] (r_deps r))) = Inr []"
        using dep [OF i(1)] by (simp add: i by_id) (rule skip, simp)
    qed
  qed
  show "unfinished rows = []"
  proof -
    have "r_complete_ns r \<noteq> None" if "r \<in> set rows" for r
      using that len ok unfolding row_ok_def by (metis in_set_conv_nth option.distinct(1))
    then show ?thesis
      by (auto simp: unfinished_def filter_empty_conv)
  qed
qed

end
