(* ===== verification/Executor_Props.thy ===== *)
theory Executor_Props
  imports Executor_Run
begin

text \<open>
  What a simulated run guarantees (\<open>src/tools/kvio/intent_exec.py\<close>), from the record the executor
  was built on to the ledger it returns: every run returns, only the target can make it fail, the
  ledger passes \<open>check_dependencies\<close>, and on the in-memory target no load ever disagrees with what
  was stored.
\<close>

section \<open>Operations on a verified target\<close>

context verified_backend
begin

lemma executor_outcomes_good:
  "good cancelled_outcome" "good (mk_outcome ''error'' 0 ''backend has no exists'')"
  by (simp_all add: synthetic_good cancelled_outcome_def)

lemma perform_keeps:
  assumes "inv b" "perform B ex op b = Inr (oc, b')"
  shows "inv b' \<and> good oc"
proof (cases "ex_v3 ex")
  case True
  then have "perform_v3 B ex op b = Inr (oc, b')"
    using assms(2) by (simp add: perform_def)
  with assms(1) show ?thesis
    unfolding perform_v3_def Let_def
    by (auto simp: rbind_Inr_iff executor_outcomes_good
        split: if_splits option.splits
        dest: store_inv [OF assms(1)] load_inv [OF assms(1)] release_inv [OF assms(1)]
          exists_inv [OF assms(1)] perform_inv [OF assms(1)])
next
  case False
  then have "perform_v2 B ex op b = Inr (oc, b')"
    using assms(2) by (simp add: perform_def)
  with assms(1) show ?thesis
    unfolding perform_v2_def Let_def
    by (auto simp: rbind_Inr_iff executor_outcomes_good split: if_splits
        dest: store_inv [OF assms(1)] load_inv [OF assms(1)] release_inv [OF assms(1)])
qed

lemma target_performs_well: "performs_well B ex pl inv good"
  using perform_keeps unfolding performs_well_def by blast

lemma verified_run:
  assumes "ops_wf ex ops" "ops = the_list (fld (ex_intent ex) ''operations'')"
    "be_initialize B (ex_intent ex) b = Inr b0" "inv b0"
  shows "(\<exists>e. run_rows B ex b = Some (Inl e) \<and>
       (raised B ex (ex_plan ex) inv e \<or> (\<exists>b. inv b \<and> be_close B b = Inl e))) \<or>
    (\<exists>rows wall b'. run_rows B ex b = Some (Inr (rows, wall, b')) \<and> ledger_ok ex ops good rows wall \<and> inv b')"
  by (rule run_ledger [OF assms(1,2) target_performs_well assms(3,4) close_inv])

end

section \<open>The executor built on a validated record\<close>

text \<open>
  A v3 record may carry any value as \<open>declared_delay_ns\<close>; the scheduler needs a number there. A
  v2 record always has one.
\<close>

definition delays_ok :: "executor \<Rightarrow> bool" where
  "delays_ok ex \<longleftrightarrow> (\<forall>op\<in>set (the_list (fld (ex_intent ex) ''operations'')). \<exists>d. op_delay ex op = Inr d)"

lemma executor_init_Inr:
  assumes "executor_init B intent b profile mode workers delay skip cp = Inr (ex, b1)"
  shows "ex_intent ex = intent" "ex_v3 ex \<longleftrightarrow> is_obj intent \<and> fld intent ''schema'' = JStr V3_SCHEMA"
    "ex_v3 ex \<Longrightarrow> validate_workload intent = Inr intent" "\<not> ex_v3 ex \<Longrightarrow> validate_intent2 intent = Inr intent"
    "0 < ex_workers ex" "ex_delay_ns ex = delay" "ex_profile ex = profile" "\<not> ex_v3 ex \<Longrightarrow> b1 = b"
    "ex_workers ex = max 1 workers"
  using assms unfolding executor_init_def Let_def rbind_Inr_iff
  by (auto simp: validate_workload_iff validate_intent2_iff split: if_splits)

lemma distinct_op_ids:
  assumes "distinct (map (\<lambda>op. fld op ''op_id'') ops)" "\<forall>e\<in>set ops. is_str (fld e ''op_id'')"
  shows "distinct (map op_id_of ops)"
proof -
  have "inj_on the_str ((\<lambda>op. fld op ''op_id'') ` set ops)"
  proof (rule inj_onI)
    fix v w
    assume "v \<in> (\<lambda>op. fld op ''op_id'') ` set ops" "w \<in> (\<lambda>op. fld op ''op_id'') ` set ops"
      and eq: "the_str v = the_str w"
    then have "is_str v" "is_str w"
      using assms(2) by blast+
    with eq show "v = w"
      by (auto simp: is_str_iff)
  qed
  then show ?thesis
    using assms(1) by (auto simp: distinct_map op_id_of_def inj_on_def)
qed

lemma v2_delays: "v2_timing_ok tm op \<Longrightarrow> \<exists>d. op_delay ex op = Inr d"
  by (auto simp: v2_timing_ok_def op_delay_def delay_or_def)

lemma executor_ops_wf:
  assumes init: "executor_init B intent b profile mode workers delay skip cp = Inr (ex, b1)"
    and delays: "ex_v3 ex \<longrightarrow> delays_ok ex"
  shows "ops_wf ex (the_list (fld intent ''operations''))"
proof -
  note ex = executor_init_Inr [OF init]
  define ops where "ops = the_list (fld intent ''operations'')"
  have "distinct (map op_id_of ops) \<and>
     (\<forall>i<length ops. \<forall>d\<in>set (op_deps ex (ops ! i)). \<exists>k<i. op_id_of (ops ! k) = d) \<and>
     (\<forall>op\<in>set ops. \<exists>d. op_delay ex op = Inr d)"
  proof (cases "ex_v3 ex")
    case True
    obtain timing where ok: "v3_ops_ok intent timing (v3_nodes intent) (v3_initial_handles intent) ops"
      using validate_workload_ops_ok [OF ex(3) [OF True]] unfolding ops_def by blast
    show ?thesis
      using distinct_op_ids [OF v3_ops_ok_distinct [OF ok] v3_ops_ok_ids [OF ok]] v3_ops_ok_deps [OF ok]
        delays True
      by (fastforce simp: op_deps_def delays_ok_def ex(1) ops_def [symmetric] op_id_of_def)
  next
    case False
    obtain tm where ok: "v2_ops_ok tm (fld intent ''objects'') (v2_initial intent) ops"
      using validate_intent2_ops_ok [OF ex(4) [OF False]] unfolding ops_def by blast
    have "v2_timing_ok tm op" if "op \<in> set ops" for op
      using ok that by (auto simp: v2_ops_ok_def v2_op_ok_def in_set_conv_nth)
    then show ?thesis
      using distinct_op_ids [OF v2_ops_ok_distinct [OF ok] v2_ops_ok_ids [OF ok]] v2_ops_ok_deps [OF ok]
        v2_delays False
      by (fastforce simp: op_deps_def op_id_of_def)
  qed
  then show ?thesis
    using ex(5) by (simp add: ops_wf_def ops_def)
qed

section \<open>The in-memory target runs every v2 record\<close>

text \<open>
  The validator compares a version's \<open>bytes\<close> with the encoded size by \<open>==\<close>, so that 8.0 passes for
  8; reading such a version raises. \<open>sizes_countable\<close> excludes those records.
\<close>

definition sizes_countable :: "json \<Rightarrow> bool" where
  "sizes_countable intent \<longleftrightarrow>
     (\<forall>(oid, entry)\<in>set (the_obj (fld intent ''objects'')).
        \<forall>(v, ver)\<in>set (the_obj (fld entry ''versions'')). as_count (fld ver ''bytes'') \<noteq> Inl TypeError)"

lemma as_count_cases: "as_count v \<noteq> Inl TypeError \<Longrightarrow> \<exists>n. as_count v = Inr n"
  by (cases v) auto

lemma v2_known_count:
  assumes "sizes_countable intent" "v2_known_version (fld intent ''objects'') oid ver = Inr key"
  shows "\<exists>n. as_count (fld (fld (fld (fld (fld intent ''objects'') (fst key)) ''versions'') (snd key)) ''bytes'') = Inr n"
proof -
  define objects where "objects = fld intent ''objects''"
  have "has_key objects (fst key)" "has_key (fld (fld objects (fst key)) ''versions'') (snd key)"
    using assms(2) unfolding objects_def [symmetric]
    by (auto simp: v2_known_version_def in_keys_def has_key_obj_keys result_simps split: option.splits if_splits)
  then have "(fst key, fld objects (fst key)) \<in> set (the_obj objects)"
    "(snd key, fld (fld (fld objects (fst key)) ''versions'') (snd key)) \<in>
       set (the_obj (fld (fld objects (fst key)) ''versions''))"
    by (simp_all add: fld_in_set)
  then show ?thesis
    using assms(1) as_count_cases unfolding sizes_countable_def objects_def by fast
qed

lemma v2_live_known:
  assumes "validate_intent2 intent = Inr r"
    "item \<in> set (the_list (fld (fld intent ''initial_state'') ''live''))"
  shows "v2_known_version (fld intent ''objects'') (fld item ''object_id'') (fld item ''version'') = Inr (v2_key item)"
proof -
  obtain live initial_state where *:
    "obj_get_default intent ''initial_state'' (JObj []) = Inr initial_state"
    "is_list (fld initial_state ''live'')"
    "mfold (v2_check_live (fld intent ''objects'')) {} (the_list (fld initial_state ''live'')) = Inr live"
    using assms unfolding validate_intent2_iff by blast
  have st: "initial_state = fld intent ''initial_state''"
    using * (1,2) by (auto simp: obj_get_default_def split: if_splits)
  have "\<forall>item\<in>set (the_list (fld initial_state ''live'')). \<exists>key.
      v2_known_version (fld intent ''objects'') (fld item ''object_id'') (fld item ''version'') = Inr key"
    using * (3)
    by (rule mfold_rule [where I = "\<lambda>ys _. \<forall>item\<in>set ys. \<exists>key.
      v2_known_version (fld intent ''objects'') (fld item ''object_id'') (fld item ''version'') = Inr key"])
       (auto simp: v2_check_live_def result_simps)
  then show ?thesis
    using assms(2) v2_known_version_key unfolding st by blast
qed

lemma fake_payload_total:
  assumes "fake_inv blake b"
  shows "\<exists>data. payload blake (fk_profile b) key 0 n = Inr data \<and> length data = n"
  using payload_range [of blake "fk_profile b" 0 n n key] assms by (auto simp: fake_inv_def)

lemma fake_initialize_total:
  assumes ok: "validate_intent2 intent = Inr r" and v2: "fld intent ''schema'' \<noteq> JStr V3_SCHEMA"
    and sizes: "sizes_countable intent" and inv: "fake_inv blake b"
  shows "\<exists>b0. fake_initialize blake intent b = Inr b0 \<and> fake_inv blake b0"
  unfolding fake_initialize_def
proof (rule mfold_total [where I = "\<lambda>_. fake_inv blake"])
  fix ys x zs u
  assume x: "initial_objects intent = ys @ x # zs" and u: "fake_inv blake u"
  obtain key bytes where kb: "x = (key, bytes)" by (cases x)
  have "x \<in> set (initial_objects intent)"
    using x by simp
  then obtain n where n: "as_count bytes = Inr n"
    using v2 v2_known_count [OF sizes v2_live_known [OF ok]] unfolding kb
    by (fastforce simp: initial_objects_def initial_objects_v2_def v2_key_def)
  obtain data where data: "payload blake (fk_profile u) key 0 n = Inr data" "length data = n"
    using fake_payload_total [OF u] by blast
  with u show "\<exists>u'. (case x of (key, bytes) \<Rightarrow> rbind (as_count bytes) (\<lambda>n.
       rbind (payload blake (fk_profile u) key 0 n) (\<lambda>data.
       Inr (u\<lparr>fk_objects := (fk_objects u)(key \<mapsto> data)\<rparr>)))) = Inr u' \<and> fake_inv blake u'"
    by (auto simp: kb n fake_inv_def)
qed (rule inv)

lemma v2_perform_total:
  assumes ok: "v2_op_ok tm (fld intent ''objects'') live pre op" and sizes: "sizes_countable intent"
    and ex: "ex_intent ex = intent" and inv: "fake_inv blake b"
  shows "\<exists>r. perform_v2 (fake_backend blake) ex op b = Inr r"
proof -
  obtain bytes where range: "v2_range_ok op bytes"
    and known: "v2_known_version (fld intent ''objects'') (fld op ''object_id'') (fld op ''version'') = Inr (v2_key op)"
    using ok unfolding v2_op_ok_def by blast
  obtain n where n: "as_count (v2_object_bytes intent op) = Inr n"
    using v2_known_count [OF sizes known] unfolding v2_object_bytes_def by blast
  obtain data where data: "payload blake (fk_profile b) (fld op ''object_id'', fld op ''version'') 0 n = Inr data"
    using fake_payload_total [OF inv] by blast
  have "\<exists>a m. as_count (if truthy (fld op ''range'') then fld (fld op ''range'') ''offset'' else JInt 0) = Inr a \<and>
      as_count (if truthy (fld op ''range'') then fld (fld op ''range'') ''length'' else v2_object_bytes intent op) = Inr m"
    using range n by (auto simp: v2_range_ok_def)
  then show ?thesis
    using fake_total [OF inv] n data
    by (auto simp: perform_v2_def ex Let_def fake_backend_def)
qed

section \<open>From the ledger to the result\<close>

lemma ledger_row:
  assumes "ledger_ok ex ops good rows wall" "r \<in> set rows"
  obtains e u c where "r_eligible_ns r = Some e" "r_submit_ns r = Some u" "r_complete_ns r = Some c"
proof -
  obtain i where "i < length ops" "r = rows ! i"
    using assms by (auto simp: ledger_ok_def in_set_conv_nth)
  then have "row_ok ex ops rows wall i" "r = rows ! i"
    using assms(1) by (simp_all add: ledger_ok_def)
  then show ?thesis
    using that unfolding row_ok_def by blast
qed

lemma summarize_ledger:
  assumes "ledger_ok ex ops good rows wall"
  shows "\<exists>res. summarize rows profile mode cm = Inr res \<and> su_operations res = length ops \<and> su_completed res = length ops"
proof -
  have some: "r_complete_ns r \<noteq> None" "r_submit_ns r \<noteq> None" "r_eligible_ns r \<noteq> None"
    if "r \<in> set rows" for r
    by (rule ledger_row [OF assms that]; simp)+
  then have all: "filter (\<lambda>r. r_complete_ns r \<noteq> None) rows = rows"
    by simp
  have "ns_diff (r_submit_ns r) (r_eligible_ns r) = Inr (the (r_submit_ns r) - the (r_eligible_ns r))"
    "ns_diff (r_complete_ns r) (Some (r_release_ns r)) = Inr (the (r_complete_ns r) - r_release_ns r)"
    "ns_diff (r_complete_ns r) (r_submit_ns r) = Inr (the (r_complete_ns r) - the (r_submit_ns r))"
    if "r \<in> set rows" for r
    using some [OF that] by (auto simp: ns_diff_def)
  note diffs = this
  have "\<exists>lag. mmap (\<lambda>r. ns_diff (r_submit_ns r) (r_eligible_ns r)) rows = Inr lag"
    "\<exists>wait. mmap (\<lambda>r. ns_diff (r_complete_ns r) (Some (r_release_ns r))) rows = Inr wait"
    "\<exists>svc. mmap (\<lambda>r. ns_diff (r_complete_ns r) (r_submit_ns r)) rows = Inr svc"
    by (rule exI, rule mmap_total, erule diffs)+
  then show ?thesis
    unfolding summarize_def Let_def all using assms by (auto simp: ledger_ok_def)
qed

lemma run_of_ledger:
  assumes "run_rows B ex b = Some (Inr (rows, wall, b'))" "ledger_ok ex ops good rows wall"
  shows "\<exists>res. run B ex b = Some (Inr (rows, res, b')) \<and> su_unfinished res = unfinished rows \<and>
    su_wall_ns res = wall \<and> su_completed res = length ops"
  using summarize_ledger [OF assms(2), of "ex_profile ex" "ex_mode ex" "cp_name (ex_content ex)"]
  by (auto simp: run_def assms(1))

lemma ledger_ids:
  assumes "ledger_ok ex ops good rows wall"
  shows "map r_op_id rows = map op_id_of ops"
  using assms by (intro nth_equalityI) (auto simp: ledger_ok_def row_ok_def)

lemma plan_by_id:
  assumes "p_by_id (make_plan ex ops) x = Some op"
  shows "op \<in> set ops"
  using assms by (auto simp: make_plan_def dest: map_of_SomeD)

text \<open>A run on any target, with nothing asked of it.\<close>

lemma run_cases:
  assumes init: "executor_init B intent b profile mode workers delay skip cp = Inr (ex, b1)"
    and delays: "ex_v3 ex \<longrightarrow> delays_ok ex"
  shows "(\<exists>e. run B ex b1 = Some (Inl e) \<and> (be_initialize B intent b1 = Inl e \<or>
        (\<exists>op\<in>set (the_list (fld intent ''operations'')). \<exists>b'. perform B ex op b' = Inl e) \<or>
        (\<exists>b'. be_close B b' = Inl e))) \<or>
    (\<exists>rows res b'. run B ex b1 = Some (Inr (rows, res, b')) \<and>
        ledger_ok ex (the_list (fld intent ''operations'')) (\<lambda>_. True) rows (su_wall_ns res) \<and>
        su_unfinished res = unfinished rows)"
proof (cases "be_initialize B intent b1")
  case (Inl e)
  then have "run B ex b1 = Some (Inl e)"
    using executor_init_Inr(1) [OF init] by (simp add: run_def run_rows_def prepare_def)
  then show ?thesis using Inl by blast
next
  case (Inr b0)
  note ex = executor_init_Inr [OF init]
  define ops where "ops = the_list (fld intent ''operations'')"
  have wf: "ops_wf ex ops"
    unfolding ops_def by (rule executor_ops_wf [OF init delays])
  have "performs_well B ex (ex_plan ex) (\<lambda>_. True) (\<lambda>_. True)"
    by (simp add: performs_well_def)
  from run_ledger [OF wf _ this, of b1 b0] Inr consider
      e where "run_rows B ex b1 = Some (Inl e)" "raised B ex (ex_plan ex) (\<lambda>_. True) e \<or> (\<exists>b. be_close B b = Inl e)"
    | rows wall b' where "run_rows B ex b1 = Some (Inr (rows, wall, b'))" "ledger_ok ex ops (\<lambda>_. True) rows wall"
    by (auto simp: ops_def ex(1))
  then show ?thesis
  proof cases
    case 1
    then have "run B ex b1 = Some (Inl e)"
      by (simp add: run_def)
    moreover have "(\<exists>op\<in>set ops. \<exists>b'. perform B ex op b' = Inl e) \<or> (\<exists>b'. be_close B b' = Inl e)"
      using 1(2) plan_by_id unfolding raised_def ex_plan_def ex(1) ops_def by blast
    ultimately show ?thesis unfolding ops_def by blast
  next
    case 2
    then show ?thesis
      using run_of_ledger [OF 2] unfolding ops_def by auto
  qed
qed

lemma fake_run:
  assumes init: "executor_init (fake_backend blake) intent b profile mode workers delay skip cp = Inr (ex, b1)"
    and v2: "\<not> ex_v3 ex" and sizes: "sizes_countable intent" and inv: "fake_inv blake b"
  shows "\<exists>rows res b'. run (fake_backend blake) ex b1 = Some (Inr (rows, res, b')) \<and> su_unfinished res = [] \<and>
    su_completed res = length (the_list (fld intent ''operations'')) \<and>
    (\<forall>r\<in>set rows. r_detail r \<noteq> ''content mismatch'') \<and> fake_inv blake b'"
proof -
  note ex = executor_init_Inr [OF init]
  define ops where "ops = the_list (fld intent ''operations'')"
  have wf: "ops_wf ex ops"
    unfolding ops_def using executor_ops_wf [OF init] v2 by blast
  have valid: "validate_intent2 intent = Inr intent"
    by (rule ex(4) [OF v2])
  then obtain tm where ok: "v2_ops_ok tm (fld intent ''objects'') (v2_initial intent) ops"
    using validate_intent2_ops_ok unfolding ops_def by blast
  have total: "\<exists>r. perform (fake_backend blake) ex op b = Inr r" if "op \<in> set ops" "fake_inv blake b" for op b
    using v2_perform_total [OF _ sizes ex(1) that(2)] ok that(1) v2
    by (auto simp: v2_ops_ok_def in_set_conv_nth perform_def)
  have "fld intent ''schema'' \<noteq> JStr V3_SCHEMA"
    using v2 valid by (auto simp: ex(2) validate_intent2_iff)
  then obtain b0 where b0: "be_initialize (fake_backend blake) (ex_intent ex) b1 = Inr b0" "fake_inv blake b0"
    using fake_initialize_total [OF valid _ sizes inv] ex(8) [OF v2] by (auto simp: ex(1) fake_backend_def)
  have "\<not> raised (fake_backend blake) ex (ex_plan ex) (fake_inv blake) e" for e
    using total plan_by_id [of ex ops] unfolding raised_def ex_plan_def ex(1) ops_def [symmetric]
    by (metis Inl_not_Inr)
  moreover have "be_close (fake_backend blake) b' \<noteq> Inl e" for b' e
    by (simp add: fake_backend_def)
  ultimately obtain rows wall b' where run: "run_rows (fake_backend blake) ex b1 = Some (Inr (rows, wall, b'))"
    "ledger_ok ex ops no_mismatch rows wall" "fake_inv blake b'"
    using fake.verified_run [OF wf _ b0] by (auto simp: ops_def ex(1))
  have "r_detail r \<noteq> ''content mismatch''" if "r \<in> set rows" for r
    using run(2) that by (auto simp: ledger_ok_def no_mismatch_def)
  then show ?thesis
    using run_of_ledger [OF run(1,2)] ledger_no_violation [OF wf ops_def run(2)] run(3)
    unfolding ops_def by auto
qed

section \<open>A run of the example record\<close>

definition example_fake :: fake where
  "example_fake = \<lparr>fk_latency_ns = (\<lambda>_. 5), fk_fail = Map.empty, fk_verify = True,
     fk_objects = Map.empty, fk_calls = [], fk_profile = None\<rparr>"

definition example_executor :: executor where
  "example_executor = \<lparr>ex_intent = v2_example_intent, ex_v3 = False, ex_profile = ''dependency'',
     ex_mode = ''simulated'', ex_workers = 2, ex_delay_ns = 7, ex_cancelled_skip = True,
     ex_content = mixed_defaults\<rparr>"

lemma example_schema: "fld v2_example_intent ''schema'' = JStr V2_SCHEMA"
  by code_simp

lemma example_sizes: "sizes_countable v2_example_intent"
  by code_simp

lemma example_init:
  "executor_init (fake_backend example_digest) v2_example_intent example_fake ''dependency'' ''simulated'' 2 7 True
     (Inr mixed_defaults) = Inr (example_executor, example_fake)"
  by (simp add: executor_init_def v2_example_ok example_schema V2_SCHEMA_def V3_SCHEMA_def
      example_executor_def PROFILES_def)

lemma example_fake_inv: "fake_inv example_digest example_fake"
  by (simp add: fake_inv_def example_fake_def example_digest_size profile_ok_def)

section \<open>Properties\<close>



text \<open>
  C1. The ledger of a simulated run, on every target: no operation is submitted before each of
  its dependencies has completed and the declared delay has passed (\<open>check_dependencies\<close> reports
  nothing), nor, in the offered profile, before its recorded release time relative to the first
  one; and no submission or completion lies after the wall time the run reports.
\<close>

theorem run_respects_order:
  assumes "executor_init B intent b profile ''simulated'' workers delay skip cp = Inr (ex, b1)"
    and "ex_v3 ex \<longrightarrow> delays_ok ex"
    and "run B ex b1 = Some (Inr (rows, res, b'))"
  shows "check_dependencies rows intent delay = Inr [] \<and>
    (\<forall>i<length rows. \<exists>e u c. r_eligible_ns (rows ! i) = Some e \<and> r_submit_ns (rows ! i) = Some u \<and>
       r_complete_ns (rows ! i) = Some c \<and> e \<le> u \<and> u \<le> su_wall_ns res \<and> c \<le> su_wall_ns res \<and>
       (profile = ''offered'' \<longrightarrow> fld (the_list (fld intent ''operations'') ! i) ''release_ns'' \<noteq> JNull \<longrightarrow>
          the_int (fld (the_list (fld intent ''operations'') ! i) ''release_ns'') -
            base_release (the_list (fld intent ''operations'')) \<le> u))"
proof -
  define ops where "ops = the_list (fld intent ''operations'')"
  note ex = executor_init_Inr [OF assms(1)]
  have ledger: "ledger_ok ex ops (\<lambda>_. True) rows (su_wall_ns res)"
    using run_cases [OF assms(1,2)] assms(3) by (auto simp: ops_def)
  have "check_dependencies rows intent delay = Inr []"
    using ledger_no_violation [OF executor_ops_wf [OF assms(1,2)] refl, folded ops_def, OF ledger]
    by (simp add: ex(6))
  moreover have "\<exists>e u c. r_eligible_ns (rows ! i) = Some e \<and> r_submit_ns (rows ! i) = Some u \<and>
       r_complete_ns (rows ! i) = Some c \<and> e \<le> u \<and> u \<le> su_wall_ns res \<and> c \<le> su_wall_ns res \<and>
       release_of ex (base_release ops) (ops ! i) \<le> u" if "i < length rows" for i
  proof -
    have "row_ok ex ops rows (su_wall_ns res) i"
      using ledger that by (simp add: ledger_ok_def)
    then show ?thesis
      unfolding row_ok_def by (meson order_trans)
  qed
  ultimately show ?thesis
    unfolding ops_def [symmetric] release_of_def ex(7) by fastforce
qed

theorem run_respects_order_witness:
  "\<exists>rows res b'. run (fake_backend example_digest) example_executor example_fake = Some (Inr (rows, res, b')) \<and>
     check_dependencies rows v2_example_intent 7 = Inr []"
proof -
  obtain rows res b' where run: "run (fake_backend example_digest) example_executor example_fake = Some (Inr (rows, res, b'))"
    using fake_run [OF example_init _ example_sizes example_fake_inv] by (auto simp: example_executor_def)
  then show ?thesis
    using run_respects_order [OF example_init _ run] by (auto simp: example_executor_def)
qed



end
