(* ===== verification/Intent_V1.thy ===== *)
theory Intent_V1
  imports Intent_V2
begin

text \<open>
  The first record format \<open>kvio.intent.v1\<close> (\<open>src/tools/kvio/intent.py\<close>): the builder that derives
  the operations of a run from its shape, the validator, the lowering of each operation to target
  commands no larger than the target's limits, the check that a plan is that lowering, and the
  adapter \<open>normalize_v1\<close> of \<open>intent2.py\<close> that turns the implicit phase barriers into explicit
  dependencies.
\<close>

section \<open>Checks\<close>

definition V1_SCHEMA :: string where "V1_SCHEMA = ''kvio.intent.v1''"
definition PLAN_SCHEMA :: string where "PLAN_SCHEMA = ''kvio.intent-plan.v1''"
definition PLAN_EVIDENCE :: string where
  "PLAN_EVIDENCE = ''modeled-target-command-plan-not-device-measurement''"

definition positive :: "json \<Rightarrow> int result" where
  "positive v = (if is_int v \<and> 0 < the_int v then Inr (the_int v)
                 else Inl (IntentError ''must be a positive integer''))"

definition nonnegative :: "json \<Rightarrow> int result" where
  "nonnegative v = (if is_int v \<and> 0 \<le> the_int v then Inr (the_int v)
                    else Inl (IntentError ''must be a non-negative integer''))"

section \<open>Building\<close>

record v1_args =
  va_model :: string
  va_geometry :: json
  va_dtype :: string
  va_chunk_tokens :: json
  va_payload_bytes :: json
  va_ranks_per_chunk :: json
  va_num_chunks :: json
  va_streams :: json
  va_iters :: json
  va_warmup :: json
  va_store_metadata_bytes :: json

text \<open>The nested loops: (pass, phase, stream, chunk, rank) in the order they are visited.\<close>

definition v1_coords ::
  "nat \<Rightarrow> nat \<Rightarrow> nat \<Rightarrow> nat \<Rightarrow> (nat \<times> string \<times> nat \<times> nat \<times> nat) list" where
  "v1_coords passes streams chunks ranks =
     concat (map (\<lambda>p. concat (map (\<lambda>phase. concat (map (\<lambda>s. concat (map (\<lambda>c.
       map (\<lambda>r. (p, phase, s, c, r)) [0..<ranks]) [0..<chunks])) [0..<streams]))
       [''store'', ''load''])) [0..<passes])"

definition v1_object_name :: "string \<Rightarrow> string \<Rightarrow> string \<Rightarrow> string \<Rightarrow> string" where
  "v1_object_name p s c r = ''pass='' @ p @ ''/stream='' @ s @ ''/chunk='' @ c @ ''/rank='' @ r"

definition v1_operation ::
  "int \<Rightarrow> nat \<Rightarrow> nat \<Rightarrow> nat \<times> nat \<times> string \<times> nat \<times> nat \<times> nat \<Rightarrow> json" where
  "v1_operation payload ranks warmup = (\<lambda>(i, p, phase, s, c, r). JObj [
     (''sequence'', JInt (int i)), (''pass'', JInt (int p)), (''phase'', JStr phase),
     (''stream'', JInt (int s)), (''stream_sequence'', JInt (int (c * ranks + r))),
     (''logical_object'', JStr (v1_object_name (str_nat p) (str_nat s) (str_nat c) (str_nat r))),
     (''chunk_index'', JInt (int c)), (''kv_rank'', JInt (int r)),
     (''payload_bytes'', JInt payload), (''timed'', JBool (warmup \<le> p))])"

definition v1_evidence :: json where
  "v1_evidence = JObj [(''logical_operations'', JStr ''derived-from-model-geometry''),
     (''timing'', JStr ''not-recorded''), (''device_io'', JStr ''not-recorded'')]"

definition v1_phase_order :: json where
  "v1_phase_order = JList [JStr ''store'', JStr ''load'']"

definition v1_record :: "v1_args \<Rightarrow> json list \<Rightarrow> json" where
  "v1_record a operations = JObj [
     (''schema'', JStr V1_SCHEMA), (''kind'', JStr ''kv-offload''), (''evidence'', v1_evidence),
     (''model'', JObj [(''name'', JStr (va_model a)), (''dtype'', JStr (va_dtype a)),
        (''chunk_tokens'', va_chunk_tokens a), (''geometry'', va_geometry a)]),
     (''object'', JObj [(''payload_bytes'', va_payload_bytes a),
        (''store_metadata_bytes'', va_store_metadata_bytes a),
        (''ranks_per_chunk'', va_ranks_per_chunk a)]),
     (''execution'', JObj [(''num_chunks'', va_num_chunks a), (''streams'', va_streams a),
        (''iters'', va_iters a), (''warmup'', va_warmup a), (''phase_order'', v1_phase_order),
        (''cross_stream_order'', JStr ''unordered-within-phase'')]),
     (''operations'', JList operations)]"

section \<open>Validating\<close>

text \<open>
  One operation against its position. The numbers are compared with \<open>==\<close>, so a value that equals
  the expected integer passes whatever its type; the object name shows the value as it is written.
\<close>

definition v1_check_op ::
  "int \<Rightarrow> nat \<Rightarrow> nat \<Rightarrow> nat \<Rightarrow> nat \<Rightarrow> nat \<times> json \<Rightarrow> unit result" where
  "v1_check_op payload streams chunks ranks warmup = (\<lambda>(i, op).
     let expected_pass = i div (2 * streams * chunks * ranks);
         within_pass = i mod (2 * streams * chunks * ranks);
         expected_phase = (if within_pass < streams * chunks * ranks then ''store'' else ''load'');
         within_phase = within_pass mod (streams * chunks * ranks);
         expected_stream = within_phase div (chunks * ranks);
         within_stream = within_phase mod (chunks * ranks);
         expected_chunk = within_stream div ranks;
         expected_rank = within_stream mod ranks;
         name = (case (py_str (fld op ''pass''), py_str (fld op ''stream''),
                       py_str (fld op ''chunk_index''), py_str (fld op ''kv_rank'')) of
                   (Some p, Some s, Some c, Some r) \<Rightarrow> Some (v1_object_name p s c r) | _ \<Rightarrow> None)
     in
     rbind (require (is_obj op \<and> py_eq (fld op ''sequence'') (JInt (int i)))
       (IntentError ''sequence must be canonical'')) (\<lambda>_.
     rbind (require (py_eq (fld op ''phase'') (JStr expected_phase))
       (IntentError ''phase is not in the v1 execution order'')) (\<lambda>_.
     rbind (require (py_eq (fld op ''pass'') (JInt (int expected_pass)))
       (IntentError ''pass is not in the v1 execution order'')) (\<lambda>_.
     rbind (require (py_eq (fld op ''stream'') (JInt (int expected_stream)))
       (IntentError ''stream is not in the v1 execution order'')) (\<lambda>_.
     rbind (require (py_eq (fld op ''chunk_index'') (JInt (int expected_chunk)))
       (IntentError ''chunk_index is not in the v1 execution order'')) (\<lambda>_.
     rbind (require (py_eq (fld op ''kv_rank'') (JInt (int expected_rank)))
       (IntentError ''kv_rank is not in the v1 execution order'')) (\<lambda>_.
     rbind (require (py_eq (fld op ''stream_sequence'') (JInt (int (expected_chunk * ranks + expected_rank))))
       (IntentError ''stream_sequence disagrees with object identity'')) (\<lambda>_.
     rbind (require (case name of None \<Rightarrow> False | Some n \<Rightarrow> fld op ''logical_object'' = JStr n)
       (IntentError ''logical_object is not canonical'')) (\<lambda>_.
     rbind (require (py_eq (fld op ''payload_bytes'') (JInt payload))
       (IntentError ''payload_bytes disagrees with object payload'')) (\<lambda>_.
     require (fld op ''timed'' = JBool (warmup \<le> expected_pass))
       (IntentError ''timed disagrees with execution.warmup'')))))))))))"

definition v1_check_model :: "json \<Rightarrow> unit result" where
  "v1_check_model model =
     rbind (require (is_obj model \<and> nonempty_str (fld model ''name''))
       (IntentError ''model.name must be a non-empty string'')) (\<lambda>_.
     rbind (require (nonempty_str (fld model ''dtype'')) (IntentError ''model.dtype must be a non-empty string'')) (\<lambda>_.
     rbind (positive (fld model ''chunk_tokens'')) (\<lambda>_.
     require (is_obj (fld model ''geometry'')) (IntentError ''model.geometry must be an object''))))"

text \<open>The sizes a record declares: payload, ranks, chunks, streams, iterations and warmup passes.\<close>

definition v1_shape :: "json \<Rightarrow> (int \<times> nat \<times> nat \<times> nat \<times> nat \<times> nat) result" where
  "v1_shape intent =
     (let obj = fld intent ''object''; execution = fld intent ''execution'' in
     rbind (require (is_obj obj) (IntentError ''object must be an object'')) (\<lambda>_.
     rbind (positive (fld obj ''payload_bytes'')) (\<lambda>payload.
     rbind (nonnegative (fld obj ''store_metadata_bytes'')) (\<lambda>_.
     rbind (positive (fld obj ''ranks_per_chunk'')) (\<lambda>ranks.
     rbind (require (is_obj execution) (IntentError ''execution must be an object'')) (\<lambda>_.
     rbind (positive (fld execution ''num_chunks'')) (\<lambda>chunks.
     rbind (positive (fld execution ''streams'')) (\<lambda>streams.
     rbind (positive (fld execution ''iters'')) (\<lambda>iters.
     rbind (nonnegative (fld execution ''warmup'')) (\<lambda>warmup.
     rbind (require (py_eq (fld execution ''phase_order'') v1_phase_order)
       (IntentError ''execution.phase_order must be store, load'')) (\<lambda>_.
     rbind (require (py_eq (fld execution ''cross_stream_order'') (JStr ''unordered-within-phase''))
       (IntentError ''execution.cross_stream_order must preserve v1 partial ordering'')) (\<lambda>_.
     Inr (payload, nat ranks, nat chunks, nat streams, nat iters, nat warmup)))))))))))))"

definition validate_intent :: "json \<Rightarrow> unit result" where
  "validate_intent intent =
     rbind (require (is_obj intent) (IntentError ''intent root must be an object'')) (\<lambda>_.
     rbind (require (py_eq (fld intent ''schema'') (JStr V1_SCHEMA)) (IntentError ''unsupported intent schema'')) (\<lambda>_.
     rbind (require (py_eq (fld intent ''kind'') (JStr ''kv-offload'')) (IntentError ''intent kind must be kv-offload'')) (\<lambda>_.
     rbind (require (is_obj (fld intent ''evidence'') \<and> py_eq (fld intent ''evidence'') v1_evidence)
       (IntentError ''intent evidence must preserve the v1 modeled boundary'')) (\<lambda>_.
     rbind (v1_check_model (fld intent ''model'')) (\<lambda>_.
     rbind (v1_shape intent) (\<lambda>(payload, ranks, chunks, streams, iters, warmup).
     let operations = fld intent ''operations'' in
     rbind (require (is_list operations \<and>
              length (the_list operations) = (warmup + iters) * 2 * streams * chunks * ranks)
       (IntentError ''operations must contain exactly the expected entries'')) (\<lambda>_.
     mforall (v1_check_op payload streams chunks ranks warmup) (enumerate 0 (the_list operations)))))))))"

definition build_kv_offload_intent :: "v1_args \<Rightarrow> json result" where
  "build_kv_offload_intent a =
     rbind (positive (va_chunk_tokens a)) (\<lambda>_.
     rbind (positive (va_payload_bytes a)) (\<lambda>payload.
     rbind (positive (va_ranks_per_chunk a)) (\<lambda>ranks.
     rbind (positive (va_num_chunks a)) (\<lambda>chunks.
     rbind (positive (va_streams a)) (\<lambda>streams.
     rbind (positive (va_iters a)) (\<lambda>iters.
     rbind (nonnegative (va_store_metadata_bytes a)) (\<lambda>_.
     rbind (nonnegative (va_warmup a)) (\<lambda>warmup.
     let intent = v1_record a (map (v1_operation payload (nat ranks) (nat warmup))
           (enumerate 0 (v1_coords (nat warmup + nat iters) (nat streams) (nat chunks) (nat ranks)))) in
     rbind (validate_intent intent) (\<lambda>_. Inr intent)))))))))"

section \<open>Lowering\<close>

text \<open>
  Sizes after validation: a value that equals the declared payload counts as that integer. The
  \<open>while remaining\<close> loop is a partial function; \<open>None\<close> is a loop that does not end.
\<close>

definition int_value :: "json \<Rightarrow> int" where
  "int_value v = (case num_of v of Some (Finite q) \<Rightarrow> \<lfloor>q\<rfloor> | _ \<Rightarrow> 0)"

definition v1_command :: "json \<Rightarrow> string \<Rightarrow> int \<Rightarrow> int \<Rightarrow> int \<Rightarrow> json" where
  "v1_command op component index offset bytes = JObj [
     (''logical_sequence'', fld op ''sequence''), (''logical_object'', fld op ''logical_object''),
     (''op'', fld op ''phase''), (''component'', JStr component), (''command_index'', JInt index),
     (''component_offset_bytes'', JInt offset), (''bytes'', JInt bytes)]"

partial_function (option) v1_split ::
  "json \<Rightarrow> int \<Rightarrow> string \<Rightarrow> int \<Rightarrow> int \<Rightarrow> int \<Rightarrow> json list \<Rightarrow> (json list \<times> int) option" where
  "v1_split op effective component remaining offset index out =
     (if remaining = 0 then Some (out, index)
      else v1_split op effective component (remaining - min remaining effective)
             (offset + min remaining effective) (index + 1)
             (out @ [v1_command op component index offset (min remaining effective)]))"

declare v1_split.simps [code]

definition v1_components :: "json \<Rightarrow> json \<Rightarrow> (string \<times> int) list" where
  "v1_components intent op =
     (let meta = fld (fld intent ''object'') ''store_metadata_bytes'' in
      (if fld op ''phase'' = JStr ''store'' \<and> truthy meta then [(''metadata'', the_int meta)] else []) @
      [(''payload'', int_value (fld op ''payload_bytes''))])"

definition v1_lower_op :: "json \<Rightarrow> int \<Rightarrow> json list \<Rightarrow> json \<Rightarrow> json list result" where
  "v1_lower_op intent effective commands op =
     rbind (mfold (\<lambda>(out, index) (component, remaining).
              case v1_split op effective component remaining 0 index out of
                None \<Rightarrow> Inl Diverges | Some r \<Rightarrow> Inr r)
            (commands, 0) (v1_components intent op)) (\<lambda>(out, _). Inr out)"

definition v1_limits :: "json \<Rightarrow> json \<Rightarrow> json \<Rightarrow> (string \<times> int) list result" where
  "v1_limits mdts dma software =
     rbind (positive mdts) (\<lambda>m.
     rbind (if dma = JNull then Inr [] else rbind (positive dma) (\<lambda>d. Inr [(''dma_ceiling_bytes'', d)])) (\<lambda>ds.
     rbind (if software = JNull then Inr [] else rbind (positive software) (\<lambda>s. Inr [(''software_limit_bytes'', s)])) (\<lambda>ss.
     Inr ((''mdts_bytes'', m) # ds @ ss))))"

definition intent_sha256 :: "(json \<Rightarrow> string) \<Rightarrow> (string \<Rightarrow> string) \<Rightarrow> json \<Rightarrow> string result" where
  "intent_sha256 canon sha intent = rbind (validate_intent intent) (\<lambda>_. Inr (sha (canon intent)))"

definition lower_intent ::
  "(json \<Rightarrow> string) \<Rightarrow> (string \<Rightarrow> string) \<Rightarrow> json \<Rightarrow> json \<Rightarrow> json \<Rightarrow> json \<Rightarrow> json result" where
  "lower_intent canon sha intent mdts dma software =
     rbind (validate_intent intent) (\<lambda>_.
     rbind (v1_limits mdts dma software) (\<lambda>limits.
     let effective = Min (set (map snd limits)); ops = the_list (fld intent ''operations'') in
     rbind (mfold (v1_lower_op intent effective) [] ops) (\<lambda>commands.
     rbind (intent_sha256 canon sha intent) (\<lambda>digest.
     Inr (JObj [
       (''schema'', JStr PLAN_SCHEMA), (''intent_sha256'', JStr digest), (''evidence'', JStr PLAN_EVIDENCE),
       (''target_limits'', JObj (map (\<lambda>(k, n). (k, JInt n)) limits)),
       (''effective_command_bytes'', JInt effective),
       (''summary'', JObj [(''logical_operations'', JInt (int (length ops))),
          (''logical_bytes'', JInt (\<Sum>op\<leftarrow>ops. int_value (fld op ''payload_bytes''))),
          (''commands'', JInt (int (length commands)))]),
       (''commands'', JList commands)])))))"

definition validate_target_plan ::
  "(json \<Rightarrow> string) \<Rightarrow> (string \<Rightarrow> string) \<Rightarrow> json \<Rightarrow> json \<Rightarrow> unit result" where
  "validate_target_plan canon sha target_plan intent =
     rbind (require (is_obj target_plan \<and> py_eq (fld target_plan ''schema'') (JStr PLAN_SCHEMA))
       (IntentError ''target plan must use kvio.intent-plan.v1'')) (\<lambda>_.
     rbind (require (py_eq (fld target_plan ''evidence'') (JStr PLAN_EVIDENCE))
       (IntentError ''target plan must preserve the modeled evidence label'')) (\<lambda>_.
     rbind (intent_sha256 canon sha intent) (\<lambda>digest.
     rbind (require (py_eq (fld target_plan ''intent_sha256'') (JStr digest))
       (IntentError ''target plan does not bind to this intent'')) (\<lambda>_.
     let limits = fld target_plan ''target_limits'' in
     rbind (require (is_obj limits \<and>
              set (obj_keys limits) \<subseteq> {''mdts_bytes'', ''dma_ceiling_bytes'', ''software_limit_bytes''})
       (IntentError ''target plan has invalid target limits'')) (\<lambda>_.
     rbind (lower_intent canon sha intent (fld limits ''mdts_bytes'') (fld limits ''dma_ceiling_bytes'')
              (fld limits ''software_limit_bytes'')) (\<lambda>expected.
     require (py_eq target_plan expected)
       (IntentError ''target plan is not the exact lowering of this intent'')))))))"

section \<open>Carrying a v1 record into v2\<close>

record v1_carry =
  vc_v2 :: json
  vc_prev :: "int \<times> string \<times> int \<Rightarrow> string option"
  vc_stores :: "int \<Rightarrow> string list"
  vc_loads :: "int \<Rightarrow> string list"

text \<open>\<open>int(d.split("/")[1])\<close>, the sort key of a dependency.\<close>

definition v1_dep_key :: "string \<Rightarrow> int result" where
  "v1_dep_key d = (case split_on (CHR ''/'') d of
      _ # t # _ \<Rightarrow> if isdigit t then Inr (int (int_of_digits t)) else Inl (ValueError ''invalid literal for int'')
    | _ \<Rightarrow> Inl IndexError)"

definition v1_sorted_deps :: "string list \<Rightarrow> string list result" where
  "v1_sorted_deps deps =
     rbind (mmap (\<lambda>d. rbind (v1_dep_key d) (\<lambda>k. Inr (k, d))) (remdups deps)) (\<lambda>keyed.
     Inr (map snd (sort_key fst keyed)))"

definition v1_carry_deps :: "v1_carry \<Rightarrow> json \<Rightarrow> string list" where
  "v1_carry_deps st op1 =
     (let p = int_value (fld op1 ''pass''); phase = the_str (fld op1 ''phase''); s = int_value (fld op1 ''stream'') in
      (case vc_prev st (p, phase, s) of None \<Rightarrow> [] | Some d \<Rightarrow> [d]) @
      (if phase = ''load'' then vc_stores st p else if 0 < p then vc_loads st (p - 1) else []))"

definition v1_carry_op :: "v1_carry \<Rightarrow> json \<Rightarrow> v1_carry result" where
  "v1_carry_op st op1 =
     (let oid = the_str (fld op1 ''logical_object'');
          p = int_value (fld op1 ''pass''); phase = the_str (fld op1 ''phase''); s = int_value (fld op1 ''stream'');
          ps = the (py_str (fld op1 ''pass'')); ss = the (py_str (fld op1 ''stream''));
          op_id = ''v1/'' @ the (py_str (fld op1 ''sequence'')) in
      rbind (if has_key (fld (vc_v2 st) ''objects'') oid then Inr (vc_v2 st)
             else add_object_version (vc_v2 st) oid 1 ''v1-payload'') (\<lambda>v2.
      rbind (v1_sorted_deps (v1_carry_deps st op1)) (\<lambda>deps.
      rbind (add_operation v2 \<lparr>oa_op_id = op_id, oa_op = phase, oa_object_id = oid, oa_version = 1,
               oa_stream = JStr (''s'' @ ss), oa_deps = deps, oa_range = JNull,
               oa_batch_id = JStr (''pass'' @ ps @ ''/'' @ phase @ ''/s'' @ ss), oa_release_ns = JNull,
               oa_declared_delay_ns = JNull, oa_source_outcome = JNull, oa_requested_bytes = JNull\<rparr>) (\<lambda>v2'.
      let st' = st\<lparr>vc_v2 := v2', vc_prev := (vc_prev st)((p, phase, s) \<mapsto> op_id)\<rparr> in
      Inr (if phase = ''store'' then st'\<lparr>vc_stores := (vc_stores st)(p := vc_stores st p @ [op_id])\<rparr>
           else st'\<lparr>vc_loads := (vc_loads st)(p := vc_loads st p @ [op_id])\<rparr>)))))"

definition v1_start :: "json \<Rightarrow> string \<Rightarrow> json result" where
  "v1_start intent_v1 digest =
     (let obj = fld intent_v1 ''object'' in
      rbind (new_intent ''generated'' ''declared'' ''absent''
        (JObj [(''name'', JStr ''lmcache-raw_block''), (''revision'', JStr ''vendored''),
           (''layout'', JObj [(''store_metadata_bytes'', fld obj ''store_metadata_bytes''),
              (''ranks_per_chunk'', fld obj ''ranks_per_chunk'')])]) ''complete'' []
        [(''schema'', JStr V1_SCHEMA), (''sha256'', JStr digest), (''model'', fld intent_v1 ''model''),
         (''execution'', fld intent_v1 ''execution'')]) (\<lambda>v2.
      Inr (add_representation v2 ''v1-payload'' ''opaque'' (the_int (fld obj ''payload_bytes'')) JNull [])))"

definition v1_finish :: "json \<Rightarrow> json \<Rightarrow> json" where
  "v1_finish intent_v1 v2 =
     (let v2a = obj_set v2 ''health'' (JObj [(''source'', JStr ''generated''),
            (''emitted'', JInt (int (length (v2_operations v2)))), (''dropped'', JInt 0)]);
          prov = fld v2a ''provenance''; comp = fld prov ''completeness'';
          note = JStr (str_int (the_int (fld (fld intent_v1 ''execution'') ''streams'')) @
            '' streams; phase barriers and per-stream order carried as dependencies'') in
      obj_set v2a ''provenance'' (obj_set prov ''completeness''
        (obj_set comp ''notes'' (JList (the_list (fld comp ''notes'') @ [note])))))"

definition normalize_v1 :: "(json \<Rightarrow> string) \<Rightarrow> (string \<Rightarrow> string) \<Rightarrow> json \<Rightarrow> json result" where
  "normalize_v1 canon sha intent_v1 =
     rbind (validate_intent intent_v1) (\<lambda>_.
     rbind (intent_sha256 canon sha intent_v1) (\<lambda>digest.
     rbind (v1_start intent_v1 digest) (\<lambda>v2.
     rbind (mfold v1_carry_op \<lparr>vc_v2 = v2, vc_prev = Map.empty, vc_stores = (\<lambda>_. []), vc_loads = (\<lambda>_. [])\<rparr>
              (the_list (fld intent_v1 ''operations''))) (\<lambda>st.
     validate_intent2 (v1_finish intent_v1 (vc_v2 st))))))"

section \<open>The builder's order is the validator's\<close>

lemma length_concat_uniform:
  "\<forall>x\<in>set xs. length (f x) = m \<Longrightarrow> length (concat (map f xs)) = length xs * m"
  by (induction xs) auto

lemma nth_concat_uniform:
  assumes "\<forall>x\<in>set xs. length (f x) = m" "i < length xs * m"
  shows "concat (map f xs) ! i = f (xs ! (i div m)) ! (i mod m)"
  using assms
proof (induction xs arbitrary: i)
  case (Cons x xs)
  have m: "length (f x) = m" "0 < m"
    using Cons.prems by (auto intro: Nat.gr0I)
  show ?case
  proof (cases "i < m")
    case True
    then show ?thesis using m by (simp add: nth_append)
  next
    case False
    then have "concat (map f xs) ! (i - m) = f (xs ! ((i - m) div m)) ! ((i - m) mod m)"
      using Cons by (intro Cons.IH) auto
    moreover have "i div m = Suc ((i - m) div m)" "(i - m) mod m = i mod m"
      using False m by (simp_all add: le_div_geq le_mod_geq)
    ultimately show ?thesis
      using False m by (simp add: nth_append)
  qed
qed simp

lemma length_v1_coords: "length (v1_coords P S C R) = P * 2 * S * C * R"
proof -
  have "length (concat (map (\<lambda>p. concat (map (\<lambda>phase. concat (map (\<lambda>s. concat (map (\<lambda>c.
       map (\<lambda>r. (p, phase, s, c, r)) [0..<R]) [0..<C])) [0..<S])) [''store'', ''load''])) [0..<P])) =
     length [0..<P] * (length [''store'', ''load''] * (length [0..<S] * (length [0..<C] * R)))"
    by (intro length_concat_uniform ballI) simp
  then show ?thesis by (simp add: v1_coords_def algebra_simps)
qed

lemma nth_v1_coords:
  assumes "i < P * 2 * S * C * R"
  shows "v1_coords P S C R ! i =
    (i div (2 * S * C * R),
     if i mod (2 * S * C * R) < S * C * R then ''store'' else ''load'',
     i mod (2 * S * C * R) mod (S * C * R) div (C * R),
     i mod (2 * S * C * R) mod (S * C * R) mod (C * R) div R,
     i mod (2 * S * C * R) mod (S * C * R) mod (C * R) mod R)"
proof -
  define w where "w = i mod (2 * S * C * R)"
  define v where "v = w mod (S * C * R)"
  define u where "u = v mod (C * R)"
  have pos: "0 < S" "0 < C" "0 < R"
    using assms by (auto intro: Nat.gr0I)
  have w: "w < 2 * (S * (C * R))" and v: "v < S * (C * R)" and u: "u < C * R"
    using pos by (auto simp: w_def v_def u_def mult.assoc)
  have len: "length (concat (map (\<lambda>c. map (\<lambda>r. (p, phase, s, c, r)) [0..<R]) [0..<C])) = C * R"
    "length (concat (map (\<lambda>s. concat (map (\<lambda>c. map (\<lambda>r. (p, phase, s, c, r)) [0..<R]) [0..<C])) [0..<S])) = S * (C * R)"
    for p s :: nat and phase :: string
    by (simp_all add: length_concat comp_def sum_list_triv)
  have ranks: "concat (map (\<lambda>c. map (\<lambda>r. (p, phase, s, c, r)) [0..<R]) [0..<C]) ! u =
      (p, phase, s, u div R, u mod R)" for p s :: nat and phase :: string
    using u pos by (subst nth_concat_uniform [where m = R]) (auto simp: less_mult_imp_div_less)
  have streams: "concat (map (\<lambda>s. concat (map (\<lambda>c. map (\<lambda>r. (p, phase, s, c, r)) [0..<R]) [0..<C])) [0..<S]) ! v =
      (p, phase, v div (C * R), u div R, u mod R)" for p :: nat and phase :: string
    using v by (subst nth_concat_uniform [where m = "C * R"])
      (auto simp: len u_def [symmetric] ranks less_mult_imp_div_less)
  have phases: "concat (map (\<lambda>phase. concat (map (\<lambda>s. concat (map (\<lambda>c.
       map (\<lambda>r. (p, phase, s, c, r)) [0..<R]) [0..<C])) [0..<S])) [''store'', ''load'']) ! w =
      (p, if w < S * C * R then ''store'' else ''load'', v div (C * R), u div R, u mod R)" for p :: nat
  proof -
    have "[''store'', ''load''] ! (w div (S * (C * R))) = (if w < S * C * R then ''store'' else ''load'')"
    proof (cases "w < S * C * R")
      case False
      then have "w div (S * (C * R)) = 1"
        using w by (intro div_nat_eqI) (auto simp: mult.assoc)
      with False show ?thesis by simp
    qed (simp add: mult.assoc)
    then show ?thesis
      using w by (subst nth_concat_uniform [where m = "S * (C * R)"])
        (auto simp: len v_def [symmetric] streams mult.assoc [symmetric] mult_2 [symmetric])
  qed
  define F where "F = (\<lambda>p :: nat. concat (map (\<lambda>phase. concat (map (\<lambda>s. concat (map (\<lambda>c.
       map (\<lambda>r. (p, phase, s, c, r)) [0..<R]) [0..<C])) [0..<S])) [''store'', ''load'']))"
  have "v1_coords P S C R ! i = F ([0..<P] ! (i div (2 * S * C * R))) ! w"
    unfolding v1_coords_def F_def [symmetric] w_def
    by (rule nth_concat_uniform) (use assms in \<open>auto simp: F_def len algebra_simps\<close>)
  also have "[0..<P] ! (i div (2 * S * C * R)) = i div (2 * S * C * R)"
    using assms by (simp add: less_mult_imp_div_less mult.assoc)
  finally have "v1_coords P S C R ! i = (i div (2 * S * C * R), if w < S * C * R then ''store'' else ''load'',
      v div (C * R), u div R, u mod R)"
    unfolding F_def phases .
  then show ?thesis
    by (simp add: w_def v_def u_def)
qed

lemma v1_built_op_ok:
  assumes "i < P * 2 * S * C * R"
  shows "v1_check_op payload S C R W (i, v1_operation payload R W (i, v1_coords P S C R ! i)) = Inr ()"
  unfolding nth_v1_coords [OF assms] v1_operation_def v1_check_op_def Let_def
  by (simp add: num_eq_def flip: of_nat_mult of_nat_add)

definition pos_int :: "json \<Rightarrow> bool" where
  "pos_int v \<longleftrightarrow> is_int v \<and> 0 < the_int v"

definition v1_args_ok :: "v1_args \<Rightarrow> bool" where
  "v1_args_ok a \<longleftrightarrow> pos_int (va_chunk_tokens a) \<and> pos_int (va_payload_bytes a) \<and>
     pos_int (va_ranks_per_chunk a) \<and> pos_int (va_num_chunks a) \<and> pos_int (va_streams a) \<and>
     pos_int (va_iters a) \<and> is_int (va_store_metadata_bytes a) \<and> 0 \<le> the_int (va_store_metadata_bytes a) \<and>
     is_int (va_warmup a) \<and> 0 \<le> the_int (va_warmup a) \<and>
     va_model a \<noteq> [] \<and> va_dtype a \<noteq> [] \<and> is_obj (va_geometry a)"

lemma positive_Inr_iff [result_simps]: "positive v = Inr i \<longleftrightarrow> pos_int v \<and> i = the_int v"
  by (auto simp: positive_def pos_int_def)

lemma nonnegative_Inr_iff [result_simps]: "nonnegative v = Inr i \<longleftrightarrow> is_int v \<and> 0 \<le> the_int v \<and> i = the_int v"
  by (auto simp: nonnegative_def)

lemma v1_literals: "py_eq v1_evidence v1_evidence" "py_eq v1_phase_order v1_phase_order" "is_obj v1_evidence"
  by (simp_all add: v1_evidence_def v1_phase_order_def)

lemma v1_record_accepted:
  assumes "v1_args_ok a"
    and "P = nat (the_int (va_warmup a)) + nat (the_int (va_iters a))"
  shows "validate_intent (v1_record a (map (v1_operation (the_int (va_payload_bytes a))
      (nat (the_int (va_ranks_per_chunk a))) (nat (the_int (va_warmup a))))
      (enumerate 0 (v1_coords P (nat (the_int (va_streams a))) (nat (the_int (va_num_chunks a)))
        (nat (the_int (va_ranks_per_chunk a))))))) = Inr ()"
    (is "validate_intent (v1_record a ?ops) = _")
proof -
  define S C R W where "S = nat (the_int (va_streams a))" and "C = nat (the_int (va_num_chunks a))"
    and "R = nat (the_int (va_ranks_per_chunk a))" and "W = nat (the_int (va_warmup a))"
  note shape = S_def [symmetric] C_def [symmetric] R_def [symmetric] W_def [symmetric]
  have "v1_shape (v1_record a ?ops) = Inr (the_int (va_payload_bytes a), R, C, S, nat (the_int (va_iters a)), W)"
    using assms(1) by (simp add: v1_shape_def v1_record_def v1_args_ok_def Let_def pos_int_def positive_def
        nonnegative_def v1_literals shape)
  moreover have "v1_check_model (fld (v1_record a ?ops) ''model'') = Inr ()"
    using assms(1) by (simp add: v1_check_model_def v1_record_def v1_args_ok_def pos_int_def positive_def)
  moreover have "mforall (v1_check_op (the_int (va_payload_bytes a)) S C R W) (enumerate 0 ?ops) = Inr ()"
    unfolding mforall_Inr_iff shape
    by (auto simp: in_set_enumerate_eq length_v1_coords nth_enumerate_eq v1_built_op_ok)
  ultimately show ?thesis
    unfolding validate_intent_def shape
    by (simp add: v1_record_def v1_literals length_v1_coords assms(2) W_def mult.assoc Let_def)
qed

lemma build_accepted:
  assumes "v1_args_ok a"
  shows "\<exists>intent. build_kv_offload_intent a = Inr intent \<and> validate_intent intent = Inr () \<and>
    length (the_list (fld intent ''operations'')) =
      (nat (the_int (va_warmup a)) + nat (the_int (va_iters a))) * 2 * nat (the_int (va_streams a)) *
        nat (the_int (va_num_chunks a)) * nat (the_int (va_ranks_per_chunk a))"
proof -
  note ok = v1_record_accepted [OF assms refl]
  show ?thesis
    unfolding build_kv_offload_intent_def Let_def
    using assms ok by (auto simp: v1_args_ok_def pos_int_def positive_def nonnegative_def v1_record_def length_v1_coords)
qed

lemma build_Inr_args:
  assumes "build_kv_offload_intent a = Inr intent"
  shows "v1_args_ok a"
  using assms unfolding build_kv_offload_intent_def Let_def rbind_Inr_iff positive_Inr_iff nonnegative_Inr_iff
  by (auto simp: validate_intent_def v1_record_def v1_check_model_def v1_args_ok_def rbind_Inr_iff require_Inr_iff)

section \<open>The lowering tiles every component\<close>

text \<open>
  The commands of one component, in closed form: full-size fragments and the rest.
\<close>

definition v1_count :: "int \<Rightarrow> int \<Rightarrow> nat" where
  "v1_count effective amount = nat ((amount + effective - 1) div effective)"

definition v1_run :: "json \<Rightarrow> int \<Rightarrow> string \<Rightarrow> int \<Rightarrow> int \<Rightarrow> json list" where
  "v1_run op effective component amount index =
     map (\<lambda>k. v1_command op component (index + int k) (int k * effective)
                (min effective (amount - int k * effective))) [0..<v1_count effective amount]"

lemma v1_count_step:
  assumes "0 < effective" "0 < amount"
  shows "v1_count effective amount = Suc (v1_count effective (amount - min amount effective))"
proof -
  have *: "(amount + effective - 1) div effective = (amount - 1) div effective + 1"
    using assms(1) by (simp add: add.commute [of amount] add_diff_eq [symmetric] div_add_self1)
  show ?thesis
  proof (cases "amount \<le> effective")
    case True
    then have "(amount - 1) div effective = 0" "(effective - 1) div effective = 0"
      using assms by (auto intro!: div_pos_pos_trivial)
    with True show ?thesis
      unfolding v1_count_def * by simp
  next
    case False
    then have "0 \<le> (amount - 1) div effective"
      using assms by (intro pos_imp_zdiv_nonneg_iff [THEN iffD2]) auto
    with False show ?thesis
      unfolding v1_count_def * by (simp add: Suc_nat_eq_nat_zadd1 add.commute)
  qed
qed

lemma v1_split_eq:
  assumes "0 < effective" "0 \<le> remaining"
  shows "v1_split op effective component remaining offset index out =
    Some (out @ map (\<lambda>k. v1_command op component (index + int k) (offset + int k * effective)
                (min effective (remaining - int k * effective))) [0..<v1_count effective remaining],
          index + int (v1_count effective remaining))"
  using assms(2)
proof (induction "nat remaining" arbitrary: remaining offset index out rule: less_induct)
  case less
  show ?case
  proof (cases "remaining = 0")
    case True
    then show ?thesis
      using assms(1) by (subst v1_split.simps) (simp add: v1_count_def div_pos_pos_trivial)
  next
    case False
    define m where "m = min remaining effective"
    have m: "0 < m" "m \<le> remaining" "m \<le> effective"
      using False less.prems assms(1) by (auto simp: m_def)
    define f where "f = (\<lambda>i off rem k. v1_command op component (i + int k) (off + int k * effective)
                (min effective (rem - int k * effective)))"
    have count: "v1_count effective remaining = Suc (v1_count effective (remaining - m))"
      unfolding m_def using False less.prems assms(1) by (intro v1_count_step) auto
    have tail: "f (index + 1) (offset + m) (remaining - m) k = f index offset remaining (Suc k)"
      if "k < v1_count effective (remaining - m)" for k
    proof -
      have "m = effective"
        using that less.prems assms(1) div_pos_pos_trivial [of "effective - 1" effective]
        by (auto simp: m_def min_def v1_count_def split: if_splits)
      then show ?thesis by (simp add: f_def algebra_simps)
    qed
    have "v1_split op effective component remaining offset index out =
        v1_split op effective component (remaining - m) (offset + m) (index + 1)
          (out @ [v1_command op component index offset m])"
      using False by (subst v1_split.simps) (simp add: m_def)
    also have "\<dots> = Some ((out @ [v1_command op component index offset m]) @
        map (f (index + 1) (offset + m) (remaining - m)) [0..<v1_count effective (remaining - m)],
          index + 1 + int (v1_count effective (remaining - m)))"
      unfolding f_def using m by (intro less.hyps) auto
    also have "v1_command op component index offset m = f index offset remaining 0"
      by (simp add: f_def m_def min.commute)
    also have "map (f (index + 1) (offset + m) (remaining - m)) [0..<v1_count effective (remaining - m)] =
        map (\<lambda>k. f index offset remaining (Suc k)) [0..<v1_count effective (remaining - m)]"
      using tail by simp
    finally show ?thesis
      unfolding count by (simp add: f_def upt_conv_Cons map_Suc_upt [symmetric] comp_def del: upt_Suc)
  qed
qed

fun v1_runs :: "json \<Rightarrow> int \<Rightarrow> (string \<times> int) list \<Rightarrow> int \<Rightarrow> json list" where
  "v1_runs op effective [] index = []"
| "v1_runs op effective ((component, amount) # cs) index =
     v1_run op effective component amount index @
     v1_runs op effective cs (index + int (v1_count effective amount))"

lemma v1_runs_fold:
  assumes "0 < effective" "\<forall>(component, amount)\<in>set cs. 0 \<le> amount"
  shows "\<exists>n. mfold (\<lambda>(out, index) (component, remaining).
              case v1_split op effective component remaining 0 index out of
                None \<Rightarrow> Inl Diverges | Some r \<Rightarrow> Inr r) (out, index) cs =
           Inr (out @ v1_runs op effective cs index, n)"
  using assms(2)
proof (induction cs arbitrary: out index)
  case (Cons c cs)
  obtain component amount where c: "c = (component, amount)" by (cases c)
  have "v1_split op effective component amount 0 index out =
      Some (out @ v1_run op effective component amount index, index + int (v1_count effective amount))"
    using v1_split_eq [OF assms(1), of amount op component 0 index out] Cons.prems
    by (simp add: c v1_run_def)
  moreover note Cons.IH [of "out @ v1_run op effective component amount index"
      "index + int (v1_count effective amount)"]
  ultimately show ?case
    using Cons.prems by (simp add: c)
qed simp

lemma v1_lower_ops:
  assumes "0 < effective" "\<forall>op\<in>set ops. \<forall>(component, amount)\<in>set (v1_components intent op). 0 \<le> amount"
  shows "mfold (v1_lower_op intent effective) out ops =
    Inr (out @ concat (map (\<lambda>op. v1_runs op effective (v1_components intent op) 0) ops))"
  using assms(2)
proof (induction ops arbitrary: out)
  case (Cons op ops)
  have "v1_lower_op intent effective out op = Inr (out @ v1_runs op effective (v1_components intent op) 0)"
    using v1_runs_fold [OF assms(1), of "v1_components intent op" op out 0] Cons.prems
    by (auto simp: v1_lower_op_def)
  then show ?case using Cons by simp
qed simp

text \<open>Consecutive pieces (offset, size) that cover the range from \<open>a\<close> to \<open>b\<close>.\<close>

fun tiles :: "int \<Rightarrow> (int \<times> int) list \<Rightarrow> int \<Rightarrow> bool" where
  "tiles a [] b \<longleftrightarrow> a = b"
| "tiles a ((off, n) # xs) b \<longleftrightarrow> off = a \<and> 0 < n \<and> tiles (a + n) xs b"

lemma tiles_pieces:
  assumes "0 < effective" "0 \<le> amount"
  shows "tiles a (map (\<lambda>k. (a + int k * effective, min effective (amount - int k * effective)))
     [0..<v1_count effective amount]) (a + amount)"
  using assms(2)
proof (induction "nat amount" arbitrary: amount a rule: less_induct)
  case less
  show ?case
  proof (cases "amount = 0")
    case True
    then show ?thesis
      using assms(1) by (simp add: v1_count_def div_pos_pos_trivial)
  next
    case False
    define m where "m = min amount effective"
    have m: "0 < m" "m \<le> amount" "m \<le> effective"
      using False less.prems assms(1) by (auto simp: m_def)
    have count: "v1_count effective amount = Suc (v1_count effective (amount - m))"
      unfolding m_def using False less.prems assms(1) by (intro v1_count_step) auto
    have "m = effective" if "0 < v1_count effective (amount - m)"
      using that less.prems assms(1) div_pos_pos_trivial [of "effective - 1" effective]
      by (auto simp: m_def min_def v1_count_def split: if_splits)
    then have rest: "map (\<lambda>k. (a + int (Suc k) * effective, min effective (amount - int (Suc k) * effective)))
        [0..<v1_count effective (amount - m)] =
      map (\<lambda>k. ((a + m) + int k * effective, min effective ((amount - m) - int k * effective)))
        [0..<v1_count effective (amount - m)]"
      by (cases "v1_count effective (amount - m) = 0") (simp_all add: algebra_simps)
    have "tiles (a + m) (map (\<lambda>k. ((a + m) + int k * effective, min effective ((amount - m) - int k * effective)))
        [0..<v1_count effective (amount - m)]) ((a + m) + (amount - m))"
      using m by (intro less.hyps) auto
    then show ?thesis
      unfolding count upt_conv_Cons [OF zero_less_Suc] map_Suc_upt [symmetric] list.map map_map comp_def rest
      using m by (simp add: m_def min.commute)
  qed
qed

lemma v1_command_simps [simp]:
  "fld (v1_command op component index offset bytes) ''component'' = JStr component"
  "fld (v1_command op component index offset bytes) ''component_offset_bytes'' = JInt offset"
  "fld (v1_command op component index offset bytes) ''bytes'' = JInt bytes"
  "fld (v1_command op component index offset bytes) ''command_index'' = JInt index"
  "fld (v1_command op component index offset bytes) ''logical_object'' = fld op ''logical_object''"
  "fld (v1_command op component index offset bytes) ''op'' = fld op ''phase''"
  by (simp_all add: v1_command_def)

definition v1_piece :: "json \<Rightarrow> int \<times> int" where
  "v1_piece c = (the_int (fld c ''component_offset_bytes''), the_int (fld c ''bytes''))"

definition v1_pieces :: "json list \<Rightarrow> string \<Rightarrow> (int \<times> int) list" where
  "v1_pieces cs component = map v1_piece (filter (\<lambda>c. fld c ''component'' = JStr component) cs)"

lemma v1_pieces_run:
  "v1_pieces (v1_run op effective component amount index) name =
     (if component = name then map (\<lambda>k. (int k * effective, min effective (amount - int k * effective)))
        [0..<v1_count effective amount] else [])"
  by (auto simp: v1_pieces_def v1_run_def filter_map comp_def v1_piece_def)

lemma v1_pieces_append: "v1_pieces (xs @ ys) name = v1_pieces xs name @ v1_pieces ys name"
  by (simp add: v1_pieces_def)

lemma validate_intent_Inr:
  assumes "validate_intent intent = Inr ()"
  obtains payload R C S I W where "v1_shape intent = Inr (payload, R, C, S, I, W)"
    "is_list (fld intent ''operations'')"
    "length (the_list (fld intent ''operations'')) = (W + I) * 2 * S * C * R"
    "\<forall>i<length (the_list (fld intent ''operations'')).
       v1_check_op payload S C R W (i, the_list (fld intent ''operations'') ! i) = Inr ()"
proof -
  obtain sh where sh: "v1_shape intent = Inr sh"
    "(case sh of (payload, R, C, S, I, W) \<Rightarrow>
       is_list (fld intent ''operations'') \<and>
       length (the_list (fld intent ''operations'')) = (W + I) * 2 * S * C * R \<and>
       mforall (v1_check_op payload S C R W) (enumerate 0 (the_list (fld intent ''operations''))) = Inr ())"
    using assms unfolding validate_intent_def Let_def rbind_Inr_iff require_Inr_iff
    by (elim exE conjE) (simp only: prod.case_eq_if rbind_Inr_iff require_Inr_iff, blast)
  obtain payload R C S I W where "sh = (payload, R, C, S, I, W)"
    by (metis prod.collapse)
  with sh that show ?thesis
    by (simp add: mforall_Inr_iff in_set_enumerate_eq)
qed

lemma v1_shape_Inr:
  assumes "v1_shape intent = Inr (payload, R, C, S, I, W)"
  shows "0 < payload" "0 < R" "0 < C" "0 < S" "0 < I" "fld (fld intent ''object'') ''payload_bytes'' = JInt payload"
    "\<exists>m\<ge>0. fld (fld intent ''object'') ''store_metadata_bytes'' = JInt m"
proof -
  have *: "0 < payload \<and> 0 < R \<and> 0 < C \<and> 0 < S \<and> 0 < I \<and>
      is_int (fld (fld intent ''object'') ''payload_bytes'') \<and>
      payload = the_int (fld (fld intent ''object'') ''payload_bytes'') \<and>
      is_int (fld (fld intent ''object'') ''store_metadata_bytes'') \<and>
      0 \<le> the_int (fld (fld intent ''object'') ''store_metadata_bytes'')"
    using assms
    unfolding v1_shape_def Let_def rbind_Inr_iff require_Inr_iff positive_Inr_iff nonnegative_Inr_iff pos_int_def
    apply (elim exE conjE)
    apply (drule sum.inject(2) [THEN iffD1])
    apply (simp only: prod.inject)
    apply (elim conjE)
    apply hypsubst
    apply (intro conjI)
            apply (assumption | simp only: zero_less_nat_eq refl)+
    done
  then show "0 < payload" "0 < R" "0 < C" "0 < S" "0 < I"
    by blast+
  show "fld (fld intent ''object'') ''payload_bytes'' = JInt payload"
    "\<exists>m\<ge>0. fld (fld intent ''object'') ''store_metadata_bytes'' = JInt m"
    using * unfolding is_int_iff by auto
qed

lemma v1_check_op_Inr:
  assumes "v1_check_op payload S C R W (i, op) = Inr ()"
  shows "is_obj op" "py_eq (fld op ''sequence'') (JInt (int i))"
    "fld op ''phase'' = JStr (if i mod (2 * S * C * R) < S * C * R then ''store'' else ''load'')"
    "int_value (fld op ''pass'') = int (i div (2 * S * C * R))"
    "int_value (fld op ''stream'') = int (i mod (2 * S * C * R) mod (S * C * R) div (C * R))"
    "int_value (fld op ''payload_bytes'') = payload" "\<exists>n. fld op ''logical_object'' = JStr n"
  using assms unfolding v1_check_op_def Let_def prod.case rbind_Inr_iff require_Inr_iff
  by (auto simp: py_eq_JInt_iff int_value_def split: option.splits simp del: of_nat_mult of_nat_add)

lemma v1_components_ok:
  assumes "validate_intent intent = Inr ()" "op \<in> set (the_list (fld intent ''operations''))"
  shows "(component, amount) \<in> set (v1_components intent op) \<Longrightarrow> 0 < amount"
    "distinct (map fst (v1_components intent op))"
proof -
  obtain payload R C S I W where *: "v1_shape intent = Inr (payload, R, C, S, I, W)"
    "\<forall>i<length (the_list (fld intent ''operations'')).
       v1_check_op payload S C R W (i, the_list (fld intent ''operations'') ! i) = Inr ()"
    using assms(1) by (rule validate_intent_Inr)
  obtain i where "i < length (the_list (fld intent ''operations''))" "op = the_list (fld intent ''operations'') ! i"
    using assms(2) by (auto simp: in_set_conv_nth)
  then have "int_value (fld op ''payload_bytes'') = payload"
    using v1_check_op_Inr(6) [OF * (2) [rule_format]] by simp
  moreover note v1_shape_Inr [OF * (1)]
  ultimately show "(component, amount) \<in> set (v1_components intent op) \<Longrightarrow> 0 < amount"
    "distinct (map fst (v1_components intent op))"
    by (auto simp: v1_components_def Let_def split: if_splits)
qed

text \<open>What the commands of one operation are required to be.\<close>

definition v1_covers :: "json \<Rightarrow> int \<Rightarrow> json \<Rightarrow> json list \<Rightarrow> bool" where
  "v1_covers intent effective op cs \<longleftrightarrow>
     (\<forall>(component, amount)\<in>set (v1_components intent op). tiles 0 (v1_pieces cs component) amount) \<and>
     (\<forall>c\<in>set cs. \<exists>component\<in>fst ` set (v1_components intent op). fld c ''component'' = JStr component) \<and>
     (\<forall>c\<in>set cs. the_int (fld c ''bytes'') \<le> effective \<and> fld c ''logical_object'' = fld op ''logical_object'' \<and>
        fld c ''op'' = fld op ''phase'') \<and>
     (\<forall>k<length cs. fld (cs ! k) ''command_index'' = JInt (int k))"

lemma v1_runs_props:
  assumes "0 < effective" "\<forall>(component, amount)\<in>set comps. 0 < amount" "distinct (map fst comps)"
  shows "(\<forall>(component, amount)\<in>set comps. tiles 0 (v1_pieces (v1_runs op effective comps index) component) amount) \<and>
     (\<forall>c\<in>set (v1_runs op effective comps index). \<exists>component\<in>fst ` set comps. fld c ''component'' = JStr component) \<and>
     (\<forall>c\<in>set (v1_runs op effective comps index). the_int (fld c ''bytes'') \<le> effective \<and>
        fld c ''logical_object'' = fld op ''logical_object'' \<and> fld c ''op'' = fld op ''phase'') \<and>
     (\<forall>k<length (v1_runs op effective comps index).
        fld (v1_runs op effective comps index ! k) ''command_index'' = JInt (index + int k))"
  using assms(2,3)
proof (induction comps arbitrary: index)
  case (Cons c comps)
  obtain component amount where c: "c = (component, amount)" by (cases c)
  define rest where "rest = v1_runs op effective comps (index + int (v1_count effective amount))"
  note IH = Cons.IH [of "index + int (v1_count effective amount)", folded rest_def]
  have IH: "\<forall>(component, amount)\<in>set comps. tiles 0 (v1_pieces rest component) amount"
    "\<forall>c\<in>set rest. \<exists>component\<in>fst ` set comps. fld c ''component'' = JStr component"
    "\<forall>c\<in>set rest. the_int (fld c ''bytes'') \<le> effective \<and>
        fld c ''logical_object'' = fld op ''logical_object'' \<and> fld c ''op'' = fld op ''phase''"
    "\<forall>k<length rest. fld (rest ! k) ''command_index'' = JInt (index + int (v1_count effective amount) + int k)"
    using IH Cons.prems by (auto simp: c)
  have none: "v1_pieces rest component = []"
    using IH(2) Cons.prems(2) by (force simp: v1_pieces_def filter_empty_conv c)
  have own: "tiles 0 (v1_pieces (v1_run op effective component amount index) component) amount"
    using tiles_pieces [OF assms(1), of amount 0] Cons.prems(1) by (simp add: v1_pieces_run c)
  have other: "v1_pieces (v1_run op effective component amount index) name = []" if "name \<in> fst ` set comps" for name
    using that Cons.prems(2) by (auto simp: v1_pieces_run c)
  have len: "length (v1_run op effective component amount index) = v1_count effective amount"
    by (simp add: v1_run_def)
  define own_run where "own_run = v1_run op effective component amount index"
  have run: "fld c ''component'' = JStr component \<and> the_int (fld c ''bytes'') \<le> effective \<and>
      fld c ''logical_object'' = fld op ''logical_object'' \<and> fld c ''op'' = fld op ''phase''" if "c \<in> set own_run" for c
    using that by (auto simp: v1_run_def own_run_def)
  have index: "fld ((own_run @ rest) ! k) ''command_index'' = JInt (index + int k)"
    if "k < length (own_run @ rest)" for k
    using that IH(4) [rule_format, of "k - v1_count effective amount"]
    by (cases "k < v1_count effective amount") (simp_all add: nth_append len own_run_def, simp add: v1_run_def)
  have "tiles 0 (v1_pieces (own_run @ rest) name) n" if "(name, n) \<in> set (c # comps)" for name n
    using that IH(1) other [of name] none own by (force simp: v1_pieces_append c own_run_def)
  moreover have "v1_runs op effective (c # comps) index = own_run @ rest"
    by (simp add: c own_run_def rest_def)
  ultimately show ?case
    using run index IH(2,3) by (auto simp: c)
qed simp

lemma v1_limits_shape:
  assumes "v1_limits mdts dma software = Inr limits"
  obtains m ds ss where "limits = (''mdts_bytes'', m) # ds @ ss" "0 < m"
    "ds = [] \<or> (\<exists>d>0. ds = [(''dma_ceiling_bytes'', d)])" "ss = [] \<or> (\<exists>d>0. ss = [(''software_limit_bytes'', d)])"
proof -
  obtain m ds ss where *: "limits = (''mdts_bytes'', m) # ds @ ss" "positive mdts = Inr m"
    "(if dma = JNull then Inr [] else rbind (positive dma) (\<lambda>d. Inr [(''dma_ceiling_bytes'', d)])) = Inr ds"
    "(if software = JNull then Inr [] else rbind (positive software) (\<lambda>s. Inr [(''software_limit_bytes'', s)])) = Inr ss"
    using assms unfolding v1_limits_def rbind_Inr_iff by blast
  have pos: "positive v = Inr i \<Longrightarrow> 0 < i" for v i
    by (simp add: positive_Inr_iff pos_int_def)
  have "ds = [] \<or> (\<exists>d>0. ds = [(''dma_ceiling_bytes'', d)])"
    using * (3) pos by (cases "dma = JNull") (auto simp: rbind_Inr_iff)
  moreover have "ss = [] \<or> (\<exists>d>0. ss = [(''software_limit_bytes'', d)])"
    using * (4) pos by (cases "software = JNull") (auto simp: rbind_Inr_iff)
  ultimately show ?thesis
    using that * (1) pos [OF * (2)] by blast
qed

lemma v1_limits_Inr:
  assumes "v1_limits mdts dma software = Inr limits"
  shows "limits \<noteq> []" "\<forall>n\<in>snd ` set limits. 0 < n"
    "v1_limits (fld (JObj (map (\<lambda>(k, n). (k, JInt n)) limits)) ''mdts_bytes'')
       (fld (JObj (map (\<lambda>(k, n). (k, JInt n)) limits)) ''dma_ceiling_bytes'')
       (fld (JObj (map (\<lambda>(k, n). (k, JInt n)) limits)) ''software_limit_bytes'') = Inr limits"
    "fst ` set limits \<subseteq> {''mdts_bytes'', ''dma_ceiling_bytes'', ''software_limit_bytes''}" "distinct (map fst limits)"
  using assms
  by (rule v1_limits_shape; elim disjE; clarsimp simp: v1_limits_def positive_def)+

definition v1_plan :: "(json \<Rightarrow> string) \<Rightarrow> (string \<Rightarrow> string) \<Rightarrow> json \<Rightarrow> (string \<times> int) list \<Rightarrow> json" where
  "v1_plan canon sha intent limits =
     (let effective = Min (set (map snd limits)); ops = the_list (fld intent ''operations'');
          commands = concat (map (\<lambda>op. v1_runs op effective (v1_components intent op) 0) ops) in
      JObj [(''schema'', JStr PLAN_SCHEMA), (''intent_sha256'', JStr (sha (canon intent))), (''evidence'', JStr PLAN_EVIDENCE),
       (''target_limits'', JObj (map (\<lambda>(k, n). (k, JInt n)) limits)),
       (''effective_command_bytes'', JInt effective),
       (''summary'', JObj [(''logical_operations'', JInt (int (length ops))),
          (''logical_bytes'', JInt (\<Sum>op\<leftarrow>ops. int_value (fld op ''payload_bytes''))),
          (''commands'', JInt (int (length commands)))]),
       (''commands'', JList commands)])"

lemma lower_intent_eq:
  assumes "validate_intent intent = Inr ()" "v1_limits mdts dma software = Inr limits"
  shows "lower_intent canon sha intent mdts dma software = Inr (v1_plan canon sha intent limits)"
proof -
  note limits = v1_limits_Inr [OF assms(2)]
  have pos: "0 < Min (snd ` set limits)"
    using limits(1,2) by (subst Min_gr_iff) auto
  have "\<forall>op\<in>set (the_list (fld intent ''operations'')).
      \<forall>(component, amount)\<in>set (v1_components intent op). 0 \<le> amount"
    using v1_components_ok(1) [OF assms(1)] by fastforce
  note ops = v1_lower_ops [OF pos this, of "[]"]
  show ?thesis
    by (simp add: lower_intent_def assms intent_sha256_def v1_plan_def Let_def ops)
qed

lemma v1_plan_covers:
  assumes "validate_intent intent = Inr ()" "v1_limits mdts dma software = Inr limits"
    and "op \<in> set (the_list (fld intent ''operations''))"
  shows "v1_covers intent (Min (snd ` set limits)) op (v1_runs op (Min (snd ` set limits)) (v1_components intent op) 0)"
proof -
  have pos: "0 < Min (snd ` set limits)"
    using v1_limits_Inr(1,2) [OF assms(2)] by (subst Min_gr_iff) auto
  have "\<forall>(component, amount)\<in>set (v1_components intent op). 0 < amount"
    using v1_components_ok(1) [OF assms(1,3)] by blast
  from v1_runs_props [OF pos this v1_components_ok(2) [OF assms(1,3)], of op 0] show ?thesis
    unfolding v1_covers_def by simp
qed

lemma v1_command_wf:
  assumes "v1_check_op payload S C R W (i, op) = Inr ()"
  shows "json_wf (v1_command op component index offset bytes)" "no_nan (v1_command op component index offset bytes)"
proof -
  have "json_wf (fld op ''sequence'')" "no_nan (fld op ''sequence'')"
    using v1_check_op_Inr(2) [OF assms] by (cases "fld op ''sequence''"; simp add: py_eq_JInt_iff; force)+
  then show "json_wf (v1_command op component index offset bytes)" "no_nan (v1_command op component index offset bytes)"
    using v1_check_op_Inr(3,7) [OF assms] by (auto simp: v1_command_def)
qed

lemma v1_runs_commands:
  "c \<in> set (v1_runs op effective comps index) \<Longrightarrow> \<exists>component i off bytes. c = v1_command op component i off bytes"
  by (induction comps arbitrary: index) (auto simp: v1_run_def, blast)

lemma v1_plan_refl:
  assumes "validate_intent intent = Inr ()" "v1_limits mdts dma software = Inr limits"
  shows "py_eq (v1_plan canon sha intent limits) (v1_plan canon sha intent limits)"
proof (rule py_eq_refl)
  obtain payload R C S I W where ok: "\<forall>i<length (the_list (fld intent ''operations'')).
       v1_check_op payload S C R W (i, the_list (fld intent ''operations'') ! i) = Inr ()"
    using assms(1) by (rule validate_intent_Inr)
  have "json_wf c \<and> no_nan c"
    if op: "op \<in> set (the_list (fld intent ''operations''))" and c: "c \<in> set (v1_runs op e comps 0)" for op c e comps
  proof -
    obtain i where i: "i < length (the_list (fld intent ''operations''))" "op = the_list (fld intent ''operations'') ! i"
      using op by (auto simp: in_set_conv_nth)
    show ?thesis
      using v1_runs_commands [OF c] v1_command_wf [OF ok [rule_format, OF i(1)]] i(2) by auto
  qed
  moreover have "(fst \<circ> (\<lambda>(k :: string, n). (k, JInt n))) = fst"
    by auto
  moreover note v1_limits_Inr(5) [OF assms(2)]
  ultimately show "json_wf (v1_plan canon sha intent limits)" "no_nan (v1_plan canon sha intent limits)"
    by (auto simp: v1_plan_def Let_def)
qed

lemma v1_plan_valid:
  assumes "validate_intent intent = Inr ()" "v1_limits mdts dma software = Inr limits"
  shows "validate_target_plan canon sha (v1_plan canon sha intent limits) intent = Inr ()"
proof -
  note limits = v1_limits_Inr [OF assms(2)]
  have flds: "fld (v1_plan canon sha intent limits) ''schema'' = JStr PLAN_SCHEMA"
    "fld (v1_plan canon sha intent limits) ''evidence'' = JStr PLAN_EVIDENCE"
    "fld (v1_plan canon sha intent limits) ''intent_sha256'' = JStr (sha (canon intent))"
    "fld (v1_plan canon sha intent limits) ''target_limits'' = JObj (map (\<lambda>(k, n). (k, JInt n)) limits)"
    "is_obj (v1_plan canon sha intent limits)"
    by (simp_all add: v1_plan_def Let_def)
  have keys: "set (obj_keys (JObj (map (\<lambda>(k, n). (k, JInt n)) limits))) = fst ` set limits"
    by (force simp: obj_keys_def)
  show ?thesis
    unfolding validate_target_plan_def Let_def flds keys lower_intent_eq [OF assms(1) limits(3)]
    using limits(4) v1_plan_refl [OF assms] by (simp add: flds intent_sha256_def assms(1))
qed

section \<open>An example\<close>

definition v1_example_args :: v1_args where
  "v1_example_args = \<lparr>va_model = ''m'', va_geometry = JObj [], va_dtype = ''bf16'', va_chunk_tokens = JInt 256,
     va_payload_bytes = JInt 10, va_ranks_per_chunk = JInt 1, va_num_chunks = JInt 2, va_streams = JInt 2,
     va_iters = JInt 1, va_warmup = JInt 1, va_store_metadata_bytes = JInt 3\<rparr>"

lemma v1_example_ok: "v1_args_ok v1_example_args"
  by (simp add: v1_args_ok_def v1_example_args_def pos_int_def)

definition v1_example_intent :: json where
  "v1_example_intent = (case build_kv_offload_intent v1_example_args of Inr intent \<Rightarrow> intent | Inl _ \<Rightarrow> JNull)"

lemma v1_example_valid: "validate_intent v1_example_intent = Inr ()"
  using build_accepted [OF v1_example_ok] by (auto simp: v1_example_intent_def)

lemma v1_example_limits: "v1_limits (JInt 4) (JInt 8) JNull = Inr [(''mdts_bytes'', 4), (''dma_ceiling_bytes'', 8)]"
  by (simp add: v1_limits_def positive_def)

section \<open>Properties\<close>

text \<open>
  C38. The builder succeeds exactly on arguments that name positive sizes and counts, a model, a
  data type and a geometry, and what it builds is a valid record with one store and one load per
  pass, stream, chunk and rank: the order its nested loops visit the operations in is the order
  the validator derives from each position by division.
\<close>

theorem build_kv_offload_intent_iff:
  "v1_args_ok a \<longleftrightarrow> (\<exists>intent. build_kv_offload_intent a = Inr intent \<and> validate_intent intent = Inr () \<and>
    length (the_list (fld intent ''operations'')) =
      (nat (the_int (va_warmup a)) + nat (the_int (va_iters a))) * 2 * nat (the_int (va_streams a)) *
        nat (the_int (va_num_chunks a)) * nat (the_int (va_ranks_per_chunk a)))"
  using build_accepted build_Inr_args by blast

text \<open>
  C4. Lowering a valid record under valid limits returns a plan. Its command list is one block per
  operation, in order; in each block the commands of a component (the payload, and before it the
  object header of a store that has one) cover that component from its first byte to its last
  without gap or overlap, no command is larger than the smallest limit, and the commands of the
  block are numbered from zero.
\<close>

theorem lower_intent_tiles:
  assumes "validate_intent intent = Inr ()" "v1_limits mdts dma software = Inr limits"
  shows "\<exists>target_plan blocks. lower_intent canon sha intent mdts dma software = Inr target_plan \<and>
    fld target_plan ''commands'' = JList (concat blocks) \<and>
    length blocks = length (the_list (fld intent ''operations'')) \<and>
    (\<forall>i<length blocks. v1_covers intent (Min (snd ` set limits)) (the_list (fld intent ''operations'') ! i) (blocks ! i))"
proof -
  define blocks where "blocks = map (\<lambda>op. v1_runs op (Min (snd ` set limits)) (v1_components intent op) 0)
      (the_list (fld intent ''operations''))"
  have "fld (v1_plan canon sha intent limits) ''commands'' = JList (concat blocks)"
    by (simp add: v1_plan_def Let_def blocks_def)
  moreover have "v1_covers intent (Min (snd ` set limits)) (the_list (fld intent ''operations'') ! i) (blocks ! i)"
    if "i < length blocks" for i
    using that v1_plan_covers [OF assms] by (simp add: blocks_def)
  ultimately show ?thesis
    unfolding lower_intent_eq [OF assms] by (auto simp: blocks_def)
qed

theorem lower_intent_tiles_witness:
  "\<exists>target_plan blocks. lower_intent (\<lambda>_. []) (\<lambda>s. s) v1_example_intent (JInt 4) (JInt 8) JNull = Inr target_plan \<and>
    fld target_plan ''commands'' = JList (concat blocks) \<and>
    length blocks = length (the_list (fld v1_example_intent ''operations'')) \<and>
    (\<forall>i<length blocks. v1_covers v1_example_intent (Min (snd ` set [(''mdts_bytes'', 4), (''dma_ceiling_bytes'', 8)]))
       (the_list (fld v1_example_intent ''operations'') ! i) (blocks ! i))"
  by (rule lower_intent_tiles [OF v1_example_valid v1_example_limits])

text \<open>
  C21. A plan produced by lowering a record is accepted as the plan of that record: it carries the
  record's digest, its limits are read back unchanged, and lowering under them gives an equal plan.
\<close>

theorem validate_target_plan_of_lowering:
  assumes "lower_intent canon sha intent mdts dma software = Inr target_plan"
  shows "validate_target_plan canon sha target_plan intent = Inr ()"
proof -
  obtain limits where ok: "validate_intent intent = Inr ()" "v1_limits mdts dma software = Inr limits"
    using assms unfolding lower_intent_def rbind_Inr_iff by auto
  then have "target_plan = v1_plan canon sha intent limits"
    using assms lower_intent_eq by simp
  with v1_plan_valid [OF ok] show ?thesis by simp
qed

theorem validate_target_plan_of_lowering_witness:
  "\<exists>target_plan. lower_intent (\<lambda>_. []) (\<lambda>s. s) v1_example_intent (JInt 4) (JInt 8) JNull = Inr target_plan \<and>
     validate_target_plan (\<lambda>_. []) (\<lambda>s. s) target_plan v1_example_intent = Inr ()"
  using lower_intent_eq [OF v1_example_valid v1_example_limits, of "\<lambda>_. []" "\<lambda>s. s"]
    validate_target_plan_of_lowering by blast

end
