(* ===== verification/V1_Carry.thy ===== *)
theory V1_Carry
  imports Intent_V1
begin

text \<open>
  What \<open>normalize_v1\<close> (\<open>src/tools/kvio/intent2.py\<close>) carries over from a v1 record: the operations one
  to one, and the partial order of v1 (program order within a stream of a phase, and a barrier
  between the phases) as exactly the explicit dependencies of v2.
\<close>

section \<open>One operation carried over\<close>

definition v1_id :: "json \<Rightarrow> string" where
  "v1_id op1 = ''v1/'' @ the (py_str (fld op1 ''sequence''))"

definition v1_key :: "json \<Rightarrow> int \<times> string \<times> int" where
  "v1_key op1 = (int_value (fld op1 ''pass''), the_str (fld op1 ''phase''), int_value (fld op1 ''stream''))"

lemma set_v1_sorted_deps:
  assumes "v1_sorted_deps deps = Inr ds"
  shows "set ds = set deps"
proof -
  obtain keyed where *: "list_all2 (\<lambda>d kd. rbind (v1_dep_key d) (\<lambda>k. Inr (k, d)) = Inr kd) (remdups deps) keyed"
    "ds = map snd (sort_key fst keyed)"
    using assms by (auto simp: v1_sorted_deps_def rbind_Inr_iff mmap_Inr_iff)
  from * (1) have "map snd keyed = remdups deps"
    by (induction rule: list_all2_induct) (auto simp: rbind_Inr_iff)
  then have "set deps = snd ` set keyed"
    by (metis list.set_map set_remdups)
  then show ?thesis by (simp add: * (2))
qed

lemma add_object_version_ops:
  assumes "add_object_version v2 oid n rep = Inr v2'"
  shows "fld v2' ''operations'' = fld v2 ''operations''"
  using assms by (auto simp: add_object_version_def Let_def rbind_Inr_iff fld_set)

lemma add_operation_ops:
  assumes "add_operation v2 a = Inr v2'"
  shows "\<exists>requested. v2_operations v2' =
    v2_operations v2 @ [v2_operation (length (v2_operations v2)) a requested]"
  using assms by (auto simp: add_operation_def Let_def rbind_Inr_iff fld_set)

lemma v2_operation_fields:
  "fld (v2_operation n a r) ''op_id'' = JStr (oa_op_id a)" "fld (v2_operation n a r) ''op'' = JStr (oa_op a)"
  "fld (v2_operation n a r) ''object_id'' = JStr (oa_object_id a)" "v2_deps (v2_operation n a r) = oa_deps a"
  by (simp_all add: v2_operation_def v2_deps_def comp_def)

lemma v1_carry_op_Inr:
  assumes "v1_carry_op st op1 = Inr st'"
  shows "\<exists>op2. v2_operations (vc_v2 st') = v2_operations (vc_v2 st) @ [op2] \<and>
      fld op2 ''op_id'' = JStr (v1_id op1) \<and> fld op2 ''op'' = JStr (fst (snd (v1_key op1))) \<and>
      fld op2 ''object_id'' = JStr (the_str (fld op1 ''logical_object'')) \<and>
      set (v2_deps op2) = set (v1_carry_deps st op1)"
    "vc_prev st' = (vc_prev st)(v1_key op1 \<mapsto> v1_id op1)"
    "vc_stores st' = (if fst (snd (v1_key op1)) = ''store''
       then (vc_stores st)(fst (v1_key op1) := vc_stores st (fst (v1_key op1)) @ [v1_id op1]) else vc_stores st)"
    "vc_loads st' = (if fst (snd (v1_key op1)) = ''store'' then vc_loads st
       else (vc_loads st)(fst (v1_key op1) := vc_loads st (fst (v1_key op1)) @ [v1_id op1]))"
proof -
  define args where "args = (\<lambda>deps. \<lparr>oa_op_id = v1_id op1, oa_op = the_str (fld op1 ''phase''),
     oa_object_id = the_str (fld op1 ''logical_object''), oa_version = 1,
     oa_stream = JStr (''s'' @ the (py_str (fld op1 ''stream''))), oa_deps = deps, oa_range = JNull,
     oa_batch_id = JStr (''pass'' @ the (py_str (fld op1 ''pass'')) @ ''/'' @ the_str (fld op1 ''phase'') @ ''/s'' @
       the (py_str (fld op1 ''stream''))), oa_release_ns = JNull,
     oa_declared_delay_ns = JNull, oa_source_outcome = JNull, oa_requested_bytes = JNull\<rparr>)"
  obtain v2 deps v2' where *:
    "(if has_key (fld (vc_v2 st) ''objects'') (the_str (fld op1 ''logical_object'')) then Inr (vc_v2 st)
      else add_object_version (vc_v2 st) (the_str (fld op1 ''logical_object'')) 1 ''v1-payload'') = Inr v2"
    "v1_sorted_deps (v1_carry_deps st op1) = Inr deps" "add_operation v2 (args deps) = Inr v2'"
    and st': "vc_v2 st' = v2'"
    using assms unfolding v1_carry_op_def Let_def rbind_Inr_iff args_def v1_id_def
    by (elim exE conjE) (fastforce split: if_splits)
  have "fld v2 ''operations'' = fld (vc_v2 st) ''operations''"
    using * (1) add_object_version_ops by (auto split: if_splits)
  then obtain requested where "v2_operations v2' =
      v2_operations (vc_v2 st) @ [v2_operation (length (v2_operations (vc_v2 st))) (args deps) requested]"
    using add_operation_ops [OF * (3)] by auto
  with st' show "\<exists>op2. v2_operations (vc_v2 st') = v2_operations (vc_v2 st) @ [op2] \<and>
      fld op2 ''op_id'' = JStr (v1_id op1) \<and> fld op2 ''op'' = JStr (fst (snd (v1_key op1))) \<and>
      fld op2 ''object_id'' = JStr (the_str (fld op1 ''logical_object'')) \<and>
      set (v2_deps op2) = set (v1_carry_deps st op1)"
    using set_v1_sorted_deps [OF * (2)] by (auto simp: v2_operation_fields args_def v1_key_def)
qed ((cases "the_str (fld op1 ''phase'') = ''store''";
    use assms in \<open>auto simp: v1_carry_op_def Let_def rbind_Inr_iff v1_id_def v1_key_def\<close>)+)

section \<open>The dependencies after any number of operations\<close>

definition v1_prev :: "json list \<Rightarrow> int \<times> string \<times> int \<Rightarrow> string option" where
  "v1_prev pre key = (case rev (filter (\<lambda>op. v1_key op = key) pre) of [] \<Rightarrow> None | op # _ \<Rightarrow> Some (v1_id op))"

definition v1_carried :: "json list \<Rightarrow> v1_carry \<Rightarrow> bool" where
  "v1_carried pre st \<longleftrightarrow>
     length (v2_operations (vc_v2 st)) = length pre \<and>
     (\<forall>j<length pre. fld (v2_operations (vc_v2 st) ! j) ''op_id'' = JStr (v1_id (pre ! j)) \<and>
        fld (v2_operations (vc_v2 st) ! j) ''op'' = JStr (fst (snd (v1_key (pre ! j)))) \<and>
        fld (v2_operations (vc_v2 st) ! j) ''object_id'' = JStr (the_str (fld (pre ! j) ''logical_object'')) \<and>
        (\<exists>st'. vc_prev st' = v1_prev (take j pre) \<and>
           (\<forall>p. vc_stores st' p = map v1_id (filter (\<lambda>op. fst (snd (v1_key op)) = ''store'' \<and> fst (v1_key op) = p) (take j pre))) \<and>
           (\<forall>p. vc_loads st' p = map v1_id (filter (\<lambda>op. fst (snd (v1_key op)) \<noteq> ''store'' \<and> fst (v1_key op) = p) (take j pre))) \<and>
           set (v2_deps (v2_operations (vc_v2 st) ! j)) = set (v1_carry_deps st' (pre ! j)))) \<and>
     vc_prev st = v1_prev pre \<and>
     (\<forall>p. vc_stores st p = map v1_id (filter (\<lambda>op. fst (snd (v1_key op)) = ''store'' \<and> fst (v1_key op) = p) pre)) \<and>
     (\<forall>p. vc_loads st p = map v1_id (filter (\<lambda>op. fst (snd (v1_key op)) \<noteq> ''store'' \<and> fst (v1_key op) = p) pre))"

lemma v1_carried_step:
  assumes inv: "v1_carried pre st" and step: "v1_carry_op st op1 = Inr st'"
  shows "v1_carried (pre @ [op1]) st'"
proof -
  obtain op2 where op2: "v2_operations (vc_v2 st') = v2_operations (vc_v2 st) @ [op2]"
      "fld op2 ''op_id'' = JStr (v1_id op1)" "fld op2 ''op'' = JStr (fst (snd (v1_key op1)))"
      "fld op2 ''object_id'' = JStr (the_str (fld op1 ''logical_object''))"
      "set (v2_deps op2) = set (v1_carry_deps st op1)"
    using v1_carry_op_Inr(1) [OF step] by blast
  note tables = v1_carry_op_Inr(2-4) [OF step]
  have len: "length (v2_operations (vc_v2 st)) = length pre"
    using inv by (simp add: v1_carried_def)
  have prev: "vc_prev st' = v1_prev (pre @ [op1])"
    using inv unfolding tables by (auto simp: v1_carried_def v1_prev_def fun_eq_iff)
  have stores: "\<forall>p. vc_stores st' p =
      map v1_id (filter (\<lambda>op. fst (snd (v1_key op)) = ''store'' \<and> fst (v1_key op) = p) (pre @ [op1]))"
    using inv unfolding tables by (auto simp: v1_carried_def)
  have loads: "\<forall>p. vc_loads st' p =
      map v1_id (filter (\<lambda>op. fst (snd (v1_key op)) \<noteq> ''store'' \<and> fst (v1_key op) = p) (pre @ [op1]))"
    using inv unfolding tables by (auto simp: v1_carried_def)
  have here: "\<exists>st''. vc_prev st'' = v1_prev pre \<and>
      (\<forall>p. vc_stores st'' p = map v1_id (filter (\<lambda>op. fst (snd (v1_key op)) = ''store'' \<and> fst (v1_key op) = p) pre)) \<and>
      (\<forall>p. vc_loads st'' p = map v1_id (filter (\<lambda>op. fst (snd (v1_key op)) \<noteq> ''store'' \<and> fst (v1_key op) = p) pre)) \<and>
      set (v2_deps op2) = set (v1_carry_deps st'' op1)"
    using inv op2(5) unfolding v1_carried_def by blast
  show ?thesis
    unfolding v1_carried_def length_append list.size One_nat_def add_Suc_right add_0_right All_less_Suc
  proof (intro conjI)
    show "length (v2_operations (vc_v2 st')) = Suc (length pre)"
      by (simp add: op2(1) len)
    show "\<forall>j<length pre. fld (v2_operations (vc_v2 st') ! j) ''op_id'' = JStr (v1_id ((pre @ [op1]) ! j)) \<and>
        fld (v2_operations (vc_v2 st') ! j) ''op'' = JStr (fst (snd (v1_key ((pre @ [op1]) ! j)))) \<and>
        fld (v2_operations (vc_v2 st') ! j) ''object_id'' = JStr (the_str (fld ((pre @ [op1]) ! j) ''logical_object'')) \<and>
        (\<exists>st''. vc_prev st'' = v1_prev (take j (pre @ [op1])) \<and>
           (\<forall>p. vc_stores st'' p = map v1_id (filter (\<lambda>op. fst (snd (v1_key op)) = ''store'' \<and> fst (v1_key op) = p)
              (take j (pre @ [op1])))) \<and>
           (\<forall>p. vc_loads st'' p = map v1_id (filter (\<lambda>op. fst (snd (v1_key op)) \<noteq> ''store'' \<and> fst (v1_key op) = p)
              (take j (pre @ [op1])))) \<and>
           set (v2_deps (v2_operations (vc_v2 st') ! j)) = set (v1_carry_deps st'' ((pre @ [op1]) ! j)))"
      using inv unfolding v1_carried_def op2(1) by (simp add: nth_append)
  qed (use prev stores loads here op2 len in \<open>simp_all add: nth_append\<close>)
qed

lemma v1_carried_all:
  assumes "mfold v1_carry_op st ops = Inr st'" "v1_carried [] st"
  shows "v1_carried ops st'"
  using assms(1) by (rule mfold_rule [where I = v1_carried]) (use assms(2) v1_carried_step in blast)+

lemma v1_prev_iff:
  "v1_prev pre key = Some x \<longleftrightarrow> (\<exists>i<length pre. v1_key (pre ! i) = key \<and> x = v1_id (pre ! i) \<and>
     (\<forall>m. i < m \<and> m < length pre \<longrightarrow> v1_key (pre ! m) \<noteq> key))"
proof (induction pre rule: rev_induct)
  case Nil
  then show ?case by (simp add: v1_prev_def)
next
  case (snoc op pre)
  have "(\<exists>i<length (pre @ [op]). (v1_key ((pre @ [op]) ! i) = key \<and> x = v1_id ((pre @ [op]) ! i)) \<and>
      (\<forall>m. i < m \<and> m < length (pre @ [op]) \<longrightarrow> \<not> v1_key ((pre @ [op]) ! m) = key)) \<longleftrightarrow>
    (v1_key op = key \<and> x = v1_id op) \<or>
    (\<exists>i<length pre. (v1_key (pre ! i) = key \<and> x = v1_id (pre ! i)) \<and>
      (\<forall>m. i < m \<and> m < length pre \<longrightarrow> \<not> v1_key (pre ! m) = key)) \<and> \<not> v1_key op = key"
    by (rule last_event_snoc)
  moreover have "v1_prev (pre @ [op]) key = (if v1_key op = key then Some (v1_id op) else v1_prev pre key)"
    by (simp add: v1_prev_def)
  ultimately show ?case
    using snoc by (auto simp del: length_append)
qed

text \<open>
  The partial order of v1: a store precedes the loads of its pass, a load precedes the stores of
  the next pass, and operations of one stream in one phase of a pass follow each other.
\<close>

definition v1_before :: "json list \<Rightarrow> nat \<Rightarrow> nat \<Rightarrow> bool" where
  "v1_before ops i j \<longleftrightarrow> i < j \<and>
     (case (v1_key (ops ! i), v1_key (ops ! j)) of ((p, phase, s), (q, phase', t)) \<Rightarrow>
        phase = ''store'' \<and> phase' = ''load'' \<and> p = q \<or>
        phase = ''load'' \<and> phase' = ''store'' \<and> q = p + 1 \<or>
        v1_key (ops ! i) = v1_key (ops ! j) \<and> (\<forall>m. i < m \<and> m < j \<longrightarrow> v1_key (ops ! m) \<noteq> v1_key (ops ! i)))"

lemma set_filter_take:
  assumes "j \<le> length xs"
  shows "set (map f (filter P (take j xs))) = {f (xs ! i) |i. i < j \<and> P (xs ! i)}"
proof -
  have "set (take j xs) = {xs ! i |i. i < j}"
    using assms by (auto simp: set_conv_nth) (metis nth_take)
  then show ?thesis by auto
qed

lemma v1_carry_deps_before:
  assumes j: "j < length ops"
    and phases: "\<forall>op\<in>set ops. fst (snd (v1_key op)) \<in> {''store'', ''load''} \<and> 0 \<le> fst (v1_key op)"
    and prev: "vc_prev st = v1_prev (take j ops)"
    and stores: "\<forall>p. vc_stores st p = map v1_id (filter (\<lambda>op. fst (snd (v1_key op)) = ''store'' \<and> fst (v1_key op) = p) (take j ops))"
    and loads: "\<forall>p. vc_loads st p = map v1_id (filter (\<lambda>op. fst (snd (v1_key op)) \<noteq> ''store'' \<and> fst (v1_key op) = p) (take j ops))"
  shows "set (v1_carry_deps st (ops ! j)) = {v1_id (ops ! i) |i. v1_before ops i j}"
proof -
  obtain q phase t where key: "v1_key (ops ! j) = (q, phase, t)" by (cases "v1_key (ops ! j)")
  have iff: "v1_prev (take j ops) (q, phase, t) = Some x \<longleftrightarrow> (\<exists>i<j. v1_key (ops ! i) = (q, phase, t) \<and> x = v1_id (ops ! i) \<and>
      (\<forall>m. i < m \<and> m < j \<longrightarrow> v1_key (ops ! m) \<noteq> (q, phase, t)))" for x
    unfolding v1_prev_iff using j by (auto simp: min_def)
  have "set (case vc_prev st (q, phase, t) of None \<Rightarrow> [] | Some d \<Rightarrow> [d]) = {x. v1_prev (take j ops) (q, phase, t) = Some x}"
    unfolding prev by (cases "v1_prev (take j ops) (q, phase, t)") auto
  then have prev_set: "set (case vc_prev st (q, phase, t) of None \<Rightarrow> [] | Some d \<Rightarrow> [d]) =
      {v1_id (ops ! i) |i. i < j \<and> v1_key (ops ! i) = (q, phase, t) \<and>
        (\<forall>m. i < m \<and> m < j \<longrightarrow> v1_key (ops ! m) \<noteq> (q, phase, t))}"
    unfolding iff by blast
  have stores_set: "set (vc_stores st p) = {v1_id (ops ! i) |i. i < j \<and> fst (snd (v1_key (ops ! i))) = ''store'' \<and> fst (v1_key (ops ! i)) = p}" for p
    unfolding stores [rule_format] using j by (subst set_filter_take) auto
  have load: "fst (snd (v1_key (ops ! i))) \<noteq> ''store'' \<longleftrightarrow> fst (snd (v1_key (ops ! i))) = ''load''" if "i < j" for i
    using bspec [OF phases, of "ops ! i"] j that by auto
  have loads_set: "set (vc_loads st p) = {v1_id (ops ! i) |i. i < j \<and> fst (snd (v1_key (ops ! i))) = ''load'' \<and> fst (v1_key (ops ! i)) = p}" for p
    unfolding loads [rule_format] using j load by (subst set_filter_take) auto
  have phase: "phase = ''store'' \<or> phase = ''load''" and q: "0 \<le> q"
    using bspec [OF phases nth_mem [OF j]] key by auto
  have none: "{v1_id (ops ! i) |i. i < j \<and> fst (snd (v1_key (ops ! i))) = ''load'' \<and> fst (v1_key (ops ! i)) = q - 1} = {}"
    if "\<not> 0 < q"
  proof -
    have "0 \<le> fst (v1_key (ops ! i))" if "i < j" for i
      using phases j that by auto
    then show ?thesis using \<open>\<not> 0 < q\<close> by force
  qed
  have other: "set (if phase = ''load'' then vc_stores st q else if 0 < q then vc_loads st (q - 1) else []) =
      {v1_id (ops ! i) |i. i < j \<and> (if phase = ''load'' then fst (snd (v1_key (ops ! i))) = ''store'' \<and> fst (v1_key (ops ! i)) = q
         else fst (snd (v1_key (ops ! i))) = ''load'' \<and> fst (v1_key (ops ! i)) = q - 1)}"
    using none by (cases "phase = ''load''"; cases "0 < q") (simp_all add: stores_set loads_set)
  have before: "v1_before ops i j \<longleftrightarrow>
      (i < j \<and> v1_key (ops ! i) = (q, phase, t) \<and> (\<forall>m. i < m \<and> m < j \<longrightarrow> v1_key (ops ! m) \<noteq> (q, phase, t))) \<or>
      (i < j \<and> (if phase = ''load'' then fst (snd (v1_key (ops ! i))) = ''store'' \<and> fst (v1_key (ops ! i)) = q
         else fst (snd (v1_key (ops ! i))) = ''load'' \<and> fst (v1_key (ops ! i)) = q - 1))" for i
  proof -
    obtain p ph s where ki: "v1_key (ops ! i) = (p, ph, s)" by (cases "v1_key (ops ! i)")
    have "p = q - 1 \<longleftrightarrow> q = p + 1" by auto
    with phase show ?thesis
      unfolding v1_before_def key ki prod.case fst_conv snd_conv prod.inject by (elim disjE) (simp; blast)+
  qed
  have "set (v1_carry_deps st (ops ! j)) = set (case vc_prev st (q, phase, t) of None \<Rightarrow> [] | Some d \<Rightarrow> [d]) \<union>
      set (if phase = ''load'' then vc_stores st q else if 0 < q then vc_loads st (q - 1) else [])"
    using key by (auto simp: v1_carry_deps_def v1_key_def Let_def)
  also have "\<dots> = {v1_id (ops ! i) |i. v1_before ops i j}"
    unfolding prev_set other before by blast
  finally show ?thesis .
qed

lemma v1_start_ops: "v1_start intent d = Inr v \<Longrightarrow> v2_operations v = []"
  by (auto simp: v1_start_def Let_def new_intent_def rbind_Inr_iff add_representation_def fld_set)

lemma v1_finish_ops: "v2_operations (v1_finish intent v) = v2_operations v"
  by (simp add: v1_finish_def Let_def fld_set)

definition v1_small_args :: v1_args where
  "v1_small_args = \<lparr>va_model = ''m'', va_geometry = JObj [], va_dtype = ''bf16'', va_chunk_tokens = JInt 256,
     va_payload_bytes = JInt 8, va_ranks_per_chunk = JInt 1, va_num_chunks = JInt 1, va_streams = JInt 1,
     va_iters = JInt 1, va_warmup = JInt 0, va_store_metadata_bytes = JInt 0\<rparr>"

definition v1_small_intent :: json where
  "v1_small_intent = (case build_kv_offload_intent v1_small_args of Inr intent \<Rightarrow> intent | Inl _ \<Rightarrow> JNull)"

lemma v1_small_normalizes:
  "case normalize_v1 (\<lambda>_. []) (\<lambda>s. s) v1_small_intent of Inr v2 \<Rightarrow> True | Inl _ \<Rightarrow> False"
  by code_simp

section \<open>Properties\<close>

text \<open>
  C10. \<open>normalize_v1\<close> returns a valid v2 record with the operations of the v1 record one to one, in
  order, and the dependencies of each are exactly its predecessors in the partial order of v1:
  the barrier between the phases of a pass, the barrier between passes, and program order within
  a stream.
\<close>

theorem normalize_v1_order:
  assumes "normalize_v1 canon sha intent = Inr v2"
  shows "validate_intent2 v2 = Inr v2 \<and>
    length (v2_operations v2) = length (the_list (fld intent ''operations'')) \<and>
    (\<forall>j<length (v2_operations v2).
       fld (v2_operations v2 ! j) ''op'' = fld (the_list (fld intent ''operations'') ! j) ''phase'' \<and>
       fld (v2_operations v2 ! j) ''object_id'' = fld (the_list (fld intent ''operations'') ! j) ''logical_object'' \<and>
       set (v2_deps (v2_operations v2 ! j)) =
         {v1_id (the_list (fld intent ''operations'') ! i) |i. v1_before (the_list (fld intent ''operations'')) i j})"
proof -
  define ops where "ops = the_list (fld intent ''operations'')"
  obtain d v20 st where valid: "validate_intent intent = Inr ()" and start: "v1_start intent d = Inr v20"
    and fold: "mfold v1_carry_op \<lparr>vc_v2 = v20, vc_prev = Map.empty, vc_stores = (\<lambda>_. []), vc_loads = (\<lambda>_. [])\<rparr> ops = Inr st"
    and final: "validate_intent2 (v1_finish intent (vc_v2 st)) = Inr v2"
    using assms unfolding normalize_v1_def rbind_Inr_iff ops_def [symmetric] by auto
  have v2: "v1_finish intent (vc_v2 st) = v2" "validate_intent2 v2 = Inr v2"
    using final by (auto simp: validate_intent2_iff)
  have "v1_carried [] \<lparr>vc_v2 = v20, vc_prev = Map.empty, vc_stores = (\<lambda>_. []), vc_loads = (\<lambda>_. [])\<rparr>"
    by (simp add: v1_carried_def v1_start_ops [OF start] v1_prev_def fun_eq_iff)
  from v1_carried_all [OF fold this] have "v1_carried ops st" .
  moreover have "v2_operations (vc_v2 st) = v2_operations v2"
    using v1_finish_ops v2(1) by metis
  ultimately have len: "length (v2_operations v2) = length ops" and carried: "\<And>j. j < length ops \<Longrightarrow>
      fld (v2_operations v2 ! j) ''op'' = JStr (fst (snd (v1_key (ops ! j)))) \<and>
      fld (v2_operations v2 ! j) ''object_id'' = JStr (the_str (fld (ops ! j) ''logical_object'')) \<and>
      (\<exists>st'. vc_prev st' = v1_prev (take j ops) \<and>
         (\<forall>p. vc_stores st' p = map v1_id (filter (\<lambda>op. fst (snd (v1_key op)) = ''store'' \<and> fst (v1_key op) = p) (take j ops))) \<and>
         (\<forall>p. vc_loads st' p = map v1_id (filter (\<lambda>op. fst (snd (v1_key op)) \<noteq> ''store'' \<and> fst (v1_key op) = p) (take j ops))) \<and>
         set (v2_deps (v2_operations v2 ! j)) = set (v1_carry_deps st' (ops ! j)))"
    by (simp_all add: v1_carried_def)
  obtain payload R C S I W where ok: "\<forall>i<length ops. v1_check_op payload S C R W (i, ops ! i) = Inr ()"
    using valid unfolding ops_def by (rule validate_intent_Inr)
  have phases: "\<forall>op\<in>set ops. fst (snd (v1_key op)) \<in> {''store'', ''load''} \<and> 0 \<le> fst (v1_key op)"
    using v1_check_op_Inr(3,4) [OF ok [rule_format]] by (auto simp: v1_key_def in_set_conv_nth split: if_splits)
  have "fld (v2_operations v2 ! j) ''op'' = fld (ops ! j) ''phase'' \<and>
      fld (v2_operations v2 ! j) ''object_id'' = fld (ops ! j) ''logical_object'' \<and>
      set (v2_deps (v2_operations v2 ! j)) = {v1_id (ops ! i) |i. v1_before ops i j}" if j: "j < length ops" for j
  proof -
    obtain st' where st': "vc_prev st' = v1_prev (take j ops)"
      "\<forall>p. vc_stores st' p = map v1_id (filter (\<lambda>op. fst (snd (v1_key op)) = ''store'' \<and> fst (v1_key op) = p) (take j ops))"
      "\<forall>p. vc_loads st' p = map v1_id (filter (\<lambda>op. fst (snd (v1_key op)) \<noteq> ''store'' \<and> fst (v1_key op) = p) (take j ops))"
      "set (v2_deps (v2_operations v2 ! j)) = set (v1_carry_deps st' (ops ! j))"
      using carried [OF j] by blast
    have "fld (v2_operations v2 ! j) ''op'' = JStr (fst (snd (v1_key (ops ! j))))"
      "fld (v2_operations v2 ! j) ''object_id'' = JStr (the_str (fld (ops ! j) ''logical_object''))"
      using carried [OF j] by blast+
    then show ?thesis
      using v1_check_op_Inr(3,7) [OF ok [rule_format, OF j]] v1_carry_deps_before [OF j phases st'(1-3)] st'(4)
      by (auto simp: v1_key_def)
  qed
  then show ?thesis
    using v2(2) len by (simp add: ops_def)
qed

theorem normalize_v1_order_witness:
  "\<exists>v2. normalize_v1 (\<lambda>_. []) (\<lambda>s. s) v1_small_intent = Inr v2 \<and> validate_intent2 v2 = Inr v2 \<and>
    length (v2_operations v2) = length (the_list (fld v1_small_intent ''operations''))"
  using v1_small_normalizes normalize_v1_order [of "\<lambda>_. []" "\<lambda>s. s" v1_small_intent]
  by (auto split: sum.splits)

end
