(* ===== verification/Posix_Fs.thy ===== *)
theory Posix_Fs
  imports Executor
begin

text \<open>
  The POSIX family of calls (\<open>src/tools/kvio/posix_fs.py\<close>): the in-memory file system \<open>FakeFS\<close> that
  contract tests replay a workload on, the synthetic names \<open>RecordingFS\<close> gives to the entries it
  sees, and \<open>normalize_posix_capture\<close>, which turns recorded events into a workload.

  Files live in inodes; names and handles both refer to inodes. The operations are translated call
  by call over the validated \<open>args\<close> of an operation; a dictionary access without a key is an
  exception here as it is there.
\<close>

section \<open>Results and error numbers\<close>

record presult =
  pr_outcome :: string
  pr_errno :: int
  pr_bytes :: nat
  pr_meta :: fields
  pr_handle :: json

definition mk_result :: "string \<Rightarrow> int \<Rightarrow> nat \<Rightarrow> fields \<Rightarrow> json \<Rightarrow> presult" where
  "mk_result oc en n meta h = \<lparr>pr_outcome = oc, pr_errno = en, pr_bytes = n, pr_meta = meta, pr_handle = h\<rparr>"

definition ENOENT :: int where "ENOENT = 2"
definition EBADF :: int where "EBADF = 9"
definition EACCES :: int where "EACCES = 13"
definition EPERM :: int where "EPERM = 1"
definition EEXIST :: int where "EEXIST = 17"
definition ENOTEMPTY :: int where "ENOTEMPTY = 39"

definition outcome_of_oserror :: "int \<Rightarrow> string \<times> int" where
  "outcome_of_oserror en =
     (if en = ENOENT then ''miss'' else if en = EEXIST then ''exists''
      else if en = ENOTEMPTY then ''not_empty'' else if en = EACCES \<or> en = EPERM then ''denied''
      else ''error'', en)"

abbreviation psuccess :: presult where "psuccess \<equiv> mk_result ''success'' 0 0 [] JNull"
abbreviation pmiss :: presult where "pmiss \<equiv> mk_result ''miss'' ENOENT 0 [] JNull"

text \<open>\<open>p.rpartition("/")\<close>: what stands before and after the last slash.\<close>

definition rpartition :: "string \<Rightarrow> string \<times> string" where
  "rpartition p =
     (let tail = takeWhile (\<lambda>c. c \<noteq> CHR ''/'') (rev p) in
      if length tail = length p then ([], p)
      else (rev (drop (Suc (length tail)) (rev p)), rev tail))"

definition parent_dir :: "string \<Rightarrow> string" where
  "parent_dir p = (if fst (rpartition p) = [] then ''.'' else fst (rpartition p))"

section \<open>The in-memory file system\<close>

text \<open>Dictionaries that are searched by value or counted are association lists.\<close>

record fakefs =
  fs_profile :: content_profile
  fs_fail :: "string \<Rightarrow> string option"
  fs_inodes :: "nat \<Rightarrow> bytes option"
  fs_names :: "(string \<times> nat) list"
  fs_dirs :: "string list"
  fs_handles :: "(json \<times> nat) list"
  fs_handle_node :: "json \<Rightarrow> json option"
  fs_path_node :: "string \<Rightarrow> json option"
  fs_pos :: "json \<Rightarrow> nat option"
  fs_next :: nat

definition fs_new :: "content_profile \<Rightarrow> (string \<Rightarrow> string option) \<Rightarrow> fakefs" where
  "fs_new profile fail = \<lparr>fs_profile = profile, fs_fail = fail, fs_inodes = Map.empty, fs_names = [], fs_dirs = [''.''],
     fs_handles = [], fs_handle_node = Map.empty, fs_path_node = Map.empty, fs_pos = Map.empty, fs_next = 0\<rparr>"

definition fs_content :: "digest \<Rightarrow> fakefs \<Rightarrow> json \<Rightarrow> nat \<Rightarrow> nat \<Rightarrow> bytes result" where
  "fs_content blake s node offset len =
     (case content blake (fs_profile s) (the (py_str node)) (int offset) (int len) of
        None \<Rightarrow> Inl Diverges | Some r \<Rightarrow> r)"

definition new_inode :: "bytes \<Rightarrow> fakefs \<Rightarrow> nat \<times> fakefs" where
  "new_inode data s =
     (Suc (fs_next s), s\<lparr>fs_next := Suc (fs_next s), fs_inodes := (fs_inodes s)(Suc (fs_next s) \<mapsto> data)\<rparr>)"

definition fs_init_entry :: "digest \<Rightarrow> json \<Rightarrow> fakefs \<Rightarrow> json \<Rightarrow> fakefs result" where
  "fs_init_entry blake nodes s e =
     (let node = fld nodes (the_str (fld e ''node'')); path = the_str (fld e ''path'');
          s1 = s\<lparr>fs_path_node := (fs_path_node s)(path \<mapsto> fld e ''node'')\<rparr> in
      if fld node ''kind'' = JStr ''dir'' then Inr (s1\<lparr>fs_dirs := List.insert path (fs_dirs s1)\<rparr>)
      else rbind (as_count (if has_key node ''size'' then fld node ''size'' else JInt 0)) (\<lambda>n.
           rbind (fs_content blake s1 (fld e ''node'') 0 n) (\<lambda>data.
           case new_inode data s1 of (ino, s2) \<Rightarrow>
             Inr (s2\<lparr>fs_names := AList.update path ino (fs_names s2)\<rparr>))))"

definition fs_initialize :: "digest \<Rightarrow> json \<Rightarrow> fakefs \<Rightarrow> fakefs result" where
  "fs_initialize blake wl s =
     (let ns = fld wl ''namespace'' in mfold (fs_init_entry blake (fld ns ''nodes'')) s (the_list (fld ns ''entries'')))"

definition parent_ok :: "fakefs \<Rightarrow> string \<Rightarrow> bool" where
  "parent_ok s path \<longleftrightarrow> parent_dir path \<in> set (fs_dirs s)"

definition fs_children :: "fakefs \<Rightarrow> string \<Rightarrow> string list" where
  "fs_children s d = filter (\<lambda>x. parent_dir x = d) (map fst (fs_names s) @ filter (\<lambda>x. x \<noteq> ''.'') (fs_dirs s))"

text \<open>The inode behind an open handle; both lookups raise \<open>KeyError\<close>.\<close>

definition handle_inode :: "fakefs \<Rightarrow> json \<Rightarrow> (nat \<times> bytes) result" where
  "handle_inode s h = (case map_of (fs_handles s) h of
      None \<Rightarrow> Inl KeyError
    | Some ino \<Rightarrow> (case fs_inodes s ino of None \<Rightarrow> Inl KeyError | Some buf \<Rightarrow> Inr (ino, buf)))"

text \<open>
  The content identity a path gets when it is opened: the one it has, the one the operation
  expects, or one made from the path.
\<close>

definition open_node :: "json \<Rightarrow> fakefs \<Rightarrow> json result" where
  "open_node op s =
     (let p = the_str (fld (fld op ''args'') ''path'') in
      case fs_path_node s p of
        Some v \<Rightarrow> if truthy v then Inr v
          else rbind (obj_index op ''expected'') (\<lambda>e. Inr (first_truthy [fld e ''node''] (JStr (''node:'' @ p))))
      | None \<Rightarrow> rbind (obj_index op ''expected'') (\<lambda>e. Inr (first_truthy [fld e ''node''] (JStr (''node:'' @ p)))))"

text \<open>The second half of \<open>open\<close>, for a path that has a name.\<close>

definition fs_attach :: "json \<Rightarrow> json set \<Rightarrow> fakefs \<Rightarrow> (presult \<times> fakefs) result" where
  "fs_attach op fl s =
     (let a = fld op ''args''; p = the_str (fld a ''path''); h = fld a ''handle'' in
      case map_of (fs_names s) p of
        None \<Rightarrow> Inl KeyError
      | Some ino \<Rightarrow>
          let s2 = (if JStr ''trunc'' \<in> fl then s\<lparr>fs_inodes := (fs_inodes s)(ino \<mapsto> [])\<rparr> else s);
              s3 = s2\<lparr>fs_handles := AList.update h ino (fs_handles s2)\<rparr> in
          rbind (open_node op s3) (\<lambda>node.
          Inr (mk_result ''success'' 0 0 [(''node'', node)] h,
               s3\<lparr>fs_path_node := (fs_path_node s3)(p \<mapsto> node), fs_handle_node := (fs_handle_node s3)(h \<mapsto> node),
                  fs_pos := (fs_pos s3)(h \<mapsto> 0)\<rparr>)))"

definition fs_open :: "json \<Rightarrow> fakefs \<Rightarrow> (presult \<times> fakefs) result" where
  "fs_open op s =
     (let a = fld op ''args''; p = the_str (fld a ''path'') in
      rbind (py_iter (fld a ''flags'')) (\<lambda>flags.
      let fl = set flags in
      if map_of (fs_names s) p = None then
        if JStr ''creat'' \<notin> fl \<or> \<not> parent_ok s p then Inr (pmiss, s)
        else (case new_inode [] s of (ino, s1) \<Rightarrow> fs_attach op fl (s1\<lparr>fs_names := AList.update p ino (fs_names s1)\<rparr>))
      else if JStr ''excl'' \<in> fl \<and> JStr ''creat'' \<in> fl then Inr (mk_result ''exists'' EEXIST 0 [] JNull, s)
      else fs_attach op fl s))"

definition fs_close :: "json \<Rightarrow> fakefs \<Rightarrow> (presult \<times> fakefs) result" where
  "fs_close a s = Inr (psuccess, s\<lparr>fs_handles := AList.delete (fld a ''handle'') (fs_handles s)\<rparr>)"

text \<open>\<open>a["offset"] if positional else self.pos[handle]\<close>.\<close>

definition fs_offset :: "bool \<Rightarrow> json \<Rightarrow> fakefs \<Rightarrow> nat result" where
  "fs_offset positional a s =
     (if positional then as_count (fld a ''offset'')
      else (case fs_pos s (fld a ''handle'') of None \<Rightarrow> Inl KeyError | Some n \<Rightarrow> Inr n))"

definition overwrite :: "bytes \<Rightarrow> nat \<Rightarrow> bytes \<Rightarrow> bytes" where
  "overwrite buf off data =
     (let buf' = (if length buf < off + length data then buf @ replicate (off + length data - length buf) 0 else buf) in
      take off buf' @ data @ drop (off + length data) buf')"

definition handle_node_of :: "fakefs \<Rightarrow> json \<Rightarrow> json result" where
  "handle_node_of s h = (case fs_handle_node s h of None \<Rightarrow> Inl KeyError | Some n \<Rightarrow> Inr n)"

definition fs_write :: "digest \<Rightarrow> bool \<Rightarrow> json \<Rightarrow> fakefs \<Rightarrow> (presult \<times> fakefs) result" where
  "fs_write blake positional a s =
     (let h = fld a ''handle'' in
      rbind (handle_inode s h) (\<lambda>(ino, buf).
      rbind (fs_offset positional a s) (\<lambda>off.
      rbind (handle_node_of s h) (\<lambda>node.
      rbind (as_count (fld a ''length'')) (\<lambda>len.
      rbind (fs_content blake s node off len) (\<lambda>data.
      let s1 = s\<lparr>fs_inodes := (fs_inodes s)(ino \<mapsto> overwrite buf off data)\<rparr> in
      Inr (mk_result ''success'' 0 (length data) [] JNull,
           if positional then s1 else s1\<lparr>fs_pos := (fs_pos s1)(h \<mapsto> off + length data)\<rparr>)))))))"

definition fs_read :: "digest \<Rightarrow> bool \<Rightarrow> json \<Rightarrow> fakefs \<Rightarrow> (presult \<times> fakefs) result" where
  "fs_read blake positional a s =
     (let h = fld a ''handle'' in
      rbind (handle_inode s h) (\<lambda>(ino, buf).
      rbind (fs_offset positional a s) (\<lambda>off.
      rbind (as_count (fld a ''length'')) (\<lambda>len.
      let data = pyslice buf off (off + len);
          s1 = (if positional then s else s\<lparr>fs_pos := (fs_pos s)(h \<mapsto> off + length data)\<rparr>) in
      rbind (if data = [] then Inr [] else rbind (handle_node_of s h) (\<lambda>node. fs_content blake s node off (length data))) (\<lambda>want.
      Inr (if data \<noteq> want then mk_result ''error'' 0 (length data) [(''detail'', JStr ''content mismatch'')] JNull
           else mk_result (if length data = len then ''success'' else ''eof'') 0 (length data) [] JNull, s1))))))"

definition size_result :: "nat \<Rightarrow> presult" where
  "size_result n = mk_result ''success'' 0 0 [(''size'', JInt (int n))] JNull"

definition fs_fstat :: "json \<Rightarrow> fakefs \<Rightarrow> (presult \<times> fakefs) result" where
  "fs_fstat a s = rbind (handle_inode s (fld a ''handle'')) (\<lambda>(ino, buf). Inr (size_result (length buf), s))"

definition fs_stat :: "json \<Rightarrow> fakefs \<Rightarrow> (presult \<times> fakefs) result" where
  "fs_stat a s =
     (let p = the_str (fld a ''path'') in
      case map_of (fs_names s) p of
        Some ino \<Rightarrow> (case fs_inodes s ino of None \<Rightarrow> Inl KeyError | Some buf \<Rightarrow> Inr (size_result (length buf), s))
      | None \<Rightarrow> if p \<in> set (fs_dirs s) then Inr (size_result 0, s) else Inr (pmiss, s))"

definition fs_readdir :: "json \<Rightarrow> fakefs \<Rightarrow> (presult \<times> fakefs) result" where
  "fs_readdir a s =
     (let p = the_str (fld a ''path'') in
      if p \<notin> set (fs_dirs s) then Inr (pmiss, s)
      else Inr (mk_result ''success'' 0 0 [(''count'', JInt (int (length (fs_children s p))))] JNull, s))"

definition fs_rename :: "json \<Rightarrow> fakefs \<Rightarrow> (presult \<times> fakefs) result" where
  "fs_rename a s =
     (let src = the_str (fld a ''path''); dst = the_str (fld a ''new_path'');
          finish = (\<lambda>s1. case fs_path_node s1 src of
              None \<Rightarrow> Inr (psuccess, s1)
            | Some n \<Rightarrow> Inr (psuccess, s1\<lparr>fs_path_node := ((fs_path_node s1)(src := None))(dst \<mapsto> n)\<rparr>)) in
      case map_of (fs_names s) src of
        Some ino \<Rightarrow> finish (s\<lparr>fs_names := AList.update dst ino (AList.delete src (fs_names s))\<rparr>)
      | None \<Rightarrow>
          if src \<in> set (fs_dirs s)
          then finish (s\<lparr>fs_dirs := List.insert dst (removeAll src (fs_dirs s))\<rparr>)
          else Inr (pmiss, s))"

definition fs_unlink :: "json \<Rightarrow> fakefs \<Rightarrow> (presult \<times> fakefs) result" where
  "fs_unlink a s =
     (let p = the_str (fld a ''path'') in
      case map_of (fs_names s) p of
        None \<Rightarrow> Inr (pmiss, s)
      | Some ino \<Rightarrow>
          let s1 = s\<lparr>fs_names := AList.delete p (fs_names s), fs_path_node := (fs_path_node s)(p := None)\<rparr> in
          Inr (psuccess, if ino \<notin> snd ` set (fs_handles s1) then s1\<lparr>fs_inodes := (fs_inodes s1)(ino := None)\<rparr> else s1))"

definition fs_mkdir :: "json \<Rightarrow> fakefs \<Rightarrow> (presult \<times> fakefs) result" where
  "fs_mkdir a s =
     (let p = the_str (fld a ''path'') in
      if p \<in> set (fs_dirs s) \<or> map_of (fs_names s) p \<noteq> None then Inr (mk_result ''exists'' EEXIST 0 [] JNull, s)
      else if \<not> parent_ok s p then Inr (pmiss, s)
      else Inr (psuccess, s\<lparr>fs_dirs := List.insert p (fs_dirs s)\<rparr>))"

definition fs_rmdir :: "json \<Rightarrow> fakefs \<Rightarrow> (presult \<times> fakefs) result" where
  "fs_rmdir a s =
     (let p = the_str (fld a ''path'') in
      if p \<notin> set (fs_dirs s) then Inr (pmiss, s)
      else if fs_children s p \<noteq> [] then Inr (mk_result ''not_empty'' ENOTEMPTY 0 [] JNull, s)
      else Inr (psuccess, s\<lparr>fs_dirs := removeAll p (fs_dirs s)\<rparr>))"

definition resize :: "bytes \<Rightarrow> nat \<Rightarrow> bytes" where
  "resize buf n = take n buf @ replicate (n - length buf) 0"

definition fs_truncate :: "bool \<Rightarrow> json \<Rightarrow> fakefs \<Rightarrow> (presult \<times> fakefs) result" where
  "fs_truncate by_path a s =
     (let p = the_str (fld a ''path'') in
      if by_path \<and> map_of (fs_names s) p = None then Inr (pmiss, s)
      else rbind (case (if by_path then map_of (fs_names s) p else map_of (fs_handles s) (fld a ''handle'')) of
                    None \<Rightarrow> Inl KeyError | Some ino \<Rightarrow> Inr ino) (\<lambda>ino.
           case fs_inodes s ino of
             None \<Rightarrow> Inl KeyError
           | Some buf \<Rightarrow> rbind (as_count (fld a ''size'')) (\<lambda>n.
               Inr (psuccess, s\<lparr>fs_inodes := (fs_inodes s)(ino \<mapsto> resize buf n)\<rparr>))))"

text \<open>The calls after \<open>open\<close>, once the handle they name is known to be open.\<close>

definition fs_call :: "digest \<Rightarrow> string \<Rightarrow> json \<Rightarrow> fakefs \<Rightarrow> (presult \<times> fakefs) result" where
  "fs_call blake call a s =
     (if call = ''close'' then fs_close a s
      else if call \<in> {''pwrite'', ''write''} then fs_write blake (call = ''pwrite'') a s
      else if call \<in> {''pread'', ''read''} then fs_read blake (call = ''pread'') a s
      else if call = ''fstat'' then fs_fstat a s
      else if call = ''stat'' then fs_stat a s
      else if call = ''readdir'' then fs_readdir a s
      else if call = ''rename'' then fs_rename a s
      else if call = ''unlink'' then fs_unlink a s
      else if call = ''mkdir'' then fs_mkdir a s
      else if call = ''rmdir'' then fs_rmdir a s
      else if call \<in> {''truncate'', ''ftruncate''} then fs_truncate (call = ''truncate'') a s
      else if call \<in> {''fsync'', ''fdatasync''} then Inr (psuccess, s)
      else Inr (mk_result ''error'' 0 0 [(''detail'', JStr ''unsupported call'')] JNull, s))"

definition fs_perform :: "digest \<Rightarrow> json \<Rightarrow> fakefs \<Rightarrow> (presult \<times> fakefs) result" where
  "fs_perform blake op s =
     (let a = fld op ''args''; call = the_str (fld op ''call''); forced = fs_fail s (op_id_of op) in
      if forced \<noteq> None \<and> forced \<noteq> Some []
      then Inr (mk_result (the forced) 0 0 [(''detail'', JStr ''injected'')] JNull, s)
      else if call = ''open'' then fs_open op s
      else if has_key a ''handle'' \<and> map_of (fs_handles s) (fld a ''handle'') = None
      then Inr (mk_result ''error'' EBADF 0 [] JNull, s)
      else fs_call blake call a s)"

definition fs_final_state :: "fakefs \<Rightarrow> (string \<times> string \<times> nat) list result" where
  "fs_final_state s =
     rbind (mmap (\<lambda>(p, ino). case fs_inodes s ino of None \<Rightarrow> Inl KeyError | Some buf \<Rightarrow> Inr (p, ''file'', length buf))
              (fs_names s)) (\<lambda>files.
     Inr (sort_key fst (map (\<lambda>p. (p, ''dir'', 0)) (filter (\<lambda>p. p \<noteq> ''.'') (fs_dirs s)) @ files)))"

definition fs_close_all :: "fakefs \<Rightarrow> fakefs result" where
  "fs_close_all s = Inr (s\<lparr>fs_handles := []\<rparr>)"

text \<open>The file system as a target of the executor: only \<open>perform\<close>, and no \<open>service_ns\<close>.\<close>

definition result_outcome :: "presult \<Rightarrow> outcome" where
  "result_outcome r = mk_outcome (pr_outcome r) (pr_bytes r)
     (case map_of (pr_meta r) ''detail'' of Some (JStr d) \<Rightarrow> d | _ \<Rightarrow> [])"

definition fs_backend :: "digest \<Rightarrow> fakefs backend" where
  "fs_backend blake = \<lparr>be_initialize = fs_initialize blake,
     be_payload = (\<lambda>_ _ _ _. Inl AttributeError), be_store = (\<lambda>_ _ _ _. Inl AttributeError),
     be_load = (\<lambda>_ _ _ _ _. Inl AttributeError), be_release = (\<lambda>_ _ _. Inl AttributeError),
     be_exists = None,
     be_perform = (\<lambda>op s. rbind (fs_perform blake op s) (\<lambda>(r, s'). Inr (result_outcome r, s'))),
     be_service_ns = (\<lambda>_ _. 0), be_adopt_profile = (\<lambda>_ s. s), be_close = fs_close_all\<rparr>"

section \<open>The invariant of the file system\<close>

text \<open>
  Names and handles refer to live inodes, no two names to the same one, inode numbers were handed
  out in sequence, and every open handle has its content identity and position.
\<close>

definition fs_inv :: "fakefs \<Rightarrow> bool" where
  "fs_inv s \<longleftrightarrow>
     distinct (map fst (fs_names s)) \<and> distinct (map snd (fs_names s)) \<and> distinct (map fst (fs_handles s)) \<and>
     (\<forall>ino\<in>snd ` set (fs_names s). fs_inodes s ino \<noteq> None) \<and>
     (\<forall>ino\<in>snd ` set (fs_handles s). fs_inodes s ino \<noteq> None) \<and>
     (\<forall>ino. fs_inodes s ino \<noteq> None \<longrightarrow> ino \<le> fs_next s) \<and>
     (\<forall>h\<in>fst ` set (fs_handles s). fs_handle_node s h \<noteq> None \<and> fs_pos s h \<noteq> None) \<and>
     0 < cp_block (fs_profile s)"

lemma fs_invD:
  assumes "fs_inv s"
  shows "distinct (map fst (fs_names s))" "distinct (map snd (fs_names s))" "distinct (map fst (fs_handles s))"
    "\<And>ino. ino \<in> snd ` set (fs_names s) \<Longrightarrow> fs_inodes s ino \<noteq> None"
    "\<And>ino. ino \<in> snd ` set (fs_handles s) \<Longrightarrow> fs_inodes s ino \<noteq> None"
    "\<And>ino. fs_inodes s ino \<noteq> None \<Longrightarrow> ino \<le> fs_next s"
    "\<And>h. h \<in> fst ` set (fs_handles s) \<Longrightarrow> fs_handle_node s h \<noteq> None \<and> fs_pos s h \<noteq> None"
    "0 < cp_block (fs_profile s)"
  using assms unfolding fs_inv_def by blast+

lemma fs_content_total:
  assumes "digest_size blake" "fs_inv s"
  shows "\<exists>data. fs_content blake s node off len = Inr data \<and> length data = len"
  using content_bytes [OF assms(1) fs_invD(8) [OF assms(2)], of "int off" "the (py_str node)" "int len"]
  by (simp add: fs_content_def)

lemma map_of_in: "map_of xs k = Some v \<Longrightarrow> k \<in> fst ` set xs \<and> v \<in> snd ` set xs"
  by (auto dest!: map_of_SomeD intro: rev_image_eqI)

lemma map_of_not_None: "k \<in> fst ` set xs \<longleftrightarrow> map_of xs k \<noteq> None"
  by (simp add: map_of_eq_None_iff)

lemma update_fst: "distinct (map fst xs) \<Longrightarrow> distinct (map fst (AList.update k v xs))"
  by (rule distinct_update)

lemma snd_update: "snd ` set (AList.update k v xs) \<subseteq> insert v (snd ` set xs)"
  by (induction xs) auto

lemma fst_update: "fst ` set (AList.update k v xs) = insert k (fst ` set xs)"
  using dom_update [of k v xs] by simp

lemma distinct_snd_update:
  assumes "distinct (map snd xs)" "v \<notin> snd ` set xs"
  shows "distinct (map snd (AList.update k v xs))"
  using assms
proof (induction xs)
  case (Cons x xs)
  then show ?case
    using snd_update [of k v xs] by (cases x) auto
qed simp

lemma delete_subset: "set (AList.delete k xs) \<subseteq> set xs"
  by (auto simp: AList.delete_eq)

lemma distinct_snd_delete: "distinct (map snd xs) \<Longrightarrow> distinct (map snd (AList.delete k xs))"
  by (simp add: AList.delete_eq distinct_map_filter)

lemma new_inode_inv:
  assumes "fs_inv s"
  shows "fs_inv (snd (new_inode data s))" "fst (new_inode data s) \<notin> snd ` set (fs_names s)"
    "fst (new_inode data s) \<notin> snd ` set (fs_handles s)" "fs_inodes s (fst (new_inode data s)) = None"
proof -
  have "fs_inodes s (Suc (fs_next s)) = None"
    using fs_invD(6) [OF assms, of "Suc (fs_next s)"] by (cases "fs_inodes s (Suc (fs_next s))") auto
  then show "fs_inv (snd (new_inode data s))" "fst (new_inode data s) \<notin> snd ` set (fs_names s)"
    "fst (new_inode data s) \<notin> snd ` set (fs_handles s)" "fs_inodes s (fst (new_inode data s)) = None"
    using assms fs_invD(4,5) [OF assms, of "Suc (fs_next s)"]
    by (auto simp: new_inode_def fs_inv_def le_Suc_eq)
qed

lemma fs_inodes_inv:
  assumes "fs_inv s" "fs_inodes s ino \<noteq> None"
  shows "fs_inv (s\<lparr>fs_inodes := (fs_inodes s)(ino \<mapsto> data)\<rparr>)"
  using assms by (auto simp: fs_inv_def)

section \<open>Every call keeps the invariant and returns\<close>

definition steps_ok :: "(presult \<times> fakefs) result \<Rightarrow> bool" where
  "steps_ok r \<longleftrightarrow> (\<exists>res s'. r = Inr (res, s') \<and> fs_inv s')"

lemma steps_okI: "fs_inv s' \<Longrightarrow> steps_ok (Inr (res, s'))"
  by (simp add: steps_ok_def)

lemma handle_inode_ok:
  assumes "fs_inv s" "map_of (fs_handles s) h \<noteq> None"
  obtains ino buf where "map_of (fs_handles s) h = Some ino" "fs_inodes s ino = Some buf" "handle_inode s h = Inr (ino, buf)"
proof -
  obtain ino where ino: "map_of (fs_handles s) h = Some ino"
    using assms(2) by auto
  then obtain buf where "fs_inodes s ino = Some buf"
    using fs_invD(5) [OF assms(1) conjunct2 [OF map_of_in [OF ino]]] by auto
  with ino that show ?thesis by (simp add: handle_inode_def)
qed

lemma handle_tables:
  assumes "fs_inv s" "map_of (fs_handles s) h \<noteq> None"
  shows "\<exists>node. handle_node_of s h = Inr node" "\<exists>n. fs_pos s h = Some n"
  using fs_invD(7) [OF assms(1), of h] assms(2) by (auto simp: map_of_not_None handle_node_of_def)

lemma fs_offset_ok:
  assumes "fs_inv s" "map_of (fs_handles s) (fld a ''handle'') \<noteq> None"
    "positional \<Longrightarrow> is_int (fld a ''offset'')"
  shows "\<exists>off. fs_offset positional a s = Inr off"
  using handle_tables(2) [OF assms(1,2)] assms(3) by (auto simp: fs_offset_def is_int_iff)

lemma fs_write_ok:
  assumes "digest_size blake" "fs_inv s" "map_of (fs_handles s) (fld a ''handle'') \<noteq> None"
    "positional \<Longrightarrow> is_int (fld a ''offset'')" "is_int (fld a ''length'')"
  shows "steps_ok (fs_write blake positional a s)"
proof -
  obtain ino buf where ino: "fs_inodes s ino = Some buf" "handle_inode s (fld a ''handle'') = Inr (ino, buf)"
    using handle_inode_ok [OF assms(2,3)] by blast
  obtain off where off: "fs_offset positional a s = Inr off"
    using fs_offset_ok [OF assms(2-4)] by blast
  obtain node where node: "handle_node_of s (fld a ''handle'') = Inr node"
    using handle_tables(1) [OF assms(2,3)] by blast
  obtain len where len: "as_count (fld a ''length'') = Inr len"
    using assms(5) by (auto simp: is_int_iff)
  obtain data where data: "fs_content blake s node off len = Inr data"
    using fs_content_total [OF assms(1,2)] by blast
  have "fs_inv (s\<lparr>fs_inodes := (fs_inodes s)(ino \<mapsto> overwrite buf off data)\<rparr>)"
    using fs_inodes_inv [OF assms(2)] ino(1) by simp
  then have "fs_inv (s\<lparr>fs_inodes := (fs_inodes s)(ino \<mapsto> overwrite buf off data), fs_pos := (fs_pos s)(h \<mapsto> n)\<rparr>)" for h n
    by (simp add: fs_inv_def)
  then show ?thesis
    using \<open>fs_inv (s\<lparr>fs_inodes := (fs_inodes s)(ino \<mapsto> overwrite buf off data)\<rparr>)\<close>
    by (simp add: fs_write_def ino off node len data Let_def steps_okI)
qed

lemma fs_read_ok:
  assumes "digest_size blake" "fs_inv s" "map_of (fs_handles s) (fld a ''handle'') \<noteq> None"
    "positional \<Longrightarrow> is_int (fld a ''offset'')" "is_int (fld a ''length'')"
  shows "steps_ok (fs_read blake positional a s)"
proof -
  obtain ino buf where ino: "handle_inode s (fld a ''handle'') = Inr (ino, buf)"
    using handle_inode_ok [OF assms(2,3)] by blast
  obtain off where off: "fs_offset positional a s = Inr off"
    using fs_offset_ok [OF assms(2-4)] by blast
  obtain node where node: "handle_node_of s (fld a ''handle'') = Inr node"
    using handle_tables(1) [OF assms(2,3)] by blast
  obtain len where len: "as_count (fld a ''length'') = Inr len"
    using assms(5) by (auto simp: is_int_iff)
  define chunk where "chunk = pyslice buf off (off + len)"
  obtain data where data: "fs_content blake s node off (length chunk) = Inr data"
    using fs_content_total [OF assms(1,2)] by blast
  have "fs_inv (s\<lparr>fs_pos := (fs_pos s)(h \<mapsto> n)\<rparr>)" for h n
    using assms(2) by (simp add: fs_inv_def)
  then show ?thesis
    using assms(2) by (cases "chunk = []")
      (simp_all add: fs_read_def ino off node len data Let_def steps_okI chunk_def [symmetric])
qed

lemma open_node_ok: "is_obj op \<Longrightarrow> has_key op ''expected'' \<Longrightarrow> \<exists>n. open_node op s = Inr n"
  by (auto simp: open_node_def Let_def obj_index_def split: option.split)

lemma fs_attach_ok:
  assumes inv: "fs_inv s" and name: "map_of (fs_names s) (the_str (fld (fld op ''args'') ''path'')) = Some ino"
    and op: "is_obj op" "has_key op ''expected''"
  shows "steps_ok (fs_attach op fl s)"
proof -
  define h where "h = fld (fld op ''args'') ''handle''"
  define s2 where "s2 = (if JStr ''trunc'' \<in> fl then s\<lparr>fs_inodes := (fs_inodes s)(ino \<mapsto> [])\<rparr> else s)"
  define s3 where "s3 = s2\<lparr>fs_handles := AList.update h ino (fs_handles s2)\<rparr>"
  have ino: "fs_inodes s ino \<noteq> None"
    by (rule fs_invD(4) [OF inv conjunct2 [OF map_of_in [OF name]]])
  then have s2: "fs_inv s2" "fs_inodes s2 ino \<noteq> None" "fs_handles s2 = fs_handles s"
    using inv fs_inodes_inv [OF inv ino] by (simp_all add: s2_def)
  have live: "\<forall>i\<in>snd ` set (AList.update h ino (fs_handles s2)). fs_inodes s2 i \<noteq> None"
    using snd_update [of h ino "fs_handles s2"] fs_invD(5) [OF s2(1)] s2(2) by blast
  obtain node where node: "open_node op s3 = Inr node"
    using open_node_ok [OF op] by blast
  have "fs_inv (s3\<lparr>fs_path_node := pn, fs_handle_node := (fs_handle_node s2)(h \<mapsto> node),
      fs_pos := (fs_pos s2)(h \<mapsto> 0)\<rparr>)" for pn
    using s2(1) live update_fst [of "fs_handles s2" h ino] unfolding fs_inv_def s3_def
    by (simp add: fst_update)
  then show ?thesis
    by (simp add: fs_attach_def Let_def name h_def [symmetric] s2_def [symmetric] s3_def [symmetric] node steps_okI cong: if_cong)
qed

lemma fs_update_names_inv:
  assumes inv: "fs_inv s" and ino: "ino \<notin> snd ` set (fs_names s)" "fs_inodes s ino \<noteq> None"
  shows "fs_inv (s\<lparr>fs_names := AList.update p ino (fs_names s)\<rparr>)"
proof -
  have "\<forall>i\<in>snd ` set (AList.update p ino (fs_names s)). fs_inodes s i \<noteq> None"
    using snd_update [of p ino "fs_names s"] fs_invD(4) [OF inv] ino(2) by blast
  then show ?thesis
    using inv ino(1) update_fst [of "fs_names s" p ino] distinct_snd_update [of "fs_names s" ino p]
    unfolding fs_inv_def by simp
qed

lemma fs_open_ok:
  assumes inv: "fs_inv s" and op: "is_obj op" "has_key op ''expected''"
    and flags: "py_iter (fld (fld op ''args'') ''flags'') = Inr flags"
  shows "steps_ok (fs_open op s)"
proof (cases "map_of (fs_names s) (the_str (fld (fld op ''args'') ''path''))")
  case None
  define p where "p = the_str (fld (fld op ''args'') ''path'')"
  obtain ino s1 where s1: "new_inode [] s = (ino, s1)" by (cases "new_inode [] s")
  have keep: "fs_names s1 = fs_names s" "fs_inodes s1 ino \<noteq> None"
    using s1 by (auto simp: new_inode_def)
  note new = new_inode_inv [OF inv, of "[]", unfolded s1 fst_conv snd_conv]
  have "fs_inv (s1\<lparr>fs_names := AList.update p ino (fs_names s1)\<rparr>)"
    by (rule fs_update_names_inv [OF new(1)]) (use new(2) keep in simp_all)
  then have "steps_ok (fs_attach op (set flags) (s1\<lparr>fs_names := AList.update p ino (fs_names s1)\<rparr>))"
    by (rule fs_attach_ok [OF _ _ op]) (simp add: p_def [symmetric] update_conv)
  with None inv show ?thesis
    by (simp add: fs_open_def flags Let_def s1 p_def [symmetric] steps_okI)
next
  case (Some ino)
  then show ?thesis
    using inv fs_attach_ok [OF inv Some op] by (simp add: fs_open_def flags Let_def steps_okI)
qed

lemma delete_value:
  assumes "distinct (map snd xs)" "map_of xs k = Some v"
  shows "v \<notin> snd ` set (AList.delete k xs)"
proof
  assume "v \<in> snd ` set (AList.delete k xs)"
  then obtain k' where k': "(k', v) \<in> set xs" "k' \<noteq> k" by (auto simp: AList.delete_eq)
  have "inj_on snd (set xs)" using assms(1) by (simp add: distinct_map)
  from inj_onD [OF this _ k'(1) map_of_SomeD [OF assms(2)]] k'(2) show False by simp
qed

lemma fs_delete_names_inv:
  assumes "fs_inv s"
  shows "fs_inv (s\<lparr>fs_names := AList.delete p (fs_names s)\<rparr>)"
proof -
  have "snd ` set (AList.delete p (fs_names s)) \<subseteq> snd ` set (fs_names s)"
    using delete_subset [of p "fs_names s"] by blast
  then have "\<forall>i\<in>snd ` set (AList.delete p (fs_names s)). fs_inodes s i \<noteq> None"
    using fs_invD(4) [OF assms] by blast
  then show ?thesis
    using assms distinct_snd_delete [of "fs_names s" p] distinct_delete [of "fs_names s" p]
    unfolding fs_inv_def by simp
qed

lemma fs_close_ok:
  assumes "fs_inv s"
  shows "steps_ok (fs_close a s)"
proof -
  define hs where "hs = AList.delete (fld a ''handle'') (fs_handles s)"
  have "set hs \<subseteq> set (fs_handles s)" "distinct (map fst hs)"
    unfolding hs_def by (rule delete_subset) (rule distinct_delete [OF fs_invD(3) [OF assms]])
  then have "fs_inv (s\<lparr>fs_handles := hs\<rparr>)"
    using assms unfolding fs_inv_def by (simp add: subset_eq)
  then show ?thesis
    by (simp add: fs_close_def hs_def steps_okI)
qed

lemma fs_fstat_ok:
  assumes "fs_inv s" "map_of (fs_handles s) (fld a ''handle'') \<noteq> None"
  shows "steps_ok (fs_fstat a s)"
proof -
  obtain ino buf where "handle_inode s (fld a ''handle'') = Inr (ino, buf)"
    using handle_inode_ok [OF assms] by blast
  then show ?thesis by (simp add: fs_fstat_def steps_okI assms(1))
qed

lemma fs_stat_ok:
  assumes "fs_inv s"
  shows "steps_ok (fs_stat a s)"
proof (cases "map_of (fs_names s) (the_str (fld a ''path''))")
  case (Some ino)
  then have "fs_inodes s ino \<noteq> None"
    using fs_invD(4) [OF assms] map_of_in [OF Some] by blast
  then obtain buf where "fs_inodes s ino = Some buf" by blast
  with Some assms show ?thesis by (simp add: fs_stat_def steps_okI)
qed (simp add: fs_stat_def steps_okI assms)

lemma fs_readdir_ok: "fs_inv s \<Longrightarrow> steps_ok (fs_readdir a s)"
  by (simp add: fs_readdir_def Let_def steps_okI)

lemma fs_path_node_inv: "fs_inv (s\<lparr>fs_path_node := pn\<rparr>) = fs_inv s"
  by (simp add: fs_inv_def)

lemma fs_dirs_inv: "fs_inv (s\<lparr>fs_dirs := d\<rparr>) = fs_inv s"
  by (simp add: fs_inv_def)

lemma fs_rename_ok:
  assumes inv: "fs_inv s"
  shows "steps_ok (fs_rename a s)"
proof (cases "map_of (fs_names s) (the_str (fld a ''path''))")
  case None
  with inv show ?thesis
    by (simp add: fs_rename_def Let_def steps_okI fs_path_node_inv fs_dirs_inv split: option.split)
next
  case (Some ino)
  define ns where "ns = AList.delete (the_str (fld a ''path'')) (fs_names s)"
  define dst where "dst = the_str (fld a ''new_path'')"
  have ns: "fs_inv (s\<lparr>fs_names := ns\<rparr>)"
    unfolding ns_def by (rule fs_delete_names_inv [OF inv])
  have "ino \<notin> snd ` set ns"
    unfolding ns_def by (rule delete_value [OF fs_invD(2) [OF inv] Some])
  moreover have "fs_inodes s ino \<noteq> None"
    using fs_invD(4) [OF inv] map_of_in [OF Some] by blast
  ultimately have "fs_inv (s\<lparr>fs_names := AList.update dst ino ns\<rparr>)"
    using fs_update_names_inv [OF ns, of ino dst] by simp
  with Some show ?thesis
    by (simp add: fs_rename_def Let_def steps_okI fs_path_node_inv ns_def [symmetric] dst_def [symmetric]
        split: option.split)
qed

lemma fs_unlink_ok:
  assumes inv: "fs_inv s"
  shows "steps_ok (fs_unlink a s)"
proof (cases "map_of (fs_names s) (the_str (fld a ''path''))")
  case None
  with inv show ?thesis by (simp add: fs_unlink_def Let_def steps_okI)
next
  case (Some ino)
  define ns where "ns = AList.delete (the_str (fld a ''path'')) (fs_names s)"
  have ns: "fs_inv (s\<lparr>fs_names := ns\<rparr>)"
    unfolding ns_def by (rule fs_delete_names_inv [OF inv])
  have gone: "ino \<notin> snd ` set ns"
    unfolding ns_def by (rule delete_value [OF fs_invD(2) [OF inv] Some])
  have "fs_inv (s\<lparr>fs_names := ns, fs_inodes := (fs_inodes s)(ino := None)\<rparr>)" if "ino \<notin> snd ` set (fs_handles s)"
    using ns gone that unfolding fs_inv_def by auto
  with ns Some show ?thesis
    by (simp add: fs_unlink_def Let_def ns_def [symmetric] steps_okI fs_path_node_inv fs_inv_def)
qed

lemma fs_mkdir_ok: "fs_inv s \<Longrightarrow> steps_ok (fs_mkdir a s)"
  by (simp add: fs_mkdir_def Let_def steps_okI fs_dirs_inv)

lemma fs_rmdir_ok: "fs_inv s \<Longrightarrow> steps_ok (fs_rmdir a s)"
  by (simp add: fs_rmdir_def Let_def steps_okI fs_dirs_inv)

lemma fs_truncate_ok:
  assumes inv: "fs_inv s" and n: "is_int (fld a ''size'')"
    and h: "\<not> by_path \<longrightarrow> map_of (fs_handles s) (fld a ''handle'') \<noteq> None"
  shows "steps_ok (fs_truncate by_path a s)"
proof -
  define target where
    "target = (if by_path then map_of (fs_names s) (the_str (fld a ''path'')) else map_of (fs_handles s) (fld a ''handle''))"
  show ?thesis
  proof (cases target)
    case None
    with h inv show ?thesis
      by (cases by_path) (auto simp: fs_truncate_def Let_def target_def steps_okI)
  next
    case (Some ino)
    then have "ino \<in> snd ` set (fs_names s) \<or> ino \<in> snd ` set (fs_handles s)"
      using map_of_in [of "fs_names s" _ ino] map_of_in [of "fs_handles s" _ ino]
      by (cases by_path) (simp_all add: target_def)
    then obtain buf where buf: "fs_inodes s ino = Some buf"
      using fs_invD(4,5) [OF inv, of ino] by blast
    obtain k where k: "as_count (fld a ''size'') = Inr k" using n by (auto simp: is_int_iff)
    have "fs_inv (s\<lparr>fs_inodes := (fs_inodes s)(ino \<mapsto> resize buf k)\<rparr>)"
      by (rule fs_inodes_inv [OF inv]) (simp add: buf)
    with Some buf k show ?thesis
      by (cases by_path) (simp_all add: fs_truncate_def Let_def target_def steps_okI)
  qed
qed

section \<open>What the validator settles for a call\<close>

lemma v3_args_fields:
  assumes "v3_check_args wl nodes fam call args = Inr ()"
  shows "f \<in> set (call_fields fam call) \<Longrightarrow> has_key args f"
    "has_key args f \<Longrightarrow> f \<in> {''size'', ''offset'', ''length'', ''part''} \<Longrightarrow> is_int (fld args f)"
    "has_key args ''flags'' \<Longrightarrow> \<exists>flags. py_iter (fld args ''flags'') = Inr flags"
proof -
  have *: "\<exists>u. mforall (\<lambda>f. require (has_key args f) (Workload3Error ''lacks a field'')) (call_fields fam call) = Inr u"
    "\<exists>u. mforall (\<lambda>f. if has_key args f then rbind (v3_int (fld args f) 0) (\<lambda>_. Inr ()) else Inr ())
       [''size'', ''offset'', ''length'', ''part''] = Inr u"
    "\<exists>u. (if has_key args ''flags'' then rbind (py_iter (fld args ''flags'')) (\<lambda>flags.
         mforall (\<lambda>fl. rbind (v3_enum fl OPEN_FLAGS) (\<lambda>_. Inr ())) flags) else Inr ()) = Inr u"
    using assms unfolding v3_check_args_def rbind_Inr_iff by blast+
  show "has_key args f" if "f \<in> set (call_fields fam call)"
    using *(1) that unfolding mforall_Inr_iff require_Inr_iff by blast
  show "is_int (fld args f)" if "has_key args f" "f \<in> {''size'', ''offset'', ''length'', ''part''}"
    using *(2) that unfolding mforall_Inr_iff v3_int_def
    by (auto simp: rbind_Inr_iff check_int_Inr_iff is_int_iff split: if_splits)
  show "\<exists>flags. py_iter (fld args ''flags'') = Inr flags" if "has_key args ''flags''"
    using *(3) that by (auto simp: rbind_Inr_iff)
qed

lemma posix_calls:
  "call \<in> set (map fst (calls_of ''posix'')) \<longleftrightarrow>
     call \<in> {''open'', ''close'', ''pread'', ''pwrite'', ''read'', ''write'', ''fstat'', ''stat'', ''readdir'',
      ''rename'', ''unlink'', ''mkdir'', ''rmdir'', ''truncate'', ''ftruncate'', ''fsync'', ''fdatasync''}"
  by (simp add: calls_of_def CALLS_def)

text \<open>The handle and the numbers a call needs are there.\<close>

lemma posix_call_fields:
  assumes "v3_check_args wl nodes ''posix'' call a = Inr ()"
    "\<not> (has_key a ''handle'' \<and> map_of (fs_handles s) (fld a ''handle'') = None)"
  shows "call \<in> {''pread'', ''pwrite'', ''read'', ''write'', ''fstat'', ''ftruncate''} \<Longrightarrow>
      map_of (fs_handles s) (fld a ''handle'') \<noteq> None"
    "call \<in> {''pread'', ''pwrite'', ''read'', ''write''} \<Longrightarrow> is_int (fld a ''length'')"
    "call \<in> {''pread'', ''pwrite''} \<Longrightarrow> is_int (fld a ''offset'')"
    "call \<in> {''truncate'', ''ftruncate''} \<Longrightarrow> is_int (fld a ''size'')"
proof -
  note f1 = v3_args_fields(1) [OF assms(1)] and f2 = v3_args_fields(2) [OF assms(1)]
  show "call \<in> {''pread'', ''pwrite'', ''read'', ''write'', ''fstat'', ''ftruncate''} \<Longrightarrow>
      map_of (fs_handles s) (fld a ''handle'') \<noteq> None"
    using f1 [of "''handle''"] assms(2) by (auto simp: call_fields_def calls_of_def CALLS_def)
  show "call \<in> {''pread'', ''pwrite'', ''read'', ''write''} \<Longrightarrow> is_int (fld a ''length'')"
    using f1 [of "''length''"] f2 [of "''length''"] by (auto simp: call_fields_def calls_of_def CALLS_def)
  show "call \<in> {''pread'', ''pwrite''} \<Longrightarrow> is_int (fld a ''offset'')"
    using f1 [of "''offset''"] f2 [of "''offset''"] by (auto simp: call_fields_def calls_of_def CALLS_def)
  show "call \<in> {''truncate'', ''ftruncate''} \<Longrightarrow> is_int (fld a ''size'')"
    using f1 [of "''size''"] f2 [of "''size''"] by (auto simp: call_fields_def calls_of_def CALLS_def)
qed

lemma fs_call_ok:
  assumes blake: "digest_size blake" and inv: "fs_inv s"
    and args: "v3_check_args wl nodes ''posix'' call a = Inr ()"
    and h: "\<not> (has_key a ''handle'' \<and> map_of (fs_handles s) (fld a ''handle'') = None)"
  shows "steps_ok (fs_call blake call a s)"
proof -
  note known = posix_call_fields [OF args h]
  show ?thesis
  proof (cases "call \<in> {''close'', ''pwrite'', ''write'', ''pread'', ''read'', ''fstat'', ''truncate'', ''ftruncate''}")
    case True
    then show ?thesis
      using known by (elim insertE) (simp_all add: fs_call_def fs_close_ok [OF inv] fs_write_ok [OF blake inv]
          fs_read_ok [OF blake inv] fs_fstat_ok [OF inv] fs_truncate_ok [OF inv])
  next
    case False
    then show ?thesis
      using inv by (simp add: fs_call_def fs_stat_ok fs_readdir_ok fs_rename_ok fs_unlink_ok fs_mkdir_ok fs_rmdir_ok steps_okI)
  qed
qed

lemma fs_perform_ok:
  assumes blake: "digest_size blake" and inv: "fs_inv s"
    and op: "is_obj op" "has_key op ''expected''" "fld op ''call'' = JStr call"
    and args: "v3_check_args wl nodes ''posix'' call (fld op ''args'') = Inr ()"
  shows "steps_ok (fs_perform blake op s)"
proof -
  have opened: "steps_ok (fs_open op s)" if "call = ''open''"
  proof -
    have "has_key (fld op ''args'') ''flags''"
      using v3_args_fields(1) [OF args, of "''flags''"] that by (simp add: call_fields_def calls_of_def CALLS_def)
    then obtain flags where "py_iter (fld (fld op ''args'') ''flags'') = Inr flags"
      using v3_args_fields(3) [OF args] by blast
    then show ?thesis by (rule fs_open_ok [OF inv op(1,2)])
  qed
  show ?thesis
    using opened fs_call_ok [OF blake inv args] steps_okI [OF inv] by (simp add: fs_perform_def Let_def op(3))
qed

section \<open>Writing and reading back\<close>

lemma length_overwrite: "length (overwrite buf off data) = max (length buf) (off + length data)"
  by (simp add: overwrite_def Let_def)

lemma pyslice_overwrite: "pyslice (overwrite buf off data) off (off + length data) = data"
  by (simp add: pyslice_def overwrite_def Let_def)

text \<open>Bytes outside the written range keep their value, and a gap before it reads as zeros.\<close>

lemma nth_overwrite:
  assumes "i < max (length buf) (off + length data)"
  shows "overwrite buf off data ! i =
    (if off \<le> i \<and> i < off + length data then data ! (i - off) else if i < length buf then buf ! i else 0)"
  using assms by (auto simp: overwrite_def Let_def nth_append min_def)

section \<open>Open handles and names\<close>

lemma fs_unlink_handles:
  assumes "fs_unlink a s = Inr (r, s')" "map_of (fs_handles s) h = Some ino"
  shows "handle_inode s' h = handle_inode s h" "map_of (fs_handles s') h = Some ino" "fs_next s' = fs_next s"
    "pr_outcome r = ''success'' \<Longrightarrow> map_of (fs_names s') (the_str (fld a ''path'')) = None"
proof -
  have "\<exists>i. map_of (fs_names s) (the_str (fld a ''path'')) = Some i \<and> r = psuccess \<and>
      (s' = s\<lparr>fs_names := AList.delete (the_str (fld a ''path'')) (fs_names s),
          fs_path_node := (fs_path_node s)(the_str (fld a ''path'') := None)\<rparr> \<or>
       i \<noteq> ino \<and> s' = s\<lparr>fs_names := AList.delete (the_str (fld a ''path'')) (fs_names s),
          fs_path_node := (fs_path_node s)(the_str (fld a ''path'') := None), fs_inodes := (fs_inodes s)(i := None)\<rparr>)
    \<or> r = pmiss \<and> s' = s"
    using assms(1) conjunct2 [OF map_of_in [OF assms(2)]]
    by (simp add: fs_unlink_def Let_def split: option.splits if_splits) blast+
  then show "handle_inode s' h = handle_inode s h" "map_of (fs_handles s') h = Some ino" "fs_next s' = fs_next s"
    "pr_outcome r = ''success'' \<Longrightarrow> map_of (fs_names s') (the_str (fld a ''path'')) = None"
    using assms(2) by (auto simp: handle_inode_def mk_result_def delete_conv)
qed

lemma fs_rename_handles:
  assumes "fs_rename a s = Inr (r, s')"
  shows "handle_inode s' h = handle_inode s h" "fs_handles s' = fs_handles s"
  using assms
  by (auto simp: fs_rename_def Let_def handle_inode_def split: option.splits if_splits)

text \<open>What \<open>open\<close> leaves of the handles that were open already.\<close>

lemma fs_attach_handles:
  assumes "fs_attach op fl s = Inr (r, s')" "h \<noteq> fld (fld op ''args'') ''handle''"
    "map_of (fs_names s) (the_str (fld (fld op ''args'') ''path'')) = Some new" "map_of (fs_handles s) h = Some ino" "new \<noteq> ino"
  shows "handle_inode s' h = handle_inode s h"
  using assms by (auto simp: fs_attach_def Let_def rbind_Inr_iff handle_inode_def update_conv split: if_splits)

lemma fs_attach_new:
  assumes "fs_attach op fl s = Inr (r, s')" "map_of (fs_names s) (the_str (fld (fld op ''args'') ''path'')) = Some new"
    "fs_inodes s new = Some []"
  shows "handle_inode s' (fld (fld op ''args'') ''handle'') = Inr (new, [])"
  using assms by (auto simp: fs_attach_def Let_def rbind_Inr_iff handle_inode_def update_conv split: if_splits)

section \<open>The initial state\<close>

lemma fs_new_inv: "0 < cp_block profile \<Longrightarrow> fs_inv (fs_new profile fail)"
  by (simp add: fs_new_def fs_inv_def)

section \<open>An example\<close>

text \<open>One file with one byte, open under a handle.\<close>

definition fs_example :: fakefs where
  "fs_example = (fs_new (mixed_defaults\<lparr>cp_block := 8\<rparr>) Map.empty)\<lparr>fs_inodes := [1 \<mapsto> [7]], fs_names := [(''f'', 1)],
     fs_handles := [(JStr ''h'', 1)], fs_handle_node := [JStr ''h'' \<mapsto> JStr ''n0''], fs_path_node := [''f'' \<mapsto> JStr ''n0''],
     fs_pos := [JStr ''h'' \<mapsto> 0], fs_next := 1\<rparr>"

definition fs_example_args :: json where
  "fs_example_args = JObj [(''handle'', JStr ''h''), (''offset'', JInt 2), (''length'', JInt 4), (''path'', JStr ''f'')]"

definition fs_example_open :: json where
  "fs_example_open = JObj [(''call'', JStr ''open''), (''expected'', JObj []), (''args'', JObj [(''path'', JStr ''f''),
     (''flags'', JList [JStr ''rdwr'', JStr ''creat'']), (''handle'', JStr ''g'')])]"

lemma fs_example_inv: "fs_inv fs_example"
  by (simp add: fs_example_def fs_inv_def fs_new_def)

section \<open>Properties\<close>



text \<open>
  C14. Positional writes are read back: after \<open>pwrite\<close> on an open handle, \<open>pread\<close> of the same range
  through that handle succeeds with all its bytes, verified against the content of the handle's
  identity, and leaves the file system as it is.
\<close>

theorem pwrite_pread:
  assumes "digest_size blake" "fs_inv s" "fs_write blake True a s = Inr (r, s')"
    "as_count (fld a ''length'') = Inr len"
  shows "fs_read blake True a s' = Inr (mk_result ''success'' 0 len [] JNull, s')"
proof -
  define h where "h = fld a ''handle''"
  obtain ino buf off node data where
    ino: "handle_inode s h = Inr (ino, buf)" and off: "fs_offset True a s = Inr off"
    and node: "handle_node_of s h = Inr node" and data: "fs_content blake s node off len = Inr data"
    and s': "s' = s\<lparr>fs_inodes := (fs_inodes s)(ino \<mapsto> overwrite buf off data)\<rparr>"
    using assms(3,4) by (auto simp: fs_write_def Let_def rbind_Inr_iff h_def)
  have len: "length data = len"
    using fs_content_total [OF assms(1,2), of node off len] data by auto
  have "handle_inode s' h = Inr (ino, overwrite buf off data)" "fs_offset True a s' = Inr off"
    "handle_node_of s' h = Inr node" "fs_content blake s' node off n = fs_content blake s node off n" for n
    using ino off node by (auto simp: s' handle_inode_def fs_offset_def handle_node_of_def fs_content_def split: option.splits)
  moreover have "pyslice (overwrite buf off data) off (off + len) = data"
    using pyslice_overwrite [of buf off data] by (simp add: len)
  ultimately show ?thesis
    using data len by (auto simp: fs_read_def h_def [symmetric] assms(4))
qed

theorem pwrite_pread_witness:
  "\<exists>r s'. fs_write example_digest True fs_example_args fs_example = Inr (r, s') \<and>
     fs_read example_digest True fs_example_args s' = Inr (mk_result ''success'' 0 4 [] JNull, s')"
proof -
  have "steps_ok (fs_write example_digest True fs_example_args fs_example)"
    by (rule fs_write_ok [OF example_digest_size fs_example_inv]) (simp_all add: fs_example_def fs_example_args_def)
  then obtain r s' where "fs_write example_digest True fs_example_args fs_example = Inr (r, s')"
    by (auto simp: steps_ok_def)
  then show ?thesis
    using pwrite_pread [OF example_digest_size fs_example_inv, of fs_example_args r s' 4] by (simp add: fs_example_args_def)
qed

text \<open>
  C29. A name is not the file. A handle that is open when its file is unlinked keeps reading the
  same inode with the same bytes, and opening the freed name again with \<open>creat\<close> makes an empty
  file that this handle does not see.
\<close>

theorem unlink_keeps_open_file:
  assumes "fs_inv s" "map_of (fs_handles s) h = Some ino"
    and "fs_unlink a s = Inr (r1, s1)" "pr_outcome r1 = ''success''"
    and "fld (fld op ''args'') ''path'' = fld a ''path''" "fld (fld op ''args'') ''handle'' = h'" "h' \<noteq> h"
    and "fs_open op s1 = Inr (r2, s2)" "pr_outcome r2 = ''success''"
  shows "handle_inode s1 h = handle_inode s h \<and> handle_inode s2 h = handle_inode s h \<and>
    (\<exists>new. new \<noteq> ino \<and> handle_inode s2 h' = Inr (new, []))"
proof -
  note un = fs_unlink_handles [OF assms(3,2)]
  have inv1: "fs_inv s1"
    using fs_unlink_ok [OF assms(1), of a] assms(3) by (simp add: steps_ok_def)
  obtain new s' where new: "new_inode [] s1 = (new, s')" by (cases "new_inode [] s1")
  define s'' where "s'' = s'\<lparr>fs_names := AList.update (the_str (fld a ''path'')) new (fs_names s')\<rparr>"
  have fresh: "new \<noteq> ino"
    using new_inode_inv(3) [OF inv1, of "[]"] map_of_in [OF un(2)] by (auto simp: new)
  have s'': "map_of (fs_names s'') (the_str (fld a ''path'')) = Some new" "fs_inodes s'' new = Some []"
    "map_of (fs_handles s'') h = Some ino" "handle_inode s'' h = handle_inode s1 h"
    using new un(2) fresh by (auto simp: s''_def new_inode_def update_conv handle_inode_def)
  obtain fl where "fs_attach op fl s'' = Inr (r2, s2)"
    using assms(8,9) un(4) [OF assms(4)]
    by (auto simp: fs_open_def Let_def rbind_Inr_iff assms(5) new s''_def mk_result_def split: if_splits)
  then have "handle_inode s2 h = handle_inode s'' h" "handle_inode s2 h' = Inr (new, [])"
    using fs_attach_handles [of op fl s'' r2 s2 h new ino] fs_attach_new [of op fl s'' r2 s2 new] s'' fresh assms(5-7) by simp_all
  then show ?thesis
    using un(1) s''(4) fresh by auto
qed

theorem unlink_keeps_open_file_witness:
  "\<exists>r1 s1 r2 s2. fs_unlink fs_example_args fs_example = Inr (r1, s1) \<and> fs_open fs_example_open s1 = Inr (r2, s2) \<and>
     handle_inode s2 (JStr ''h'') = Inr (1, [7]) \<and> (\<exists>new. new \<noteq> 1 \<and> handle_inode s2 (JStr ''g'') = Inr (new, []))"
proof -
  obtain r1 s1 r2 s2 where run: "fs_unlink fs_example_args fs_example = Inr (r1, s1)" "pr_outcome r1 = ''success''"
    "fs_open fs_example_open s1 = Inr (r2, s2)" "pr_outcome r2 = ''success''"
    by (simp add: fs_unlink_def fs_open_def fs_attach_def open_node_def fs_example_def fs_example_args_def fs_example_open_def
        fs_new_def mk_result_def new_inode_def parent_ok_def parent_dir_def rpartition_def Let_def obj_index_def)
  have "handle_inode fs_example (JStr ''h'') = Inr (1, [7])" "map_of (fs_handles fs_example) (JStr ''h'') = Some 1"
    by (simp_all add: fs_example_def handle_inode_def)
  with unlink_keeps_open_file [OF fs_example_inv this(2) run(1,2) _ _ _ run(3,4)] run(1,3) show ?thesis
    by (auto simp: fs_example_args_def fs_example_open_def)
qed

end
