(* ===== verification/Py_Float.thy ===== *)
theory Py_Float
  imports Kvio_Json
begin

text \<open>
  The arithmetic of Python numbers the sizing modules use: division of integers into floats, products
  and sums that mix integers and floats, \<open>round\<close>, \<open>int\<close> and the two-decimal format.

  A float is the exact rational it denotes. Every operation on floats rounds its exact result to 53
  significant bits, ties to even; the exponent range is unbounded, so the model has no overflow to
  infinity and no subnormal numbers, and it does not distinguish the two zeros.
\<close>

section \<open>Rounding to 53 significant bits\<close>

fun bit_len :: "nat \<Rightarrow> nat" where
  "bit_len n = (if n = 0 then 0 else Suc (bit_len (n div 2)))"

declare bit_len.simps [simp del]

definition pow2 :: "int \<Rightarrow> rat" where
  "pow2 e = (if 0 \<le> e then 2 ^ nat e else 1 / 2 ^ nat (- e))"

text \<open>The exponent of a positive rational: \<open>pow2 (exponent q) \<le> q < pow2 (exponent q + 1)\<close>.\<close>

definition exponent :: "rat \<Rightarrow> int" where
  "exponent q =
     (case quotient_of q of (a, b) \<Rightarrow>
        let e = int (bit_len (nat a)) - int (bit_len (nat b)) in if pow2 e \<le> q then e else e - 1)"

definition round_half_even :: "rat \<Rightarrow> int" where
  "round_half_even q =
     (let f = \<lfloor>q\<rfloor>; d = q - of_int f in
      if d < 1 / 2 then f else if 1 / 2 < d then f + 1 else if even f then f else f + 1)"

definition fl :: "rat \<Rightarrow> rat" where
  "fl q = (if q = 0 then 0 else
     let u = pow2 (exponent \<bar>q\<bar> - 52) in of_int (round_half_even (q / u)) * u)"

section \<open>Operations on floats and numbers\<close>

definition fneg :: "pyfloat \<Rightarrow> bool" where
  "fneg x = (case x of Finite q \<Rightarrow> q < 0 | NegInf \<Rightarrow> True | _ \<Rightarrow> False)"

definition fmul :: "pyfloat \<Rightarrow> pyfloat \<Rightarrow> pyfloat" where
  "fmul x y = (case (x, y) of
      (Finite a, Finite b) \<Rightarrow> Finite (fl (a * b))
    | _ \<Rightarrow> if x = NaN \<or> y = NaN \<or> x = Finite 0 \<or> y = Finite 0 then NaN
          else if fneg x = fneg y then PosInf else NegInf)"

definition fdiv :: "pyfloat \<Rightarrow> pyfloat \<Rightarrow> pyfloat" where
  "fdiv x y = (case (x, y) of
      (Finite a, Finite b) \<Rightarrow> Finite (fl (a / b))
    | (Finite a, PosInf) \<Rightarrow> Finite 0
    | (Finite a, NegInf) \<Rightarrow> Finite 0
    | (PosInf, Finite b) \<Rightarrow> if 0 \<le> b then PosInf else NegInf
    | (NegInf, Finite b) \<Rightarrow> if 0 \<le> b then NegInf else PosInf
    | _ \<Rightarrow> NaN)"

definition fadd :: "pyfloat \<Rightarrow> pyfloat \<Rightarrow> pyfloat" where
  "fadd x y = (case (x, y) of
      (Finite a, Finite b) \<Rightarrow> Finite (fl (a + b))
    | (Finite a, _) \<Rightarrow> y
    | (_, Finite b) \<Rightarrow> x
    | _ \<Rightarrow> if x = y then x else NaN)"

text \<open>The integer a value is (a boolean counts as one), and the float it converts to.\<close>

fun int_like :: "json \<Rightarrow> int option" where
  "int_like (JInt i) = Some i"
| "int_like (JBool b) = Some (if b then 1 else 0)"
| "int_like _ = None"

fun float_like :: "json \<Rightarrow> pyfloat option" where
  "float_like (JInt i) = Some (Finite (fl (of_int i)))"
| "float_like (JBool b) = Some (Finite (if b then 1 else 0))"
| "float_like (JFloat x) = Some x"
| "float_like _ = None"

text \<open>
  Products and sums of numbers. (A sequence times an integer, which Python repeats, does not occur:
  one operand is always the result of a division or of \<open>int\<close>.)
\<close>

definition py_arith :: "(int \<Rightarrow> int \<Rightarrow> int) \<Rightarrow> (pyfloat \<Rightarrow> pyfloat \<Rightarrow> pyfloat) \<Rightarrow> json \<Rightarrow> json \<Rightarrow> json result" where
  "py_arith f g a b = (case (int_like a, int_like b) of
      (Some i, Some j) \<Rightarrow> Inr (JInt (f i j))
    | _ \<Rightarrow> (case (float_like a, float_like b) of
        (Some x, Some y) \<Rightarrow> Inr (JFloat (g x y)) | _ \<Rightarrow> Inl TypeError))"

definition py_mul :: "json \<Rightarrow> json \<Rightarrow> json result" where "py_mul = py_arith (*) fmul"
definition py_add :: "json \<Rightarrow> json \<Rightarrow> json result" where "py_add = py_arith (+) fadd"

definition py_sum :: "json list \<Rightarrow> json result" where
  "py_sum xs = mfold py_add (JInt 0) xs"

definition py_truediv :: "json \<Rightarrow> json \<Rightarrow> json result" where
  "py_truediv a b = (case (float_like a, float_like b) of
      (Some x, Some y) \<Rightarrow>
        if num_of b = Some (Finite 0) then Inl ZeroDivisionError
        else (case (int_like a, int_like b) of
               (Some i, Some j) \<Rightarrow> Inr (JFloat (Finite (fl (of_int i / of_int j))))
             | _ \<Rightarrow> Inr (JFloat (fdiv x y)))
    | _ \<Rightarrow> Inl TypeError)"

definition trunc :: "rat \<Rightarrow> int" where
  "trunc q = (if 0 \<le> q then \<lfloor>q\<rfloor> else \<lceil>q\<rceil>)"

definition is_space :: "char \<Rightarrow> bool" where
  "is_space c \<longleftrightarrow> (of_char c :: nat) \<in> {9, 10, 11, 12, 13, 28, 29, 30, 31, 32, 133, 160}"

definition strip_space :: "string \<Rightarrow> string" where
  "strip_space s = rev (dropWhile is_space (rev (dropWhile is_space s)))"

text \<open>The digits of an integer literal: groups of digits with single underscores between them.\<close>

fun digit_groups :: "string \<Rightarrow> string option" where
  "digit_groups [] = None"
| "digit_groups [c] = (if is_digit c then Some [c] else None)"
| "digit_groups (c # d # s) =
     (if \<not> is_digit c then None
      else map_option ((#) c) (digit_groups (if d = CHR ''_'' then s else d # s)))"

definition int_of_literal :: "string \<Rightarrow> int result" where
  "int_of_literal s =
     (let t = strip_space s;
          negative = starts_with t ''-'';
          body = (if negative \<or> starts_with t ''+'' then tl t else t) in
      case digit_groups body of
        None \<Rightarrow> Inl (ValueError ''invalid literal for int()'')
      | Some ds \<Rightarrow> Inr (if negative then - int (int_of_digits ds) else int (int_of_digits ds)))"

fun py_int :: "json \<Rightarrow> int result" where
  "py_int (JInt i) = Inr i"
| "py_int (JBool b) = Inr (if b then 1 else 0)"
| "py_int (JFloat (Finite q)) = Inr (trunc q)"
| "py_int (JFloat NaN) = Inl (ValueError ''cannot convert float NaN to integer'')"
| "py_int (JFloat _) = Inl OverflowError"
| "py_int (JStr s) = int_of_literal s"
| "py_int _ = Inl TypeError"

text \<open>\<open>int(round(v))\<close> of a number.\<close>

fun py_round :: "json \<Rightarrow> int result" where
  "py_round (JFloat (Finite q)) = Inr (round_half_even q)"
| "py_round (JFloat NaN) = Inl (ValueError ''cannot convert float NaN to integer'')"
| "py_round (JFloat _) = Inl OverflowError"
| "py_round (JInt i) = Inr i"
| "py_round (JBool b) = Inr (if b then 1 else 0)"
| "py_round _ = Inl TypeError"

text \<open>\<open>f"{x:.2f}"\<close> of a finite float.\<close>

definition fmt2 :: "rat \<Rightarrow> string" where
  "fmt2 q =
     (let n = \<bar>round_half_even (q * 100)\<bar>; m = nat (n mod 100) in
      (if q < 0 then ''-'' else []) @ str_int (n div 100) @ ''.'' @ str_nat (m div 10) @ str_nat (m mod 10))"

section \<open>When rounding is exact\<close>

lemma bit_len_lower: "0 < n \<Longrightarrow> 2 ^ (bit_len n - 1) \<le> n"
proof (induction n rule: bit_len.induct)
  case (1 n)
  then show ?case
  proof (cases "n div 2 = 0")
    case True
    then have "bit_len n = 1" using 1(2) by (subst bit_len.simps) (simp add: bit_len.simps)
    with 1(2) show ?thesis by simp
  next
    case False
    then have "2 ^ (bit_len (n div 2) - 1) \<le> n div 2" using 1 by simp
    moreover have "bit_len n - 1 = Suc (bit_len (n div 2) - 1)"
      using 1(2) False by (subst bit_len.simps) (simp add: bit_len.simps [of "n div 2"])
    ultimately show ?thesis by simp
  qed
qed

lemma bit_len_upper: "n < 2 ^ bit_len n"
proof (induction n rule: bit_len.induct)
  case (1 n)
  then show ?case
  proof (cases "n = 0")
    case False
    then have "n div 2 < 2 ^ bit_len (n div 2)" by (rule 1)
    then have "n < 2 * 2 ^ bit_len (n div 2)" by linarith
    with False show ?thesis by (subst bit_len.simps) simp
  qed (simp add: bit_len.simps)
qed

lemma pow2_pos [simp]: "0 < pow2 e"
  by (simp add: pow2_def)

lemma pow2_nonzero [simp]: "pow2 e \<noteq> 0"
  using pow2_pos [of e] by linarith

lemma pow2_add: "pow2 (a + b) = pow2 a * pow2 b"
proof -
  have *: "pow2 e = 2 powi e" for e by (simp add: pow2_def power_int_def inverse_eq_divide power_one_over)
  show ?thesis unfolding * by (simp add: power_int_add)
qed

lemma pow2_nat: "pow2 (int n) = 2 ^ n"
  by (simp add: pow2_def)

lemma exponent_lower:
  assumes "0 < q"
  shows "pow2 (exponent q) \<le> q"
proof -
  obtain a b where ab: "quotient_of q = (a, b)" by (cases "quotient_of q")
  have b: "0 < b" using quotient_of_denom_pos [OF ab] .
  have q: "q = of_int a / of_int b" using quotient_of_div [OF ab] .
  with assms b have a: "0 < a" by (simp add: zero_less_divide_iff)
  define m n where "m = nat a" and "n = nat b"
  have mn: "0 < m" "0 < n" "q = of_nat m / of_nat n"
    using a b q by (simp_all add: m_def n_def)
  define e where "e = int (bit_len m) - int (bit_len n)"
  have "pow2 (e - 1) \<le> q"
  proof -
    have "0 < bit_len m" using mn(1) by (subst bit_len.simps) simp
    then have "e - 1 + int (bit_len n) = int (bit_len m - 1)" by (simp add: e_def)
    then have "pow2 (e - 1) = pow2 (int (bit_len m - 1)) / pow2 (int (bit_len n))"
      using pow2_add [of "e - 1" "int (bit_len n)"] by simp
    also have "\<dots> \<le> of_nat m / of_nat n"
    proof (rule frac_le)
      show "pow2 (int (bit_len m - 1)) \<le> of_nat m"
        unfolding pow2_nat using bit_len_lower [OF mn(1)] by (metis of_nat_le_iff of_nat_numeral of_nat_power)
      show "(of_nat n :: rat) \<le> pow2 (int (bit_len n))"
        unfolding pow2_nat using bit_len_upper [of n] by (metis less_imp_le of_nat_le_iff of_nat_numeral of_nat_power)
    qed (use mn in simp_all)
    finally show ?thesis by (simp add: mn(3))
  qed
  then show ?thesis
    by (simp add: exponent_def ab Let_def m_def [symmetric] n_def [symmetric] e_def [symmetric])
qed

lemma round_half_even_of_int [simp]: "round_half_even (of_int n) = n"
  by (simp add: round_half_even_def)

lemma fl_of_int:
  assumes "\<bar>n\<bar> < 2 ^ 53"
  shows "fl (of_int n) = of_int n"
proof (cases "n = 0")
  case False
  define e where "e = exponent \<bar>of_int n\<bar>"
  have "pow2 e \<le> \<bar>of_int n\<bar>"
    unfolding e_def by (rule exponent_lower) (use False in simp)
  also have "\<bar>of_int n :: rat\<bar> < 2 ^ 53"
    using assms by (metis of_int_abs of_int_less_iff of_int_numeral of_int_power)
  finally have "pow2 e < pow2 53" by (simp add: pow2_def)
  have "e < 53"
  proof (rule ccontr)
    assume "\<not> e < 53"
    then obtain j where "e = 53 + int j" using zle_iff_zadd [of 53 e] by auto
    then have "pow2 e = pow2 53 * 2 ^ j" by (simp add: pow2_add pow2_nat)
    moreover have "pow2 53 * 1 \<le> pow2 53 * 2 ^ j" by (rule mult_left_mono) (simp_all add: less_imp_le)
    ultimately show False using \<open>pow2 e < pow2 53\<close> by simp
  qed
  then obtain k where k: "52 - e = int k" using nonneg_int_cases [of "52 - e"] by auto
  have u: "pow2 (e - 52) * 2 ^ k = 1"
    using pow2_add [of "e - 52" "int k"] k by (simp add: pow2_nat [symmetric]) (simp add: pow2_def)
  then have "of_int n / pow2 (e - 52) = of_int (n * 2 ^ k)"
    by (simp add: field_simps)
  then have "fl (of_int n) = of_int (n * 2 ^ k) * pow2 (e - 52)"
    using False by (simp add: fl_def e_def [symmetric] Let_def del: of_int_mult)
  also have "\<dots> = of_int n"
    using u by (simp add: mult.assoc mult.commute [of "2 ^ k"])
  finally show ?thesis .
qed (simp add: fl_def)

lemma trunc_of_int [simp]: "trunc (of_int n) = n"
  by (simp add: trunc_def)

text \<open>A chain of exact steps: a product that is a small integer is computed without error.\<close>

lemma py_mul_exact:
  assumes "\<bar>i * j\<bar> < 2 ^ 53" "\<bar>i\<bar> < 2 ^ 53" "\<bar>j\<bar> < 2 ^ 53"
  shows "py_mul (JInt i) (JFloat (Finite (of_int j))) = Inr (JFloat (Finite (of_int (i * j))))"
    "py_mul (JFloat (Finite (of_int i))) (JInt j) = Inr (JFloat (Finite (of_int (i * j))))"
    "py_mul (JFloat (Finite (of_int i))) (JFloat (Finite (of_int j))) = Inr (JFloat (Finite (of_int (i * j))))"
  using fl_of_int [OF assms(1)] fl_of_int [OF assms(2)] fl_of_int [OF assms(3)]
  by (simp_all add: py_mul_def py_arith_def fmul_def)

lemma py_truediv_exact:
  assumes "j \<noteq> 0" "j dvd i" "\<bar>i div j\<bar> < 2 ^ 53"
  shows "py_truediv (JInt i) (JInt j) = Inr (JFloat (Finite (of_int (i div j))))"
proof -
  have "(of_int i / of_int j :: rat) = of_int (i div j)"
    using assms(1,2) by (auto simp: dvd_def)
  then show ?thesis
    using assms by (simp add: py_truediv_def fl_of_int)
qed

end
