(* ===== verification/Kv_Geometry.thy ===== *)
theory Kv_Geometry
  imports Py_Float
begin

text \<open>
  The size of a model's KV cache (\<open>src/tools/kvio/kv_geometry.py\<close>): the family of a model, the bytes
  of its cache for a number of tokens, and how they divide over tensor-parallel ranks. A model
  configuration is a decoded JSON object; fetching one is the argument \<open>raw\<close> of \<open>load_hf_config\<close>.
\<close>

section \<open>Families\<close>

definition DTYPE_BYTES :: "(string \<times> int) list" where
  "DTYPE_BYTES = [(''float32'', 4), (''float16'', 2), (''bfloat16'', 2), (''int8'', 1), (''fp8'', 1), (''float8'', 1)]"

definition lower_char :: "char \<Rightarrow> char" where
  "lower_char c = (if of_char c \<in> {65 .. 90 :: nat} then char_of (of_char c + 32 :: nat) else c)"

definition model_family :: "string \<Rightarrow> string" where
  "model_family m =
     (let ml = map lower_char m in
      if starts_with m ''deepseek-ai/DeepSeek-V3'' \<or> m = ''deepseek-ai/DeepSeek-R1'' then ''mla''
      else if ml = ''tencent/hunyuan-large'' then ''cla''
      else if is_substring ''qwen/qwen3-'' ml \<or> starts_with m ''zai-org/GLM-4.'' \<or>
              starts_with ml ''tencent/hunyuan-'' \<and> ml \<noteq> ''tencent/hunyuan-large'' then ''gqa_head_dim''
      else ''default'')"

text \<open>Whether an explicit \<open>head_dim\<close> differs from the one the hidden size implies.\<close>

definition head_dim_differs :: "json \<Rightarrow> bool result" where
  "head_dim_differs config =
     rbind (obj_index config ''hidden_size'') (\<lambda>hidden.
     rbind (py_int hidden) (\<lambda>h.
     rbind (obj_index config ''num_attention_heads'') (\<lambda>heads.
     rbind (py_int heads) (\<lambda>n.
     rbind (py_truediv (JInt h) (JInt n)) (\<lambda>implied.
     rbind (py_int (fld config ''head_dim'')) (\<lambda>d.
     rbind (py_int implied) (\<lambda>i. Inr (d \<noteq> i))))))))"

definition resolve_family :: "string \<Rightarrow> json \<Rightarrow> string result" where
  "resolve_family model_name config =
     (let fam = model_family model_name in
      if fam \<noteq> ''default'' then Inr fam
      else if truthy (fld config ''kv_lora_rank'') \<and> truthy (fld config ''qk_rope_head_dim'') then Inr ''mla''
      else if truthy (fld config ''cla_share_factor'') then Inr ''cla''
      else if truthy (fld config ''head_dim'') then
        (case head_dim_differs config of
           Inr differs \<Rightarrow> Inr (if differs then ''gqa_head_dim'' else ''default'')
         | Inl e \<Rightarrow> if e = KeyError \<or> e = TypeError \<or> e = ZeroDivisionError then Inr ''gqa_head_dim'' else Inl e)
      else Inr ''default'')"

text \<open>
  Normalizing a fetched configuration. A nested text tower overrides the outer fields; core
  dimensions that are missing end the program.
\<close>

definition load_hf_config :: "fields \<Rightarrow> json result" where
  "load_hf_config raw0 =
     (let tower = fld (JObj raw0) ''text_config'';
          raw = (if fld (JObj raw0) ''num_hidden_layers'' = JNull \<and> is_obj tower
                 then foldl (\<lambda>d (k, v). obj_set d k v) (JObj raw0) (the_obj tower) else JObj raw0);
          n_heads = fld raw ''num_attention_heads'';
          base = JObj [(''num_hidden_layers'', fld raw ''num_hidden_layers''), (''hidden_size'', fld raw ''hidden_size''),
            (''num_attention_heads'', n_heads),
            (''num_key_value_heads'', if has_key raw ''num_key_value_heads'' then fld raw ''num_key_value_heads'' else n_heads)];
          config = foldl (\<lambda>d k. if fld raw k \<noteq> JNull then obj_set d k (fld raw k) else d) base
            [''head_dim'', ''kv_lora_rank'', ''qk_rope_head_dim'', ''cla_share_factor''];
          missing = filter (\<lambda>k. fld config k = JNull) [''num_hidden_layers'', ''hidden_size'', ''num_attention_heads''] in
      if missing \<noteq> [] then Inl (SystemExit ''HF config is missing core dimensions'') else Inr config)"

section \<open>Bytes\<close>

definition config_int :: "json \<Rightarrow> string \<Rightarrow> int result" where
  "config_int config k = rbind (obj_index config k) py_int"

definition head_size :: "json \<Rightarrow> json result" where
  "head_size config =
     rbind (obj_index config ''hidden_size'') (\<lambda>h.
     rbind (obj_index config ''num_attention_heads'') (\<lambda>n. py_truediv h n))"

definition py_product :: "json list \<Rightarrow> json result" where
  "py_product xs = mfold py_mul (hd xs) (tl xs)"

text \<open>
  The element count of a family with the dimensions it adds to the report: the product is
  evaluated from left to right.
\<close>

definition kv_elements :: "string \<Rightarrow> json \<Rightarrow> int \<Rightarrow> int \<Rightarrow> (json \<times> fields) result" where
  "kv_elements fam config nl tokens =
     (if fam = ''mla'' then
        rbind (config_int config ''kv_lora_rank'') (\<lambda>rank.
        rbind (config_int config ''qk_rope_head_dim'') (\<lambda>rope.
        Inr (JInt (nl * tokens * (rank + rope)), [(''kv_lora_rank'', JInt rank), (''qk_rope_head_dim'', JInt rope)])))
      else if fam = ''cla'' then
        rbind (config_int config ''cla_share_factor'') (\<lambda>cla.
        rbind (py_truediv (JInt nl) (JInt cla)) (\<lambda>eff.
        rbind (head_size config) (\<lambda>hs.
        rbind (config_int config ''num_key_value_heads'') (\<lambda>kvh.
        rbind (py_product [JInt 2, eff, JInt tokens, JInt kvh, hs]) (\<lambda>n.
        Inr (n, [(''cla_share_factor'', JInt cla), (''effective_layers'', eff),
                 (''num_key_value_heads'', JInt kvh), (''head_size'', hs)]))))))
      else if fam = ''gqa_head_dim'' then
        rbind (config_int config ''head_dim'') (\<lambda>hd.
        rbind (config_int config ''num_key_value_heads'') (\<lambda>kvh.
        Inr (JInt (2 * nl * tokens * kvh * hd), [(''num_key_value_heads'', JInt kvh), (''head_dim'', JInt hd)])))
      else
        rbind (head_size config) (\<lambda>hs.
        rbind (config_int config ''num_key_value_heads'') (\<lambda>kvh.
        rbind (py_product [JInt (2 * nl * tokens * kvh), hs]) (\<lambda>n.
        Inr (n, [(''hidden_size'', fld config ''hidden_size''), (''num_attention_heads'', fld config ''num_attention_heads''),
                 (''num_key_value_heads'', JInt kvh), (''head_size'', hs)])))))"

definition kv_cache_bytes :: "string \<Rightarrow> json \<Rightarrow> int \<Rightarrow> string \<Rightarrow> (int \<times> json) result" where
  "kv_cache_bytes model_name config tokens dtype =
     (case map_of DTYPE_BYTES dtype of
        None \<Rightarrow> Inl (ValueError ''unknown dtype'')
      | Some dbytes \<Rightarrow>
          rbind (resolve_family model_name config) (\<lambda>fam.
          rbind (config_int config ''num_hidden_layers'') (\<lambda>nl.
          rbind (kv_elements fam config nl tokens) (\<lambda>(elements, dims).
          rbind (py_mul elements (JInt dbytes)) (\<lambda>b.
          rbind (py_round b) (\<lambda>total.
          rbind (py_round elements) (\<lambda>total_elements.
          Inr (total, JObj ([(''family'', JStr fam), (''dtype'', JStr dtype), (''dtype_bytes'', JInt dbytes),
             (''tokens'', JInt tokens), (''num_hidden_layers'', JInt nl)] @ dims @
             [(''total_elements'', JInt total_elements), (''total_bytes'', JInt total)])))))))))"

section \<open>Tensor parallelism\<close>

definition shard_kv_bytes :: "int \<Rightarrow> json \<Rightarrow> int \<Rightarrow> (int \<times> int \<times> string) result" where
  "shard_kv_bytes total_bytes detail tp =
     (if tp \<le> 1 then Inr (total_bytes, 1, ''tp=1 (no sharding)'')
      else if fld detail ''family'' = JStr ''mla''
      then Inr (total_bytes, tp, ''MLA latent replicated on every rank (footprint x'' @ str_int tp @ '')'')
      else
        rbind (py_int (if truthy (fld detail ''num_key_value_heads'') then fld detail ''num_key_value_heads'' else JInt 0)) (\<lambda>kvh.
        if kvh \<le> 0 then Inl (ValueError ''cannot shard family: no kv-head count'')
        else if tp \<le> kvh then
          (if kvh mod tp \<noteq> 0 then Inl (ValueError ''num_kv_heads not divisible by tp'')
           else Inr (total_bytes div tp, tp, str_int (kvh div tp) @ '' of '' @ str_int kvh @ '' kv-heads per rank''))
        else Inr (total_bytes div kvh, tp, ''kv-head replication: '' @ str_int kvh @ '' heads over '' @ str_int tp @
                  '' ranks, footprint x'' @ fmt2 (fl (of_int tp / of_int kvh)))))"

section \<open>The byte count is the documented formula\<close>

text \<open>The dimensions a family reads, and the element count the module documents for it.\<close>

definition kv_dims :: "string \<Rightarrow> string list" where
  "kv_dims fam = ''num_hidden_layers'' #
     (if fam = ''mla'' then [''kv_lora_rank'', ''qk_rope_head_dim'']
      else if fam = ''cla'' then [''cla_share_factor'', ''hidden_size'', ''num_attention_heads'', ''num_key_value_heads'']
      else if fam = ''gqa_head_dim'' then [''head_dim'', ''num_key_value_heads'']
      else [''hidden_size'', ''num_attention_heads'', ''num_key_value_heads''])"

definition kv_formula :: "string \<Rightarrow> (string \<Rightarrow> int) \<Rightarrow> int \<Rightarrow> int" where
  "kv_formula fam dm tokens =
     (if fam = ''mla'' then dm ''num_hidden_layers'' * tokens * (dm ''kv_lora_rank'' + dm ''qk_rope_head_dim'')
      else if fam = ''cla'' then 2 * (dm ''num_hidden_layers'' div dm ''cla_share_factor'') * tokens *
             dm ''num_key_value_heads'' * (dm ''hidden_size'' div dm ''num_attention_heads'')
      else if fam = ''gqa_head_dim'' then 2 * dm ''num_hidden_layers'' * tokens * dm ''num_key_value_heads'' * dm ''head_dim''
      else 2 * dm ''num_hidden_layers'' * tokens * dm ''num_key_value_heads'' *
             (dm ''hidden_size'' div dm ''num_attention_heads''))"

lemma factor_bounds:
  fixes a b c :: int
  assumes "0 < a" "0 < b" "a * b < c"
  shows "a < c" "b < c"
proof -
  have "a * 1 \<le> a * b" "1 * b \<le> a * b"
    using assms(1,2) by (auto intro: mult_left_mono mult_right_mono)
  with assms(3) show "a < c" "b < c" by auto
qed

lemma obj_index_JInt: "fld config k = JInt i \<Longrightarrow> obj_index config k = Inr (JInt i)"
  using fld_nonnull_has_key [of config k] fld_nonnull_is_obj [of config k] by (simp add: obj_index_def)

lemma config_int_JInt: "fld config k = JInt i \<Longrightarrow> config_int config k = Inr i"
  by (simp add: config_int_def obj_index_JInt)

lemma dvd_quotient_pos: "0 < (a :: int) \<Longrightarrow> 0 < b \<Longrightarrow> b dvd a \<Longrightarrow> 0 < a div b"
  by (auto simp: dvd_def zero_less_mult_iff)

lemma head_size_exact:
  assumes "fld config ''hidden_size'' = JInt h" "fld config ''num_attention_heads'' = JInt n"
    "0 < h" "0 < n" "n dvd h" "h div n < 2 ^ 53"
  shows "head_size config = Inr (JFloat (Finite (of_int (h div n))))"
  using assms dvd_quotient_pos [OF assms(3-5)]
  by (simp add: head_size_def obj_index_JInt py_truediv_exact)

text \<open>The float product of the default family: one exact multiplication.\<close>

lemma default_product:
  assumes "0 < a" "0 < h" "a * h < 2 ^ 53"
  shows "py_product [JInt a, JFloat (Finite (of_int h))] = Inr (JFloat (Finite (of_int (a * h))))"
  using assms factor_bounds [OF assms] by (simp add: py_product_def py_mul_exact del: of_int_mult)

lemma cla_product:
  assumes "0 < e" "0 < t" "0 < k" "0 < h" "2 * e * t * k * h < 2 ^ 53"
  shows "py_product [JInt 2, JFloat (Finite (of_int e)), JInt t, JInt k, JFloat (Finite (of_int h))] =
    Inr (JFloat (Finite (of_int (2 * e * t * k * h))))"
proof -
  have a: "2 * e * t * k < 2 ^ 53" "h < 2 ^ 53" using factor_bounds [of "2 * e * t * k" h] assms by simp_all
  have b: "2 * e * t < 2 ^ 53" "k < 2 ^ 53" using factor_bounds [of "2 * e * t" k] assms a by simp_all
  have c: "2 * e < 2 ^ 53" "t < 2 ^ 53" using factor_bounds [of "2 * e" t] assms b by simp_all
  have "py_mul (JInt 2) (JFloat (Finite (of_int e))) = Inr (JFloat (Finite (of_int (2 * e))))"
    "py_mul (JFloat (Finite (of_int (2 * e)))) (JInt t) = Inr (JFloat (Finite (of_int (2 * e * t))))"
    "py_mul (JFloat (Finite (of_int (2 * e * t)))) (JInt k) = Inr (JFloat (Finite (of_int (2 * e * t * k))))"
    "py_mul (JFloat (Finite (of_int (2 * e * t * k)))) (JFloat (Finite (of_int h))) =
       Inr (JFloat (Finite (of_int (2 * e * t * k * h))))"
    using assms a b c by (simp_all only: py_mul_exact abs_of_pos mult_pos_pos zero_less_numeral)
  then show ?thesis by (simp add: py_product_def del: of_int_mult)
qed

lemma kv_elements_exact:
  assumes dims: "\<forall>k\<in>set (kv_dims fam). fld config k = JInt (dm k) \<and> 0 < dm k" and "0 < tokens"
    and heads: "fam \<notin> {''mla'', ''gqa_head_dim''} \<longrightarrow> dm ''num_attention_heads'' dvd dm ''hidden_size''"
    and share: "fam = ''cla'' \<longrightarrow> dm ''cla_share_factor'' dvd dm ''num_hidden_layers''"
    and small: "kv_formula fam dm tokens < 2 ^ 53"
  shows "\<exists>v ds. kv_elements fam config (dm ''num_hidden_layers'') tokens = Inr (v, ds) \<and>
    (v = JInt (kv_formula fam dm tokens) \<or> v = JFloat (Finite (of_int (kv_formula fam dm tokens)))) \<and>
    (fam \<noteq> ''mla'' \<longrightarrow> fld (JObj ds) ''num_key_value_heads'' = JInt (dm ''num_key_value_heads'')) \<and>
    set (map fst ds) \<inter> {''family'', ''dtype'', ''dtype_bytes'', ''tokens'', ''num_hidden_layers'', ''total_elements'', ''total_bytes''} = {} \<and>
    0 < kv_formula fam dm tokens"
proof -
  consider "fam = ''mla''" | "fam = ''cla''" | "fam = ''gqa_head_dim''" | "fam \<notin> {''mla'', ''cla'', ''gqa_head_dim''}"
    by auto
  then show ?thesis
  proof cases
    case 1
    with dims \<open>0 < tokens\<close> show ?thesis
      by (simp add: kv_elements_def kv_dims_def kv_formula_def config_int_JInt)
  next
    case 2
    define e h where "e = dm ''num_hidden_layers'' div dm ''cla_share_factor''"
      and "h = dm ''hidden_size'' div dm ''num_attention_heads''"
    have pos: "0 < e" "0 < h" "0 < dm ''num_key_value_heads''"
      using 2 dims heads share by (auto simp: e_def h_def kv_dims_def intro: dvd_quotient_pos)
    have prod: "kv_formula fam dm tokens = 2 * e * tokens * dm ''num_key_value_heads'' * h"
      by (simp add: kv_formula_def 2 e_def h_def)
    have lt: "2 * e * tokens * dm ''num_key_value_heads'' < 2 ^ 53" "h < 2 ^ 53"
      using factor_bounds [of "2 * e * tokens * dm ''num_key_value_heads''" h] pos \<open>0 < tokens\<close> small prod by simp_all
    have "2 * e * tokens < 2 ^ 53"
      using factor_bounds [of "2 * e * tokens" "dm ''num_key_value_heads''"] pos \<open>0 < tokens\<close> lt by simp
    then have "2 * e < 2 ^ 53" using factor_bounds [of "2 * e" tokens] pos \<open>0 < tokens\<close> by simp
    then have eff: "py_truediv (JInt (dm ''num_hidden_layers'')) (JInt (dm ''cla_share_factor'')) = Inr (JFloat (Finite (of_int e)))"
      using 2 dims share pos unfolding e_def by (intro py_truediv_exact) (auto simp: kv_dims_def)
    have hs: "head_size config = Inr (JFloat (Finite (of_int h)))"
      using 2 dims heads lt unfolding h_def by (intro head_size_exact) (auto simp: kv_dims_def)
    have total: "py_product [JInt 2, JFloat (Finite (of_int e)), JInt tokens, JInt (dm ''num_key_value_heads''),
        JFloat (Finite (of_int h))] = Inr (JFloat (Finite (of_int (kv_formula fam dm tokens))))"
      unfolding prod by (rule cla_product [OF pos(1) \<open>0 < tokens\<close> pos(3,2) small [unfolded prod]])
    have "0 < kv_formula fam dm tokens" using pos \<open>0 < tokens\<close> by (simp add: prod)
    with 2 dims show ?thesis
      by (simp add: kv_elements_def kv_dims_def config_int_JInt eff hs total)
  next
    case 3
    with dims \<open>0 < tokens\<close> show ?thesis
      by (simp add: kv_elements_def kv_dims_def kv_formula_def config_int_JInt)
  next
    case 4
    define a h where "a = 2 * dm ''num_hidden_layers'' * tokens * dm ''num_key_value_heads''"
      and "h = dm ''hidden_size'' div dm ''num_attention_heads''"
    have pos: "0 < a" "0 < h"
      using 4 dims heads \<open>0 < tokens\<close> by (auto simp: a_def h_def kv_dims_def intro: dvd_quotient_pos)
    have prod: "kv_formula fam dm tokens = a * h"
      using 4 by (simp add: kv_formula_def a_def h_def)
    have hs: "head_size config = Inr (JFloat (Finite (of_int h)))"
      using 4 dims heads factor_bounds [OF pos] small unfolding h_def prod [unfolded h_def]
      by (intro head_size_exact) (auto simp: kv_dims_def)
    have total: "py_product [JInt a, JFloat (Finite (of_int h))] = Inr (JFloat (Finite (of_int (kv_formula fam dm tokens))))"
      unfolding prod by (rule default_product [OF pos small [unfolded prod]])
    have "0 < kv_formula fam dm tokens" using pos by (simp add: prod)
    with 4 dims show ?thesis
      by (simp add: kv_elements_def kv_dims_def config_int_JInt hs total a_def [symmetric])
  qed
qed

section \<open>An example\<close>

text \<open>A grouped-query model with 32 layers, 32 query heads of size 128 and 8 KV heads.\<close>

definition example_dim :: "string \<Rightarrow> int" where
  "example_dim k = (case map_of [(''num_hidden_layers'', 32), (''hidden_size'', 4096), (''num_attention_heads'', 32),
     (''num_key_value_heads'', 8)] k of None \<Rightarrow> 1 | Some n \<Rightarrow> n)"

definition example_config :: json where
  "example_config = JObj [(''hidden_size'', JInt 4096), (''num_attention_heads'', JInt 32), (''num_hidden_layers'', JInt 32),
     (''num_key_value_heads'', JInt 8)]"

section \<open>Properties\<close>

text \<open>
  C35. For every family whose dimensions are positive integers with whole quotients, and a cache
  below 2 to the 53 bytes, the byte count is exactly the documented formula times the width of the
  element type, although it is computed in floats; the report carries the same total, the element
  count and the number of KV heads.
\<close>

theorem kv_cache_bytes_exact:
  assumes "resolve_family model config = Inr fam" "map_of DTYPE_BYTES dtype = Some w"
    and "\<forall>k\<in>set (kv_dims fam). fld config k = JInt (dm k) \<and> 0 < dm k" "0 < tokens"
    and "fam \<notin> {''mla'', ''gqa_head_dim''} \<longrightarrow> dm ''num_attention_heads'' dvd dm ''hidden_size''"
    and "fam = ''cla'' \<longrightarrow> dm ''cla_share_factor'' dvd dm ''num_hidden_layers''"
    and "kv_formula fam dm tokens * w < 2 ^ 53"
  shows "\<exists>detail. kv_cache_bytes model config tokens dtype = Inr (kv_formula fam dm tokens * w, detail) \<and>
    fld detail ''family'' = JStr fam \<and> fld detail ''total_bytes'' = JInt (kv_formula fam dm tokens * w) \<and>
    fld detail ''total_elements'' = JInt (kv_formula fam dm tokens) \<and>
    (fam \<noteq> ''mla'' \<longrightarrow> fld detail ''num_key_value_heads'' = JInt (dm ''num_key_value_heads''))"
proof -
  define n where "n = kv_formula fam dm tokens"
  have w: "w \<in> {1, 2, 4}" using assms(2) by (auto simp: DTYPE_BYTES_def split: if_splits)
  have "n < 2 ^ 53"
  proof (cases "0 < n")
    case True
    then show ?thesis using factor_bounds(1) [of n w] w assms(7) by (auto simp: n_def)
  qed auto
  from kv_elements_exact [OF assms(3-6) this [unfolded n_def], folded n_def]
  obtain v ds where v: "kv_elements fam config (dm ''num_hidden_layers'') tokens = Inr (v, ds)"
    "v = JInt n \<or> v = JFloat (Finite (of_int n))"
    "fam \<noteq> ''mla'' \<longrightarrow> fld (JObj ds) ''num_key_value_heads'' = JInt (dm ''num_key_value_heads'')"
    "set (map fst ds) \<inter> {''family'', ''dtype'', ''dtype_bytes'', ''tokens'', ''num_hidden_layers'', ''total_elements'', ''total_bytes''} = {}"
    "0 < n"
    by blast
  have layers: "config_int config ''num_hidden_layers'' = Inr (dm ''num_hidden_layers'')"
    using assms(3) by (intro config_int_JInt) (simp add: kv_dims_def)
  have "py_mul v (JInt w) = Inr (JInt (n * w)) \<or> py_mul v (JInt w) = Inr (JFloat (Finite (of_int (n * w))))"
    using v(2,5) w assms(7) \<open>n < 2 ^ 53\<close> py_mul_exact(2) [of n w]
    by (auto simp: py_mul_def py_arith_def n_def [symmetric])
  then obtain b where b: "py_mul v (JInt w) = Inr b" "py_round b = Inr (n * w)"
    using round_half_even_of_int [of "n * w"] by auto
  have round: "py_round v = Inr n" using v(2) by auto
  define detail where "detail = JObj ([(''family'', JStr fam), (''dtype'', JStr dtype), (''dtype_bytes'', JInt w),
     (''tokens'', JInt tokens), (''num_hidden_layers'', JInt (dm ''num_hidden_layers''))] @ ds @
     [(''total_elements'', JInt n), (''total_bytes'', JInt (n * w))])"
  have none: "map_of ds ''total_bytes'' = None" "map_of ds ''total_elements'' = None"
    using v(4) by (auto simp: map_of_eq_None_iff)
  have "kv_cache_bytes model config tokens dtype = Inr (n * w, detail)"
    by (simp add: kv_cache_bytes_def assms(1,2) layers v(1) b round detail_def)
  moreover have "fld detail ''family'' = JStr fam" "fld detail ''total_bytes'' = JInt (n * w)" "fld detail ''total_elements'' = JInt n"
    "fam \<noteq> ''mla'' \<longrightarrow> fld detail ''num_key_value_heads'' = JInt (dm ''num_key_value_heads'')"
    using v(3) none by (auto simp: detail_def fld_def map_add_def split: option.splits)
  ultimately show ?thesis by (auto simp: n_def)
qed

theorem kv_cache_bytes_exact_witness:
  "\<exists>detail. kv_cache_bytes ''meta-llama/Llama-3.1-8B-Instruct'' example_config 4096 ''float16'' = Inr (536870912, detail) \<and>
     fld detail ''total_bytes'' = JInt 536870912"
proof -
  have "kv_formula ''default'' example_dim 4096 * 2 = 536870912"
    by (simp add: kv_formula_def example_dim_def)
  moreover have "resolve_family ''meta-llama/Llama-3.1-8B-Instruct'' example_config = Inr ''default''"
    by code_simp
  ultimately show ?thesis
    using kv_cache_bytes_exact [of "''meta-llama/Llama-3.1-8B-Instruct''" example_config "''default''" "''float16''" 2 example_dim 4096]
    by (auto simp: kv_dims_def example_config_def example_dim_def DTYPE_BYTES_def)
qed



end
