(* ===== verification/Kv_Representation.thy ===== *)
theory Kv_Representation
  imports Kv_Geometry Intent_V1
begin

text \<open>
  The stored representations of one KV chunk (\<open>src/tools/kvio/kv_representation.py\<close>): the bytes of
  each representation derived from the model geometry, the set of intents that share one logical
  schedule, and the check that a manifest binds exactly those intents.

  The digest of an intent is taken with the parameters \<open>canon\<close> and \<open>sha\<close>, the canonical JSON text
  and SHA-256, as everywhere in the development. Hash strings are given as text.
\<close>

section \<open>Constants\<close>

definition SET_SCHEMA :: string where "SET_SCHEMA = ''kvio.representation-set.v1''"
definition DERIVED_EVIDENCE :: string where "DERIVED_EVIDENCE = ''derived-from-codec-layout-not-measured''"

definition FIXED_HEADER_BYTES :: int where "FIXED_HEADER_BYTES = 8 + 6 * 2 + 7 * 8"
definition PAYLOAD_LENS_BYTES :: int where "PAYLOAD_LENS_BYTES = 3 * 8"
definition HASH_COUNT_BYTES :: int where "HASH_COUNT_BYTES = 2"
definition CRC_BYTES :: int where "CRC_BYTES = 4"

definition CODEC_HASH_KEYS :: "string list" where
  "CODEC_HASH_KEYS = [''model_id'', ''model_revision_hash'', ''tokenizer_hash'', ''rope_config_hash'',
     ''attention_backend'', ''kv_layout'']"

definition SERDE_HEADER_ALLOWANCE :: int where "SERDE_HEADER_ALLOWANCE = 1024"
definition SCALE_DTYPE_BYTES :: int where "SCALE_DTYPE_BYTES = 4"

record representation =
  rp_stored :: "string list"
  rp_host_resident :: "string list"
  rp_codec :: "string option"
  rp_k_dtype :: "string option"
  rp_v_dtype :: "string option"
  rp_description :: string

definition REPRESENTATIONS :: "(string \<times> representation) list" where
  "REPRESENTATIONS = [
     (''bf16_kv'', \<lparr>rp_stored = [''k'', ''v''], rp_host_resident = [], rp_codec = None,
        rp_k_dtype = Some ''bfloat16'', rp_v_dtype = Some ''bfloat16'',
        rp_description = ''the plain K/V object raw_block stores today, no codec''\<rparr>),
     (''k16_v8'', \<lparr>rp_stored = [''k'', ''v''], rp_host_resident = [], rp_codec = Some ''AsymK16V8MultiSerializer'',
        rp_k_dtype = Some ''bfloat16'', rp_v_dtype = Some ''float8_e4m3fn'',
        rp_description = ''complete K16/V8: one self-contained encoded object''\<rparr>),
     (''v8_only'', \<lparr>rp_stored = [''v''], rp_host_resident = [''k''], rp_codec = Some ''AsymK16V8VOnlyMultiSerializer'',
        rp_k_dtype = None, rp_v_dtype = Some ''float8_e4m3fn'',
        rp_description = ''split-tier: V8 to storage, exact K kept in host memory''\<rparr>)]"

section \<open>Sizes\<close>

text \<open>The length of a text in UTF-8; the characters of the model are the code points below 256.\<close>

definition utf8_length :: "string \<Rightarrow> nat" where
  "utf8_length s = (\<Sum>c\<leftarrow>s. if (of_char c :: nat) < 128 then 1 else 2)"

definition hash_value :: "(string \<times> string) list \<Rightarrow> string \<Rightarrow> string" where
  "hash_value hashes k = (case map_of hashes k of None \<Rightarrow> [] | Some v \<Rightarrow> v)"

definition codec_header_bytes :: "int list \<Rightarrow> (string \<times> string) list \<Rightarrow> int" where
  "codec_header_bytes scale_shape hashes =
     (let strings = (\<Sum>k\<leftarrow>CODEC_HASH_KEYS. 2 + int (utf8_length k) + 2 + int (utf8_length (hash_value hashes k))) in
      FIXED_HEADER_BYTES + 8 * int (length scale_shape) + PAYLOAD_LENS_BYTES + HASH_COUNT_BYTES + strings + CRC_BYTES)"

definition plane_bytes :: "json \<Rightarrow> int \<Rightarrow> int result" where
  "plane_bytes detail dtype_bytes =
     (let family = fld detail ''family'' in
      if family = JStr ''mla'' then Inl (RepresentationError ''MLA stores one latent tensor'')
      else if \<not> in_tuple family [''default'', ''gqa_head_dim'', ''cla''] then Inl (RepresentationError ''unknown KV family'')
      else rbind (obj_index detail ''total_elements'') (\<lambda>n.
           rbind (py_int n) (\<lambda>elements.
           if elements mod 2 \<noteq> 0 then Inl (RepresentationError ''chunk does not split into two equal K and V planes'')
           else Inr ((elements div 2) * dtype_bytes))))"

definition scale_shape_of :: "json \<Rightarrow> int \<Rightarrow> int \<Rightarrow> string \<Rightarrow> int list result" where
  "scale_shape_of detail chunk_tokens page_size scope =
     (if scope = ''per_tensor'' then Inr []
      else if scope \<noteq> ''per_page_head'' then Inl (RepresentationError ''unknown scale scope'')
      else if page_size \<le> 0 \<or> chunk_tokens mod page_size \<noteq> 0
      then Inl (RepresentationError ''chunk is not a whole number of pages'')
      else rbind (py_int (if truthy (fld detail ''num_key_value_heads'') then fld detail ''num_key_value_heads'' else JInt 0)) (\<lambda>kvh.
           if kvh \<le> 0 then Inl (RepresentationError ''family reports no KV-head count'')
           else Inr [chunk_tokens div page_size, kvh]))"

record rep_args =
  ra_detail :: json
  ra_dtype :: string
  ra_chunk_tokens :: int
  ra_tp :: int
  ra_scale_scope :: string
  ra_page_size :: int
  ra_hashes :: "(string \<times> string) list"
  ra_store_metadata_bytes :: int
  ra_block_align :: int
  ra_pad :: bool

text \<open>The components of the stored object: scale shape, header length and named byte counts.\<close>

definition rep_components ::
  "rep_args \<Rightarrow> representation \<Rightarrow> int \<Rightarrow> int \<Rightarrow> int \<Rightarrow> int \<Rightarrow> (int list \<times> int \<times> (string \<times> int) list) result" where
  "rep_components a spec logical_bytes k_rank v_rank ranks =
     (if rp_codec spec = None then Inr ([], 0, [(''k'', k_rank), (''v'', v_rank)])
      else
        rbind (scale_shape_of (ra_detail a) (ra_chunk_tokens a) (ra_page_size a) (ra_scale_scope a)) (\<lambda>shape0.
        let shape = (if shape0 \<noteq> [] \<and> 1 < ra_tp a then [shape0 ! 0, max 1 (shape0 ! 1 div ranks)] else shape0);
            scales = SCALE_DTYPE_BYTES * prod_list shape;
            header = codec_header_bytes shape (ra_hashes a) in
        Inr (shape, header,
             (if ''k'' \<in> set (rp_stored spec) then [(''k'', k_rank)] else []) @
             [(''v'', v_rank div logical_bytes), (''scales'', scales), (''codec_header'', header)])))"

definition component_sum :: "(string \<times> int) list \<Rightarrow> int" where
  "component_sum cs = (\<Sum>c\<leftarrow>cs. snd c)"

text \<open>The padding to the block size, charged as a component when it is not zero.\<close>

definition pad_components :: "rep_args \<Rightarrow> (string \<times> int) list \<Rightarrow> (string \<times> int) list result" where
  "pad_components a cs =
     (if \<not> ra_pad a then Inr cs
      else if ra_block_align a = 0 then Inl ZeroDivisionError
      else let padding = (- component_sum cs) mod ra_block_align a in
           Inr (if padding \<noteq> 0 then cs @ [(''padding'', padding)] else cs))"

definition physical_extent :: "int \<Rightarrow> int \<Rightarrow> int result" where
  "physical_extent bytes block_align =
     (if block_align = 0 then Inl ZeroDivisionError else Inr (- ((- bytes) div block_align) * block_align))"

definition opt_str :: "string option \<Rightarrow> json" where
  "opt_str v = (case v of None \<Rightarrow> JNull | Some s \<Rightarrow> JStr s)"

definition int_fields :: "(string \<times> int) list \<Rightarrow> json" where
  "int_fields kvs = JObj (map (\<lambda>(k, v). (k, JInt v)) kvs)"

definition rep_assumptions :: json where
  "rep_assumptions = JList (map JStr [
     ''K and V are equal-shaped planes (true for MHA/GQA/CLA, refused for MLA)'',
     ''FP8 V is one byte per element and K is never quantized'',
     ''scales are float32 (4 B each)'',
     ''codec header length uses the supplied hash strings; unsupplied hashes are written empty, as the codec does'',
     ''physical extent is raw_block's fixed store metadata plus the payload, rounded up to the block alignment''])"

definition rep_entry ::
  "string \<Rightarrow> rep_args \<Rightarrow> representation \<Rightarrow> int \<Rightarrow> int \<Rightarrow> int \<Rightarrow> string \<Rightarrow> int list \<Rightarrow> int \<Rightarrow> (string \<times> int) list \<Rightarrow> int \<Rightarrow> json" where
  "rep_entry name a spec k_rank v_rank ranks note shape header components extent =
     (let payload = component_sum components;
          retained = map (\<lambda>plane. (plane, if plane = ''k'' then k_rank else v_rank)) (rp_host_resident spec) in
      JObj [
        (''representation'', JStr name), (''description'', JStr (rp_description spec)), (''codec'', opt_str (rp_codec spec)),
        (''evidence'', JStr DERIVED_EVIDENCE),
        (''logical'', JObj [(''dtype'', JStr (ra_dtype a)), (''k_bytes_per_rank'', JInt k_rank),
           (''v_bytes_per_rank'', JInt v_rank), (''ranks_per_chunk'', JInt ranks), (''shard'', JStr note)]),
        (''stored'', JObj [(''planes'', JList (map JStr (rp_stored spec))), (''k_dtype'', opt_str (rp_k_dtype spec)),
           (''v_dtype'', opt_str (rp_v_dtype spec)),
           (''scale_scope'', if rp_codec spec \<noteq> None then JStr (ra_scale_scope a) else JNull),
           (''scale_shape'', JList (map JInt shape)), (''components_bytes'', int_fields components),
           (''payload_bytes'', JInt payload),
           (''serde_reservation_bytes'', if rp_codec spec = None then JNull else JInt (payload - header + SERDE_HEADER_ALLOWANCE))]),
        (''storage'', JObj [(''store_metadata_bytes'', JInt (ra_store_metadata_bytes a)), (''block_align'', JInt (ra_block_align a)),
           (''physical_extent_bytes'', JInt extent)]),
        (''host'', JObj [(''retained_bytes'', int_fields retained), (''h2d_bytes_per_restore'', JInt (component_sum retained)),
           (''note'', JStr (if retained \<noteq> [] then ''a restore is usable only while the retained K is still resident; a V object whose K was evicted is a miss''
                        else ''self-contained: nothing retained''))]),
        (''assumptions'', rep_assumptions)])"

definition derive_representation :: "string \<Rightarrow> rep_args \<Rightarrow> json result" where
  "derive_representation name a =
     (case map_of REPRESENTATIONS name of
        None \<Rightarrow> Inl (RepresentationError ''unknown representation'')
      | Some spec \<Rightarrow>
     (case map_of DTYPE_BYTES (ra_dtype a) of
        None \<Rightarrow> Inl (RepresentationError ''unknown logical dtype'')
      | Some logical_bytes \<Rightarrow>
          rbind (require (set (map fst (ra_hashes a)) \<subseteq> set CODEC_HASH_KEYS)
            (RepresentationError ''codec hash keys are not written by the codec'')) (\<lambda>_.
          rbind (plane_bytes (ra_detail a) logical_bytes) (\<lambda>k_logical.
          rbind (plane_bytes (ra_detail a) logical_bytes) (\<lambda>v_logical.
          rbind (shard_kv_bytes k_logical (ra_detail a) (ra_tp a)) (\<lambda>(k_rank, ranks, note).
          rbind (shard_kv_bytes v_logical (ra_detail a) (ra_tp a)) (\<lambda>(v_rank, ranks_v, _).
          rbind (require (ranks = ranks_v) (RepresentationError ''K and V shard to different rank counts'')) (\<lambda>_.
          rbind (rep_components a spec logical_bytes k_rank v_rank ranks) (\<lambda>(shape, header, components0).
          rbind (pad_components a components0) (\<lambda>components.
          rbind (physical_extent (ra_store_metadata_bytes a + component_sum components) (ra_block_align a)) (\<lambda>extent.
          Inr (rep_entry name a spec k_rank v_rank ranks note shape header components extent))))))))))))"

section \<open>One intent per representation\<close>

record set_args =
  sa_model :: string
  sa_config :: json
  sa_num_chunks :: int
  sa_streams :: int
  sa_iters :: int
  sa_warmup :: int
  sa_representations :: "string list"
  sa_rep :: rep_args

definition rep_names :: "set_args \<Rightarrow> string list" where
  "rep_names s = (if sa_representations s \<noteq> [] then sa_representations s else map fst REPRESENTATIONS)"

text \<open>\<open>hashes.setdefault("model_id", model)\<close>.\<close>

definition default_hashes :: "set_args \<Rightarrow> (string \<times> string) list" where
  "default_hashes s =
     (let hashes = ra_hashes (sa_rep s) in
      if map_of hashes ''model_id'' = None then hashes @ [(''model_id'', sa_model s)] else hashes)"

definition rep_intent_args :: "set_args \<Rightarrow> json \<Rightarrow> json \<Rightarrow> v1_args" where
  "rep_intent_args s detail entry =
     \<lparr>va_model = sa_model s, va_geometry = detail, va_dtype = ra_dtype (sa_rep s),
      va_chunk_tokens = JInt (ra_chunk_tokens (sa_rep s)),
      va_payload_bytes = fld (fld entry ''stored'') ''payload_bytes'',
      va_ranks_per_chunk = fld (fld entry ''logical'') ''ranks_per_chunk'',
      va_num_chunks = JInt (sa_num_chunks s), va_streams = JInt (sa_streams s), va_iters = JInt (sa_iters s),
      va_warmup = JInt (sa_warmup s), va_store_metadata_bytes = JInt (ra_store_metadata_bytes (sa_rep s))\<rparr>"

text \<open>The loop over the names: entries and intents, both dictionaries.\<close>

definition derive_one ::
  "(json \<Rightarrow> string) \<Rightarrow> (string \<Rightarrow> string) \<Rightarrow> set_args \<Rightarrow> json \<Rightarrow> fields \<times> fields \<Rightarrow> string \<Rightarrow> (fields \<times> fields) result" where
  "derive_one canon sha s detail acc name = (case acc of (entries, intents) \<Rightarrow>
     rbind (derive_representation name ((sa_rep s)\<lparr>ra_detail := detail, ra_hashes := default_hashes s\<rparr>)) (\<lambda>entry.
     rbind (build_kv_offload_intent (rep_intent_args s detail entry)) (\<lambda>intent.
     rbind (intent_sha256 canon sha intent) (\<lambda>digest.
     Inr (AList.update name (obj_set entry ''intent_sha256'' (JStr digest)) entries,
          AList.update name intent intents)))))"

definition payload_ratios :: "string list \<Rightarrow> fields \<Rightarrow> fields result" where
  "payload_ratios names entries =
     (if \<not> has_key (JObj entries) ''bf16_kv'' then Inr []
      else let base = fld (fld (fld (JObj entries) ''bf16_kv'') ''stored'') ''payload_bytes'' in
           mfold (\<lambda>out name.
             rbind (py_truediv (fld (fld (fld (JObj entries) name) ''stored'') ''payload_bytes'') base) (\<lambda>r.
             Inr (AList.update name r out))) [] names)"

definition set_limits :: json where
  "set_limits = JList (map JStr [
     ''one payload size per intent: a representation that stores K and V as separate objects needs two intents, which this set does not model'',
     ''no cancellation, overwrite, or stale-generation operations: kvio.intent.v1 has store and load only'',
     ''the derived header length is exact only for the hash strings recorded above; the engine writes its own at runtime''])"

definition rep_manifest :: "set_args \<Rightarrow> json \<Rightarrow> fields \<Rightarrow> fields \<Rightarrow> json" where
  "rep_manifest s detail entries ratios =
     (let a = sa_rep s;
          per_chunk = fld (fld (fld (JObj entries) (hd (rep_names s))) ''logical'') ''ranks_per_chunk'';
          budget = (if has_key (JObj entries) ''v8_only''
                    then JInt (the_int (fld (fld (fld (JObj entries) ''v8_only'') ''host'') ''h2d_bytes_per_restore'')
                               * the_int per_chunk * sa_num_chunks s)
                    else JInt 0) in
      JObj [
        (''schema'', JStr SET_SCHEMA), (''evidence'', JStr DERIVED_EVIDENCE),
        (''model'', JObj [(''name'', JStr (sa_model s)), (''dtype'', JStr (ra_dtype a)), (''chunk_tokens'', JInt (ra_chunk_tokens a)),
           (''tp'', JInt (ra_tp a)), (''geometry'', detail)]),
        (''schedule'', JObj [(''num_chunks'', JInt (sa_num_chunks s)), (''streams'', JInt (sa_streams s)),
           (''iters'', JInt (sa_iters s)), (''warmup'', JInt (sa_warmup s)), (''objects_per_chunk'', per_chunk)]),
        (''codec'', JObj [(''scale_scope'', JStr (ra_scale_scope a)), (''page_size'', JInt (ra_page_size a)),
           (''hashes'', JObj (map (\<lambda>(k, v). (k, JStr v)) (default_hashes s))),
           (''header_allowance_bytes'', JInt SERDE_HEADER_ALLOWANCE)]),
        (''storage'', JObj [(''store_metadata_bytes'', JInt (ra_store_metadata_bytes a)), (''block_align'', JInt (ra_block_align a)),
           (''pad_to_block_align'', JBool (ra_pad a))]),
        (''representations'', JObj entries),
        (''payload_ratio_to_bf16_kv'', JObj ratios),
        (''equal_host_budget_control'', JObj [(''representation'', JStr ''k16_v8''), (''host_budget_bytes'', budget),
           (''l2_operations'', JStr ''not-derived: needs a hit model for which complete objects the host budget keeps'')]),
        (''limits'', set_limits)])"

definition derive_representation_set ::
  "(json \<Rightarrow> string) \<Rightarrow> (string \<Rightarrow> string) \<Rightarrow> set_args \<Rightarrow> (json \<times> fields) result" where
  "derive_representation_set canon sha s =
     (let names = rep_names s in
      rbind (mforall (\<lambda>n. require (map_of REPRESENTATIONS n \<noteq> None) (RepresentationError ''unknown representation'')) names) (\<lambda>_.
      rbind (kv_cache_bytes (sa_model s) (sa_config s) (ra_chunk_tokens (sa_rep s)) (ra_dtype (sa_rep s))) (\<lambda>(bytes, detail).
      rbind (obj_index detail ''total_bytes'') (\<lambda>tb.
      rbind (py_int tb) (\<lambda>reported.
      rbind (require (bytes = reported) (RepresentationError ''geometry reports inconsistent chunk bytes'')) (\<lambda>_.
      rbind (mfold (derive_one canon sha s detail) ([], []) names) (\<lambda>(entries, intents).
      rbind (payload_ratios names entries) (\<lambda>ratios.
      Inr (rep_manifest s detail entries ratios, intents)))))))))"

section \<open>Checking a set\<close>

definition check_rep_entry ::
  "(json \<Rightarrow> string) \<Rightarrow> (string \<Rightarrow> string) \<Rightarrow> fields \<Rightarrow> string \<times> json \<Rightarrow> unit result" where
  "check_rep_entry canon sha intents item = (case item of (name, entry) \<Rightarrow>
     (case map_of intents name of
        None \<Rightarrow> Inl KeyError
      | Some intent \<Rightarrow>
          rbind (validate_intent intent) (\<lambda>_.
          rbind (obj_get entry ''intent_sha256'') (\<lambda>bound.
          rbind (intent_sha256 canon sha intent) (\<lambda>digest.
          rbind (require (bound = JStr digest) (RepresentationError ''intent digest does not bind'')) (\<lambda>_.
          rbind (obj_get_default entry ''stored'' (JObj [])) (\<lambda>stored.
          rbind (obj_get stored ''payload_bytes'') (\<lambda>payload.
          rbind (require (py_eq (fld (fld intent ''object'') ''payload_bytes'') payload)
            (RepresentationError ''intent payload disagrees with manifest'')) (\<lambda>_.
          rbind (obj_get_default stored ''components_bytes'' (JObj [])) (\<lambda>components.
          rbind (require (is_obj components) AttributeError) (\<lambda>_.
          rbind (py_sum (map snd (the_obj components))) (\<lambda>total.
          rbind (require (py_eq total payload) (RepresentationError ''components do not sum to the payload'')) (\<lambda>_.
          rbind (obj_index entry ''logical'') (\<lambda>logical.
          rbind (obj_index logical ''ranks_per_chunk'') (\<lambda>ranks.
          rbind (require (py_eq (fld (fld intent ''object'') ''ranks_per_chunk'') ranks) (RepresentationError ''rank count disagrees'')) (\<lambda>_.
          (case map_of REPRESENTATIONS name of
             None \<Rightarrow> Inl KeyError
           | Some spec \<Rightarrow>
               require (py_eq (fld stored ''planes'') (JList (map JStr (rp_stored spec))))
                 (RepresentationError ''stored planes are not those of the representation''))))))))))))))))))"

definition validate_representation_set ::
  "(json \<Rightarrow> string) \<Rightarrow> (string \<Rightarrow> string) \<Rightarrow> json \<Rightarrow> fields \<Rightarrow> unit result" where
  "validate_representation_set canon sha manifest intents =
     rbind (require (is_obj manifest \<and> fld manifest ''schema'' = JStr SET_SCHEMA)
       (RepresentationError ''manifest must use kvio.representation-set.v1'')) (\<lambda>_.
     rbind (require (fld manifest ''evidence'' = JStr DERIVED_EVIDENCE)
       (RepresentationError ''manifest must keep its derived evidence label'')) (\<lambda>_.
     let entries = fld manifest ''representations'' in
     rbind (require (is_obj entries \<and> the_obj entries \<noteq> []) (RepresentationError ''manifest lists no representations'')) (\<lambda>_.
     rbind (require (set (obj_keys entries) = fst ` set intents)
       (RepresentationError ''manifest and intents name different representations'')) (\<lambda>_.
     mforall (check_rep_entry canon sha intents) (the_obj entries)))))"

section \<open>What a derivation returns\<close>

lemma derive_representation_Inr:
  assumes "derive_representation name a = Inr entry"
  obtains spec k_rank v_rank ranks nt shape hdr components0 components extent where
    "map_of REPRESENTATIONS name = Some spec"
    "pad_components a components0 = Inr components"
    "physical_extent (ra_store_metadata_bytes a + component_sum components) (ra_block_align a) = Inr extent"
    "entry = rep_entry name a spec k_rank v_rank ranks nt shape hdr components extent"
  using assms unfolding derive_representation_def
  by (auto simp: rbind_Inr_iff split: option.splits prod.splits)

lemma rep_entry_fields:
  fixes k :: string
  assumes "entry = rep_entry name a spec k_rank v_rank ranks nt shape hdr components extent"
  shows "is_obj entry" "has_key entry ''stored''" "has_key entry ''logical''"
    "is_obj (fld entry ''stored'')" "is_obj (fld entry ''logical'')"
    "fld (fld entry ''stored'') ''payload_bytes'' = JInt (component_sum components)"
    "has_key (fld entry ''stored'') ''components_bytes''"
    "fld (fld entry ''stored'') ''components_bytes'' = int_fields components"
    "fld (fld entry ''stored'') ''planes'' = JList (map JStr (rp_stored spec))"
    "has_key (fld entry ''logical'') ''ranks_per_chunk''"
    "fld (fld entry ''logical'') ''ranks_per_chunk'' = JInt ranks"
    "fld (fld entry ''storage'') ''physical_extent_bytes'' = JInt extent"
  unfolding assms rep_entry_def Let_def by simp_all

lemma py_sum_ints: "py_sum (map (\<lambda>(k, v). JInt v) kvs) = Inr (JInt (component_sum kvs))"
proof -
  have "mfold py_add (JInt n) (map (\<lambda>(k, v). JInt v) kvs) = Inr (JInt (n + component_sum kvs))" for n
    by (induction kvs arbitrary: n) (auto simp: component_sum_def py_add_def py_arith_def)
  then show ?thesis by (simp add: py_sum_def)
qed

lemma py_eq_strs [simp]: "py_eq_list (map JStr ss) (map JStr ss)"
  by (induction ss) simp_all

lemma build_record:
  assumes "build_kv_offload_intent a = Inr intent"
  shows "validate_intent intent = Inr ()" "\<exists>ops. intent = v1_record a ops"
  using assms unfolding build_kv_offload_intent_def Let_def by (auto simp: rbind_Inr_iff)

section \<open>The derived set is accepted\<close>

lemma check_rep_entry_only:
  "map_of intents n = Some i \<Longrightarrow> check_rep_entry canon sha intents (n, e) = check_rep_entry canon sha [(n, i)] (n, e)"
  by (simp add: check_rep_entry_def)

lemma derived_entry_binds:
  assumes entry: "derive_representation name a = Inr entry"
    and intent: "build_kv_offload_intent (rep_intent_args s detail entry) = Inr intent"
    and digest: "intent_sha256 canon sha intent = Inr digest"
  shows "check_rep_entry canon sha [(name, intent)] (name, obj_set entry ''intent_sha256'' (JStr digest)) = Inr ()"
proof -
  obtain spec k_rank v_rank ranks nt shape hdr components0 components extent where
    spec: "map_of REPRESENTATIONS name = Some spec"
    and e: "entry = rep_entry name a spec k_rank v_rank ranks nt shape hdr components extent"
    using derive_representation_Inr [OF entry] by metis
  note flds = rep_entry_fields [OF e]
  obtain ops where ops: "intent = v1_record (rep_intent_args s detail entry) ops" "validate_intent intent = Inr ()"
    using build_record [OF intent] by blast
  have obj: "fld (fld intent ''object'') ''payload_bytes'' = JInt (component_sum components)"
    "fld (fld intent ''object'') ''ranks_per_chunk'' = JInt ranks"
    by (simp_all add: ops(1) v1_record_def rep_intent_args_def flds)
  show ?thesis
    using ops(2) digest spec flds py_sum_ints [of components]
    by (simp add: check_rep_entry_def fld_set has_key_set obj_get_def obj_get_default_def obj_index_def obj int_fields_def
        comp_def case_prod_unfold num_eq_def)
qed

definition set_inv :: "(json \<Rightarrow> string) \<Rightarrow> (string \<Rightarrow> string) \<Rightarrow> fields \<times> fields \<Rightarrow> bool" where
  "set_inv canon sha acc \<longleftrightarrow> (case acc of (entries, intents) \<Rightarrow>
     fst ` set entries = fst ` set intents \<and> distinct (map fst entries) \<and>
     (\<forall>(n, e)\<in>set entries. check_rep_entry canon sha intents (n, e) = Inr ()))"

lemma derive_one_inv:
  assumes "set_inv canon sha acc" "derive_one canon sha s detail acc name = Inr acc'"
  shows "set_inv canon sha acc' \<and> fst acc' \<noteq> []"
proof -
  obtain entries intents where acc: "acc = (entries, intents)" by (cases acc)
  obtain entry intent digest where *:
    "derive_representation name ((sa_rep s)\<lparr>ra_detail := detail, ra_hashes := default_hashes s\<rparr>) = Inr entry"
    "build_kv_offload_intent (rep_intent_args s detail entry) = Inr intent"
    "intent_sha256 canon sha intent = Inr digest"
    "acc' = (AList.update name (obj_set entry ''intent_sha256'' (JStr digest)) entries, AList.update name intent intents)"
    using assms(2) by (auto simp: derive_one_def acc rbind_Inr_iff)
  define e where "e = obj_set entry ''intent_sha256'' (JStr digest)"
  have new: "check_rep_entry canon sha [(name, intent)] (name, e) = Inr ()"
    unfolding e_def by (rule derived_entry_binds [OF *(1-3)])
  have inv: "fst ` set entries = fst ` set intents" "distinct (map fst entries)"
    "\<And>n x. (n, x) \<in> set entries \<Longrightarrow> check_rep_entry canon sha intents (n, x) = Inr ()"
    using assms(1) by (auto simp: set_inv_def acc)
  have dist: "distinct (map fst (AList.update name e entries))"
    using inv(2) by (rule distinct_update)
  have "check_rep_entry canon sha (AList.update name intent intents) (n, x) = Inr ()"
    if "(n, x) \<in> set (AList.update name e entries)" for n x
  proof (cases "n = name")
    case True
    then have "x = e"
      using map_of_is_SomeI [OF dist that] by (simp add: update_conv)
    with True new show ?thesis
      by (subst check_rep_entry_only [where i = intent]) (simp_all add: update_conv)
  next
    case False
    then have "map_of entries n = Some x"
      using map_of_is_SomeI [OF dist that] by (simp add: update_conv)
    then have "(n, x) \<in> set entries" by (rule map_of_SomeD)
    moreover have "map_of (AList.update name intent intents) n = map_of intents n"
      using False by (simp add: update_conv)
    ultimately show ?thesis
      using inv(3) by (simp add: check_rep_entry_def)
  qed
  moreover have "fst ` set (AList.update name e entries) = fst ` set (AList.update name intent intents)"
    using dom_update [of name e entries] dom_update [of name intent intents] inv(1) by simp
  ultimately show ?thesis
    using dist by (auto simp: set_inv_def *(4) e_def [symmetric] dest: arg_cong [of _ _ "fst"])
qed

section \<open>An example\<close>

definition example_set :: set_args where
  "example_set = \<lparr>sa_model = ''qwen/qwen3-x'', sa_config = JObj [(''num_hidden_layers'', JInt 2), (''head_dim'', JInt 4),
       (''num_key_value_heads'', JInt 2)], sa_num_chunks = 1, sa_streams = 1, sa_iters = 1, sa_warmup = 0,
     sa_representations = [''k16_v8'', ''v8_only''], sa_rep = \<lparr>ra_detail = JNull, ra_dtype = ''bfloat16'', ra_chunk_tokens = 16, ra_tp = 2,
       ra_scale_scope = ''per_page_head'', ra_page_size = 16, ra_hashes = [], ra_store_metadata_bytes = 16,
       ra_block_align = 512, ra_pad = True\<rparr>\<rparr>"

definition example_set_result :: "(json \<times> fields) result" where
  "example_set_result = derive_representation_set (\<lambda>_. ''c'') (\<lambda>t. t) example_set"

lemma example_set_returns: "\<exists>manifest intents. example_set_result = Inr (manifest, intents)"
proof -
  have "case example_set_result of Inl _ \<Rightarrow> False | Inr _ \<Rightarrow> True" by code_simp
  then show ?thesis by (auto split: sum.splits)
qed

definition example_rep :: rep_args where
  "example_rep = (sa_rep example_set)\<lparr>ra_detail := JObj [(''family'', JStr ''default''), (''num_key_value_heads'', JInt 2),
     (''total_elements'', JInt 512)]\<rparr>"

lemma example_rep_returns: "\<exists>entry. derive_representation ''k16_v8'' example_rep = Inr entry"
proof -
  have "case derive_representation ''k16_v8'' example_rep of Inl _ \<Rightarrow> False | Inr _ \<Rightarrow> True" by code_simp
  then show ?thesis by (auto split: sum.splits)
qed

section \<open>Properties\<close>

text \<open>
  C18. The set of intents a derivation returns is accepted by the check of its own manifest: every
  entry binds the digest, the payload, the component sum, the rank count and the stored planes of
  its intent, and the intents are valid records.
\<close>

theorem derive_set_validates:
  assumes "derive_representation_set canon sha s = Inr (manifest, intents)"
  shows "validate_representation_set canon sha manifest intents = Inr ()"
proof -
  obtain detail entries ratios where run: "mfold (derive_one canon sha s detail) ([], []) (rep_names s) = Inr (entries, intents)"
    and manifest: "manifest = rep_manifest s detail entries ratios"
    using assms unfolding derive_representation_set_def Let_def by (auto simp: rbind_Inr_iff)
  have "rep_names s \<noteq> []" by (simp add: rep_names_def REPRESENTATIONS_def)
  have "set_inv canon sha (entries, intents) \<and> (rep_names s \<noteq> [] \<longrightarrow> fst (entries, intents) \<noteq> [])"
    using run
  proof (rule mfold_rule [where I = "\<lambda>ys acc. set_inv canon sha acc \<and> (ys \<noteq> [] \<longrightarrow> fst acc \<noteq> [])"])
    show "set_inv canon sha ([], []) \<and> ([] \<noteq> [] \<longrightarrow> fst ([], []) \<noteq> [])"
      by (simp add: set_inv_def)
  qed (use derive_one_inv in blast)
  with \<open>rep_names s \<noteq> []\<close> have inv: "set_inv canon sha (entries, intents)" "entries \<noteq> []" by auto
  have "is_obj manifest" "fld manifest ''schema'' = JStr SET_SCHEMA" "fld manifest ''evidence'' = JStr DERIVED_EVIDENCE"
    "fld manifest ''representations'' = JObj entries"
    by (simp_all add: manifest rep_manifest_def Let_def)
  then show ?thesis
    using inv by (auto simp: validate_representation_set_def set_inv_def obj_keys_def mforall_Inr_iff)
qed

theorem derive_set_validates_witness:
  "\<exists>manifest intents. derive_representation_set (\<lambda>_. ''c'') (\<lambda>t. t) example_set = Inr (manifest, intents) \<and>
     validate_representation_set (\<lambda>_. ''c'') (\<lambda>t. t) manifest intents = Inr ()"
  using example_set_returns derive_set_validates [of "\<lambda>_. ''c''" "\<lambda>t. t" example_set]
  unfolding example_set_result_def by blast



end
