(* ===== verification/Text_Lines.thy ===== *)
theory Text_Lines
  imports Py_Float
begin

text \<open>
  Text as the replay tools read and write it: words between white space, lines, and decimal
  numbers, with the facts that joined words and lines come apart again. White space and the line
  boundaries are parameters, because Python and Rust do not agree on them.
\<close>

section \<open>Words\<close>

function words :: "(char \<Rightarrow> bool) \<Rightarrow> string \<Rightarrow> string list" where
  "words sp s =
     (let t = dropWhile sp s in
      if t = [] then [] else takeWhile (\<lambda>c. \<not> sp c) t # words sp (dropWhile (\<lambda>c. \<not> sp c) t))"
  by pat_completeness auto
termination
proof (relation "measure (\<lambda>(sp, s). length s)")
  fix sp :: "char \<Rightarrow> bool" and s t :: string
  assume t: "t = dropWhile sp s" "t \<noteq> []"
  obtain c u where "t = c # u" using t(2) by (cases t) auto
  moreover have "\<not> sp (hd t)" using hd_dropWhile [of sp s] t by simp
  ultimately have "length (dropWhile (\<lambda>c. \<not> sp c) t) < length t"
    using length_dropWhile_le [of "\<lambda>c. \<not> sp c" u] by simp
  also have "length t \<le> length s"
    using length_dropWhile_le [of sp s] t(1) by simp
  finally show "((sp, dropWhile (\<lambda>c. \<not> sp c) t), (sp, s)) \<in> measure (\<lambda>(sp, s). length s)" by simp
qed simp

declare words.simps [simp del]

definition space_join :: "string list \<Rightarrow> string" where
  "space_join ws = concat (map (\<lambda>w. w @ '' '') (butlast ws)) @ (if ws = [] then [] else last ws)"

text \<open>A word: not empty, no white space in it.\<close>

definition is_word :: "(char \<Rightarrow> bool) \<Rightarrow> string \<Rightarrow> bool" where
  "is_word sp w \<longleftrightarrow> w \<noteq> [] \<and> (\<forall>c\<in>set w. \<not> sp c)"

lemma words_Nil [simp]: "words sp [] = []"
  by (subst words.simps) simp

lemma words_single: "is_word sp w \<Longrightarrow> words sp w = [w]"
proof -
  assume w: "is_word sp w"
  then have parts: "dropWhile sp w = w" "takeWhile (\<lambda>c. \<not> sp c) w = w" "dropWhile (\<lambda>c. \<not> sp c) w = []" "w \<noteq> []"
    by (cases w; auto simp: is_word_def)+
  show ?thesis by (subst words.simps) (simp add: Let_def parts)
qed

lemma words_Cons:
  assumes "is_word sp w" "sp c"
  shows "words sp (w @ c # s) = w # words sp s"
proof -
  have w: "dropWhile sp (w @ c # s) = w @ c # s" "takeWhile (\<lambda>c. \<not> sp c) (w @ c # s) = w"
    "dropWhile (\<lambda>c. \<not> sp c) (w @ c # s) = c # s"
    using assms by (cases w; auto simp: is_word_def takeWhile_append dropWhile_append)+
  have "words sp (c # s) = words sp s"
    using assms(2) by (subst (1 2) words.simps) (simp add: Let_def)
  with assms show ?thesis
    by (subst words.simps) (auto simp: Let_def w is_word_def)
qed

lemma words_space_join:
  assumes "\<forall>w\<in>set ws. is_word sp w" "sp (CHR '' '')"
  shows "words sp (space_join ws) = ws"
  using assms(1)
proof (induction ws)
  case Nil
  then show ?case by (simp add: space_join_def)
next
  case (Cons w ws)
  show ?case
  proof (cases "ws = []")
    case True
    with Cons show ?thesis by (simp add: space_join_def words_single)
  next
    case False
    then have "space_join (w # ws) = w @ CHR '' '' # space_join ws" by (simp add: space_join_def)
    with Cons assms(2) show ?thesis by (simp add: words_Cons)
  qed
qed

section \<open>Lines\<close>

text \<open>
  \<open>str.splitlines\<close>: every boundary character ends a line, a carriage return with its newline is
  one boundary, and a text that ends with a boundary has no empty last line.
\<close>

definition py_line_break :: "char \<Rightarrow> bool" where
  "py_line_break c \<longleftrightarrow> (of_char c :: nat) \<in> {10, 11, 12, 13, 28, 29, 30, 133}"

fun splitlines_from :: "string \<Rightarrow> string \<Rightarrow> string list" where
  "splitlines_from acc [] = (if acc = [] then [] else [rev acc])"
| "splitlines_from acc [c] = (if py_line_break c then [rev acc] else [rev (c # acc)])"
| "splitlines_from acc (c # d # s) =
     (if (of_char c :: nat) = 13 \<and> (of_char d :: nat) = 10 then rev acc # splitlines_from [] s
      else if py_line_break c then rev acc # splitlines_from [] (d # s)
      else splitlines_from (c # acc) (d # s))"

definition py_splitlines :: "string \<Rightarrow> string list" where
  "py_splitlines s = splitlines_from [] s"

text \<open>Rust's \<open>lines\<close>: only a newline ends a line, and one carriage return before it is dropped.\<close>

definition newline :: char where "newline = char_of (10 :: nat)"

fun newline_split :: "string \<Rightarrow> string \<Rightarrow> string list" where
  "newline_split acc [] = (if acc = [] then [] else [rev acc])"
| "newline_split acc (c # s) = (if c = newline then rev acc # newline_split [] s else newline_split (c # acc) s)"

definition chomp_cr :: "string \<Rightarrow> string" where
  "chomp_cr l = (if l \<noteq> [] \<and> (of_char (last l) :: nat) = 13 then butlast l else l)"

definition rust_lines :: "string \<Rightarrow> string list" where
  "rust_lines s = map chomp_cr (newline_split [] s)"

definition unlines :: "string list \<Rightarrow> string" where
  "unlines ls = concat (map (\<lambda>l. l @ [newline]) ls)"

lemma newline_code [simp]: "of_char newline = (10 :: nat)"
  by (simp add: newline_def)

lemma splitlines_from_plain:
  assumes "\<forall>c\<in>set l. \<not> py_line_break c"
  shows "splitlines_from acc (l @ newline # s) = (rev acc @ l) # splitlines_from [] s"
  using assms
proof (induction l arbitrary: acc)
  case Nil
  then show ?case by (cases s) (simp_all add: py_line_break_def)
next
  case (Cons c l)
  have "(of_char c :: nat) \<noteq> 13" using Cons.prems by (auto simp: py_line_break_def)
  moreover have "splitlines_from (c # acc) (l @ newline # s) = (rev (c # acc) @ l) # splitlines_from [] s"
    using Cons by simp
  ultimately show ?case using Cons.prems by (cases l) auto
qed

lemma py_splitlines_unlines:
  assumes "\<forall>l\<in>set ls. \<forall>c\<in>set l. \<not> py_line_break c"
  shows "py_splitlines (unlines ls) = ls"
  using assms unfolding py_splitlines_def unlines_def
  by (induction ls) (auto simp: splitlines_from_plain)

lemma newline_split_plain: "newline \<notin> set l \<Longrightarrow> newline_split acc (l @ newline # s) = (rev acc @ l) # newline_split [] s"
  by (induction l arbitrary: acc) auto

lemma rust_lines_unlines:
  assumes "\<forall>l\<in>set ls. \<forall>c\<in>set l. (of_char c :: nat) \<notin> {10, 13}"
  shows "rust_lines (unlines ls) = ls"
  using assms unfolding rust_lines_def unlines_def
proof (induction ls)
  case (Cons l ls)
  have "newline \<notin> set l" using Cons.prems by auto
  moreover have "chomp_cr l = l"
    using Cons.prems by (cases "l = []") (auto simp: chomp_cr_def)
  ultimately show ?case using Cons by (simp add: newline_split_plain)
qed simp

section \<open>Decimal numbers as words\<close>

lemma is_digit_code: "is_digit c \<longleftrightarrow> (of_char c :: nat) \<in> {48 .. 57}"
  by (auto simp: is_digit_def)

lemma str_nat_digits: "\<forall>c\<in>set (str_nat n). is_digit c"
  using isdigit_str_nat [of n] by (auto simp: isdigit_def list_all_iff)

lemma str_nat_word: "(\<And>c. is_digit c \<Longrightarrow> \<not> sp c) \<Longrightarrow> is_word sp (str_nat n)"
  using str_nat_digits [of n] by (auto simp: is_word_def)

lemma digit_not_space: "is_digit c \<Longrightarrow> \<not> is_space c"
  by (auto simp: is_digit_code is_space_def)

lemma digit_groups_digits: "s \<noteq> [] \<Longrightarrow> \<forall>c\<in>set s. is_digit c \<Longrightarrow> digit_groups s = Some s"
proof (induction s rule: digit_groups.induct)
  case (3 c d s)
  then have "d \<noteq> CHR ''_''" by (auto simp: is_digit_code)
  with 3 show ?case by simp
qed auto

lemma int_of_literal_str_nat [simp]: "int_of_literal (str_nat n) = Inr (int n)"
proof -
  obtain c s where cs: "str_nat n = c # s" by (cases "str_nat n") (use str_nat_not_Nil [of n] in auto)
  have dig: "\<forall>x\<in>set (str_nat n). is_digit x" by (rule str_nat_digits)
  have "dropWhile is_space xs = xs" if "\<forall>x\<in>set xs. is_digit x" for xs
    using that digit_not_space by (cases xs) auto
  then have strip: "strip_space (str_nat n) = str_nat n"
    using dig by (simp add: strip_space_def)
  have "c \<noteq> CHR ''-''" "c \<noteq> CHR ''+''" using dig cs by (auto simp: is_digit_code)
  then show ?thesis
    using digit_groups_digits [of "str_nat n"] dig
    by (simp add: int_of_literal_def strip cs [symmetric] Let_def) (simp add: cs)
qed

end
