(* ===== verification/Nvme_Capture.thy ===== *)
theory Nvme_Capture
  imports Text_Lines "HOL-Library.Product_Lexorder"
begin

text \<open>
  NVMe captures: the strict envelope checks of \<open>src/examples/replay/capture_format.py\<close> and the loader
  \<open>load_capture\<close> of \<open>src/examples/replay/mk_dev_iolog.py\<close>.

  A capture is given by its lines. The JSON grammar is the parameter \<open>decode\<close>: it returns the value
  of a line with every pair of every object in order, or \<open>None\<close> when the line is no JSON text; the
  hook that refuses duplicate keys then runs on that value.
\<close>

unbundle bit_operations_syntax

section \<open>Records and the envelope\<close>

definition CAPTURE_SCHEMA_VERSION :: int where "CAPTURE_SCHEMA_VERSION = 1"

definition KNOWN_EVENT_TYPES :: "string list" where
  "KNOWN_EVENT_TYPES = [''capture_meta'', ''clock_anchor'', ''nvme_cmd'', ''nvme_cmp'', ''drops'']"

text \<open>\<open>_unique_object\<close>, applied to every object of a decoded value.\<close>

fun unique_keys :: "json \<Rightarrow> bool" where
  "unique_keys (JObj kvs) \<longleftrightarrow> distinct (map fst kvs) \<and> (\<forall>p\<in>set kvs. unique_keys (snd p))"
| "unique_keys (JList vs) \<longleftrightarrow> (\<forall>v\<in>set vs. unique_keys v)"
| "unique_keys _ \<longleftrightarrow> True"

type_synonym crecord = "nat \<times> json"

definition load_line :: "(string \<Rightarrow> json option) \<Rightarrow> crecord list \<Rightarrow> nat \<times> string \<Rightarrow> crecord list result" where
  "load_line decode records item = (case item of (line_number, line) \<Rightarrow>
     if strip_space line = [] then Inr records
     else (case decode line of
             None \<Rightarrow> Inl (CaptureFormatError ''invalid JSON'')
           | Some record \<Rightarrow>
               if \<not> unique_keys record then Inl (CaptureFormatError ''duplicate JSON key'')
               else if \<not> is_obj record then Inl (CaptureFormatError ''expected a JSON object'')
               else Inr (records @ [(line_number, record)])))"

definition load_records :: "(string \<Rightarrow> json option) \<Rightarrow> string list \<Rightarrow> crecord list result" where
  "load_records decode file_lines =
     rbind (mfold (load_line decode) [] (enumerate 1 file_lines)) (\<lambda>records.
     rbind (require (records \<noteq> []) (CaptureFormatError ''capture is empty'')) (\<lambda>_.
     Inr records))"

record envelope =
  env_metadata :: "json option"
  env_drops :: int
  env_legacy :: bool
  env_scope :: "(string \<times> int) option"

definition power_of_two :: "int \<Rightarrow> bool" where
  "power_of_two n \<longleftrightarrow> 0 < n \<and> n AND (n - 1) = 0"

text \<open>One command of a versioned capture, against the disk the capture selected.\<close>

definition check_scope :: "string \<Rightarrow> (string \<times> int) list \<Rightarrow> crecord \<Rightarrow> (string \<times> int) list result" where
  "check_scope selected_disk scopes item = (case item of (line_number, record) \<Rightarrow>
     rbind (in_keys (fld record ''event_type'') KNOWN_EVENT_TYPES) (\<lambda>known.
     rbind (require known (CaptureFormatError ''unknown event_type'')) (\<lambda>_.
     if fld record ''event_type'' \<noteq> JStr ''nvme_cmd'' then Inr scopes
     else
       let disk = fld record ''disk''; nsid = fld record ''nsid'' in
       rbind (require (nonempty_str disk) (CaptureFormatError ''nvme_cmd has no disk identity'')) (\<lambda>_.
       rbind (require (is_int nsid \<and> 0 < the_int nsid) (CaptureFormatError ''nvme_cmd has invalid nsid'')) (\<lambda>_.
       rbind (require (disk = JStr selected_disk) (CaptureFormatError ''command disk disagrees with capture scope'')) (\<lambda>_.
       Inr (List.insert (the_str disk, the_int nsid) scopes)))))))"

definition check_v1 :: "crecord list \<Rightarrow> json \<Rightarrow> (string \<times> int) option result" where
  "check_v1 records metadata =
     rbind (require (fld metadata ''emitter'' = JStr ''nvme_tp_monitor'') (CaptureFormatError ''schema v1 requires emitter nvme_tp_monitor'')) (\<lambda>_.
     rbind (require (fld metadata ''disk_filter'' = JBool True) (CaptureFormatError ''schema v1 replay requires a --disk scoped capture'')) (\<lambda>_.
     let lba_bytes = fld metadata ''lba_bytes''; selected_disk = fld metadata ''disk'' in
     rbind (require (is_int lba_bytes \<and> power_of_two (the_int lba_bytes)) (CaptureFormatError ''schema v1 capture_meta has invalid lba_bytes'')) (\<lambda>_.
     rbind (require (nonempty_str selected_disk) (CaptureFormatError ''schema v1 capture_meta has no selected disk'')) (\<lambda>_.
     rbind (mfold (check_scope (the_str selected_disk)) [] records) (\<lambda>scopes.
     rbind (require (length scopes \<le> 1) (CaptureFormatError ''capture spans multiple device/namespace identities'')) (\<lambda>_.
     Inr (if scopes = [] then None else Some (hd scopes))))))))"

text \<open>Records are compared by their line number, which identifies them.\<close>

definition validate_envelope :: "crecord list \<Rightarrow> bool \<Rightarrow> envelope result" where
  "validate_envelope records allow_legacy =
     (let metadata_records = filter (\<lambda>r. fld (snd r) ''event_type'' = JStr ''capture_meta'') records;
          drop_records = filter (\<lambda>r. fld (snd r) ''event_type'' = JStr ''drops'') records in
      rbind (require (length metadata_records \<le> 1) (CaptureFormatError ''multiple capture_meta records'')) (\<lambda>_.
      rbind (require (metadata_records \<noteq> [] \<longrightarrow> fst (hd metadata_records) = fst (hd records))
        (CaptureFormatError ''capture_meta must be the first record'')) (\<lambda>_.
      rbind (require (drop_records \<noteq> []) (CaptureFormatError ''capture has no final drops record; it may be incomplete'')) (\<lambda>_.
      rbind (require (length drop_records = 1) (CaptureFormatError ''multiple drops records'')) (\<lambda>_.
      rbind (require (fst (hd drop_records) = fst (last records)) (CaptureFormatError ''drops record must be the final record'')) (\<lambda>_.
      let metadata = (if metadata_records \<noteq> [] then Some (snd (hd metadata_records)) else None);
          version = (case metadata of None \<Rightarrow> JNull | Some m \<Rightarrow> fld m ''schema_version'');
          legacy = (version = JNull) in
      rbind (require (legacy \<longrightarrow> allow_legacy) (CaptureFormatError ''capture uses the legacy unversioned format'')) (\<lambda>_.
      rbind (require (\<not> legacy \<longrightarrow> version = JInt CAPTURE_SCHEMA_VERSION) (CaptureFormatError ''unsupported capture schema_version'')) (\<lambda>_.
      let drops = fld (snd (hd drop_records)) ''dropped'' in
      rbind (require (is_int drops \<and> 0 \<le> the_int drops) (CaptureFormatError ''drops must be a non-negative integer'')) (\<lambda>_.
      rbind (if legacy then Inr None else check_v1 records (the metadata)) (\<lambda>scope.
      Inr \<lparr>env_metadata = metadata, env_drops = the_int drops, env_legacy = legacy, env_scope = scope\<rparr>))))))))))"

section \<open>Loading a capture\<close>

record nvme_row =
  nr_seq :: int
  nr_source_seq :: nat
  nr_ts :: int
  nr_op :: string
  nr_slba :: int
  nr_length :: int

record load_state =
  ls_rows :: "nvme_row list"
  ls_lba :: "int option"
  ls_unsupported :: "nat list"
  ls_seen :: "int set"

definition SUPPORTED :: "string list" where "SUPPORTED = [''read'', ''write'', ''flush'']"

definition field_int :: "json \<Rightarrow> string \<Rightarrow> int result" where
  "field_int record k = rbind (obj_index record k) py_int"

definition field_int_default :: "json \<Rightarrow> string \<Rightarrow> int \<Rightarrow> int result" where
  "field_int_default record k d = (if has_key record k then py_int (fld record k) else Inr d)"

definition load_command :: "load_state \<Rightarrow> nat \<Rightarrow> json \<Rightarrow> string \<Rightarrow> load_state result" where
  "load_command st source_seq record operation =
     rbind (field_int_default record ''seq'' (int source_seq)) (\<lambda>seq.
     rbind (field_int record ''ts'') (\<lambda>ts.
     rbind (field_int_default record ''slba'' 0) (\<lambda>slba.
     rbind (if operation = ''flush'' then Inr 0 else field_int record ''bytes'') (\<lambda>len.
     rbind (require (seq \<notin> ls_seen st) (CaptureError ''capture contains duplicate command seq'')) (\<lambda>_.
     rbind (require (0 \<le> seq \<and> 0 \<le> ts \<and> 0 \<le> slba) (CaptureError ''negative command field'')) (\<lambda>_.
     rbind (require (operation \<noteq> ''flush'' \<longrightarrow> 0 < len) (CaptureError ''non-positive command length'')) (\<lambda>_.
     Inr (st\<lparr>ls_seen := insert seq (ls_seen st), ls_rows := ls_rows st @ [\<lparr>nr_seq = seq, nr_source_seq = source_seq, nr_ts = ts,
        nr_op = (if operation = ''flush'' then ''datasync'' else operation), nr_slba = slba, nr_length = len\<rparr>]\<rparr>))))))))"

definition load_record :: "load_state \<Rightarrow> nat \<times> crecord \<Rightarrow> load_state result" where
  "load_record st item = (case item of (source_seq, line_number, record) \<Rightarrow>
     let event_type = fld record ''event_type'' in
     if event_type = JStr ''capture_meta'' \<and> fld record ''lba_bytes'' \<noteq> JNull then
       rbind (field_int record ''lba_bytes'') (\<lambda>candidate.
       rbind (require (ls_lba st \<noteq> None \<longrightarrow> ls_lba st = Some candidate) (CaptureError ''capture contains conflicting LBA sizes'')) (\<lambda>_.
       Inr (st\<lparr>ls_lba := Some candidate\<rparr>)))
     else if event_type = JStr ''nvme_cmd'' then
       let operation = fld record ''op_name'' in
       rbind (in_keys operation SUPPORTED) (\<lambda>supported.
       if \<not> supported then Inr (st\<lparr>ls_unsupported := ls_unsupported st @ [line_number]\<rparr>)
       else load_command st source_seq record (the_str operation))
     else Inr st)"

record fio_row =
  fr_ts :: int
  fr_op :: string
  fr_offset :: int
  fr_length :: int

record capture_meta =
  cm_lba_bytes :: int
  cm_drops :: int
  cm_unsupported :: nat
  cm_schema_version :: json
  cm_scope :: "(string \<times> int) option"

definition row_key :: "nvme_row \<Rightarrow> int \<times> int \<times> nat" where
  "row_key r = (nr_ts r, nr_seq r, nr_source_seq r)"

text \<open>The last loop: byte offsets, block alignment, and the 64-bit range.\<close>

definition place_row :: "int \<Rightarrow> nvme_row \<Rightarrow> fio_row result" where
  "place_row lba r =
     (let offset = nr_slba r * lba in
      rbind (require (nr_op r \<noteq> ''datasync'' \<longrightarrow> nr_length r mod lba = 0) (CaptureError ''command length is not aligned'')) (\<lambda>_.
      rbind (require (offset \<le> 2 ^ 64 - 1 - nr_length r) (CaptureError ''command byte range overflows an unsigned 64-bit offset'')) (\<lambda>_.
      Inr \<lparr>fr_ts = nr_ts r, fr_op = nr_op r, fr_offset = offset, fr_length = nr_length r\<rparr>)))"

text \<open>The block size: the requested one, or the one of the capture.\<close>

definition choose_lba :: "int option \<Rightarrow> int option \<Rightarrow> int result" where
  "choose_lba requested metadata_lba =
     (case (if requested \<noteq> None then requested else metadata_lba) of
        None \<Rightarrow> Inl (CaptureError ''capture does not record lba_bytes'')
      | Some lba \<Rightarrow>
          rbind (require (power_of_two lba) (CaptureError ''lba_bytes must be a positive power of two'')) (\<lambda>_.
          rbind (require (metadata_lba \<noteq> None \<and> requested \<noteq> None \<longrightarrow> metadata_lba = requested)
            (CaptureError ''--lba-bytes disagrees with capture metadata'')) (\<lambda>_.
          Inr lba)))"

text \<open>An error of the envelope is raised again as an error of the loader.\<close>

definition as_capture_error :: "'a result \<Rightarrow> 'a result" where
  "as_capture_error r = (case r of Inl (CaptureFormatError m) \<Rightarrow> Inl (CaptureError m) | _ \<Rightarrow> r)"

definition load_capture ::
  "(string \<Rightarrow> json option) \<Rightarrow> string list \<Rightarrow> int option \<Rightarrow> bool \<Rightarrow> bool \<Rightarrow> bool \<Rightarrow> (fio_row list \<times> capture_meta) result" where
  "load_capture decode file_lines requested_lba allow_drops allow_unsupported allow_legacy =
     rbind (as_capture_error (load_records decode file_lines)) (\<lambda>records.
     rbind (as_capture_error (validate_envelope records allow_legacy)) (\<lambda>env.
     rbind (mfold load_record \<lparr>ls_rows = [], ls_lba = None, ls_unsupported = [], ls_seen = {}\<rparr> (enumerate 0 records)) (\<lambda>st.
     rbind (require (env_drops env \<noteq> 0 \<longrightarrow> allow_drops) (CaptureError ''capture reports dropped events'')) (\<lambda>_.
     rbind (require (ls_unsupported st \<noteq> [] \<longrightarrow> allow_unsupported) (CaptureError ''capture contains unsupported commands'')) (\<lambda>_.
     rbind (choose_lba requested_lba (ls_lba st)) (\<lambda>lba.
     rbind (require (ls_rows st \<noteq> []) (CaptureError ''capture contains no supported NVMe commands'')) (\<lambda>_.
     rbind (mmap (place_row lba) (sort_key row_key (ls_rows st))) (\<lambda>rows.
     rbind (if env_legacy env then Inr JNull else obj_index (the (env_metadata env)) ''schema_version'') (\<lambda>version.
     Inr (rows, \<lparr>cm_lba_bytes = lba, cm_drops = env_drops env, cm_unsupported = length (ls_unsupported st),
        cm_schema_version = version, cm_scope = env_scope env\<rparr>))))))))))"

end
