(* ===== verification/Fio_Iolog.thy ===== *)
theory Fio_Iolog
  imports Nvme_Capture
begin

text \<open>
  The translation of a loaded capture to a fio version-3 iolog and its certificate
  (\<open>src/examples/replay/mk_dev_iolog.py\<close>): printing, reading back, and the record of what was
  compared. \<open>sha\<close> is SHA-256 as a hexadecimal text, \<open>trace_sha\<close> the digest of the capture file.
\<close>

section \<open>Printing and reading\<close>

definition V3_HEADER :: string where "V3_HEADER = ''fio version 3 iolog''"

definition row_line :: "int \<Rightarrow> string \<Rightarrow> fio_row \<Rightarrow> string" where
  "row_line t0 filename row =
     (let us = (fr_ts row - t0) div 1000 in
      if fr_op row = ''datasync'' then str_int us @ '' '' @ filename @ '' datasync''
      else str_int us @ '' '' @ filename @ '' '' @ fr_op row @ '' '' @ str_int (fr_offset row) @ '' '' @ str_int (fr_length row))"

definition iolog_lines :: "fio_row list \<Rightarrow> string \<Rightarrow> string list" where
  "iolog_lines rows filename =
     (let t0 = fr_ts (hd rows) in
      [V3_HEADER, ''0 '' @ filename @ '' add'', ''0 '' @ filename @ '' open''] @
      map (row_line t0 filename) rows @
      [str_int ((fr_ts (last rows) - t0) div 1000) @ '' '' @ filename @ '' close''])"

definition emit_iolog :: "fio_row list \<Rightarrow> string \<Rightarrow> string result" where
  "emit_iolog rows filename =
     (if rows = [] then Inl IndexError else Inr (unlines (iolog_lines rows filename)))"

type_synonym icommand = "int \<times> string \<times> int \<times> int"

definition parse_line :: "icommand list \<Rightarrow> string \<Rightarrow> icommand list result" where
  "parse_line commands line =
     (let fields = words is_space line in
      if length fields = 3 \<and> fields ! 2 \<in> {''add'', ''open'', ''close''} then Inr commands
      else if length fields = 3 \<and> fields ! 2 \<in> {''sync'', ''datasync''} then
        rbind (int_of_literal (fields ! 0)) (\<lambda>t. Inr (commands @ [(t, fields ! 2, 0, 0)]))
      else if length fields = 5 \<and> fields ! 2 \<in> {''read'', ''write'', ''trim''} then
        rbind (int_of_literal (fields ! 0)) (\<lambda>t.
        rbind (int_of_literal (fields ! 3)) (\<lambda>offset.
        rbind (int_of_literal (fields ! 4)) (\<lambda>len.
        Inr (commands @ [(t, fields ! 2, offset, len)]))))
      else Inl (CaptureError ''emitted artifact contains an invalid line''))"

definition parse_iolog :: "string \<Rightarrow> icommand list result" where
  "parse_iolog text =
     (case py_splitlines text of
        [] \<Rightarrow> Inl (CaptureError ''emitted artifact has an invalid fio v3 header'')
      | header # body \<Rightarrow>
          rbind (require (header = V3_HEADER) (CaptureError ''emitted artifact has an invalid fio v3 header'')) (\<lambda>_.
          mfold parse_line [] body))"

section \<open>The certificate\<close>

record ncommand =
  nc_seq :: int
  nc_at_ns :: int
  nc_op :: string
  nc_offset :: int
  nc_length :: int

definition normalize_rows :: "fio_row list \<Rightarrow> ncommand list" where
  "normalize_rows rows = map (\<lambda>(i, row). \<lparr>nc_seq = int i, nc_at_ns = fr_ts row - fr_ts (hd rows), nc_op = fr_op row,
     nc_offset = fr_offset row, nc_length = fr_length row\<rparr>) (enumerate 0 rows)"

definition expected_commands :: "ncommand list \<Rightarrow> icommand list" where
  "expected_commands cs = map (\<lambda>c. (nc_at_ns c div 1000, nc_op c, nc_offset c, nc_length c)) cs"

text \<open>
  \<open>json.dumps(normalized, sort_keys=True, separators=(",", ":"))\<close>: numbers and operation names need
  no escapes.
\<close>

definition quote :: "string \<Rightarrow> string" where "quote s = CHR 0x22 # s @ [CHR 0x22]"

definition member :: "string \<Rightarrow> string \<Rightarrow> string" where "member k v = quote k @ '':'' @ v"

fun comma_join :: "string list \<Rightarrow> string" where
  "comma_join [] = []"
| "comma_join [x] = x"
| "comma_join (x # y # xs) = x @ '','' @ comma_join (y # xs)"

definition command_json :: "ncommand \<Rightarrow> string" where
  "command_json c = ''{'' @ comma_join [member ''at_ns'' (str_int (nc_at_ns c)), member ''length_bytes'' (str_int (nc_length c)),
     member ''offset_bytes'' (str_int (nc_offset c)), member ''op'' (quote (nc_op c)), member ''seq'' (str_int (nc_seq c))] @ ''}''"

definition stream_json :: "ncommand list \<Rightarrow> string" where
  "stream_json cs = ''['' @ comma_join (map command_json cs) @ '']''"

record certificate =
  ct_schema_version :: int
  ct_equivalence_level :: string
  ct_source_count :: nat
  ct_emitted_count :: nat
  ct_sequence_equal :: bool
  ct_trace_sha256 :: string
  ct_stream_sha256 :: string
  ct_iolog_sha256 :: string
  ct_max_error_ns :: int
  ct_lba_bytes :: int
  ct_drops :: int
  ct_unsupported :: nat
  ct_performance_claimed :: bool
  ct_runtime :: json

definition max_of_ints :: "int list \<Rightarrow> int result" where
  "max_of_ints xs = (case xs of [] \<Rightarrow> Inl (ValueError ''max() arg is an empty sequence'') | x # ys \<Rightarrow> Inr (foldl max x ys))"

definition translation_certificate ::
  "(string \<Rightarrow> string) \<Rightarrow> string \<Rightarrow> fio_row list \<Rightarrow> string \<Rightarrow> capture_meta \<Rightarrow> (certificate \<times> ncommand list) result" where
  "translation_certificate sha trace_sha rows iolog meta =
     (if rows = [] then Inl IndexError else
      let normalized = normalize_rows rows in
      rbind (parse_iolog iolog) (\<lambda>reparsed.
      let equal = (reparsed = expected_commands normalized) in
      rbind (max_of_ints (map (\<lambda>c. nc_at_ns c mod 1000) normalized)) (\<lambda>worst.
      let cert = \<lparr>ct_schema_version = 1,
        ct_equivalence_level = (if cm_drops meta \<noteq> 0 \<or> cm_unsupported meta \<noteq> 0 then ''partial-stream-translation'' else ''stream-translation''),
        ct_source_count = length rows, ct_emitted_count = length reparsed, ct_sequence_equal = equal,
        ct_trace_sha256 = trace_sha, ct_stream_sha256 = sha (stream_json normalized), ct_iolog_sha256 = sha iolog,
        ct_max_error_ns = worst, ct_lba_bytes = cm_lba_bytes meta, ct_drops = cm_drops meta,
        ct_unsupported = cm_unsupported meta, ct_performance_claimed = False, ct_runtime = JNull\<rparr> in
      rbind (require equal (CaptureError ''internal translation validation failed'')) (\<lambda>_.
      Inr (cert, normalized)))))"

section \<open>What the loader guarantees\<close>

text \<open>The rows of a capture, in the order and with the alignment the translation relies on.\<close>

definition row_ok :: "int \<Rightarrow> fio_row \<Rightarrow> bool" where
  "row_ok lba r \<longleftrightarrow> 0 \<le> fr_ts r \<and> fr_op r \<in> {''read'', ''write'', ''datasync''} \<and> 0 \<le> fr_offset r \<and> lba dvd fr_offset r \<and>
     fr_offset r + fr_length r < 2 ^ 64 \<and>
     (if fr_op r = ''datasync'' then fr_length r = 0 else 0 < fr_length r \<and> lba dvd fr_length r)"

definition rows_ok :: "int \<Rightarrow> fio_row list \<Rightarrow> bool" where
  "rows_ok lba rows \<longleftrightarrow> rows \<noteq> [] \<and> 0 < lba \<and> (\<forall>r\<in>set rows. row_ok lba r) \<and> sorted (map fr_ts rows)"

definition nrow_ok :: "nvme_row \<Rightarrow> bool" where
  "nrow_ok r \<longleftrightarrow> 0 \<le> nr_ts r \<and> 0 \<le> nr_slba r \<and> nr_op r \<in> {''read'', ''write'', ''datasync''} \<and>
     (if nr_op r = ''datasync'' then nr_length r = 0 else 0 < nr_length r)"

lemma load_command_rows:
  assumes "load_command st source_seq rcd operation = Inr st'" "operation \<in> {''read'', ''write'', ''flush''}"
    "\<forall>r\<in>set (ls_rows st). nrow_ok r"
  shows "\<forall>r\<in>set (ls_rows st'). nrow_ok r"
proof -
  have "\<exists>seq ts slba len. st' = st\<lparr>ls_seen := insert seq (ls_seen st), ls_rows := ls_rows st @ [\<lparr>nr_seq = seq, nr_source_seq = source_seq, nr_ts = ts,
        nr_op = (if operation = ''flush'' then ''datasync'' else operation), nr_slba = slba, nr_length = len\<rparr>]\<rparr> \<and>
      0 \<le> ts \<and> 0 \<le> slba \<and> (if operation = ''flush'' then Inr 0 else field_int rcd ''bytes'') = Inr len \<and>
      (operation \<noteq> ''flush'' \<longrightarrow> 0 < len)"
    using assms(1) unfolding load_command_def rbind_Inr_iff require_Inr_iff sum.inject
    by (elim exE conjE) (intro exI conjI, erule sym, assumption+)
  then obtain seq ts slba len where new: "0 \<le> ts" "0 \<le> slba"
    "(if operation = ''flush'' then Inr 0 else field_int rcd ''bytes'') = Inr len" "operation \<noteq> ''flush'' \<longrightarrow> 0 < len"
    "st' = st\<lparr>ls_seen := insert seq (ls_seen st), ls_rows := ls_rows st @ [\<lparr>nr_seq = seq, nr_source_seq = source_seq, nr_ts = ts,
       nr_op = (if operation = ''flush'' then ''datasync'' else operation), nr_slba = slba, nr_length = len\<rparr>]\<rparr>"
    by blast
  have "nrow_ok \<lparr>nr_seq = seq, nr_source_seq = source_seq, nr_ts = ts,
       nr_op = (if operation = ''flush'' then ''datasync'' else operation), nr_slba = slba, nr_length = len\<rparr>"
    using new(1-4) assms(2) by (cases "operation = ''flush''") (auto simp: nrow_ok_def)
  with assms(3) show ?thesis by (simp add: new(5))
qed

lemma load_record_rows:
  assumes "load_record st item = Inr st'" "\<forall>r\<in>set (ls_rows st). nrow_ok r"
  shows "\<forall>r\<in>set (ls_rows st'). nrow_ok r"
proof -
  obtain n l rcd where item: "item = (n, l, rcd)" by (cases item)
  define oper where "oper = fld rcd ''op_name''"
  show ?thesis
  proof (cases "fld rcd ''event_type'' = JStr ''capture_meta'' \<and> fld rcd ''lba_bytes'' \<noteq> JNull")
    case True
    then show ?thesis
      using assms by (auto simp: load_record_def item rbind_Inr_iff)
  next
    case other: False
    show ?thesis
    proof (cases "fld rcd ''event_type'' = JStr ''nvme_cmd''")
      case True
      with other assms(1) have "rbind (in_keys oper SUPPORTED) (\<lambda>supported. if \<not> supported
          then Inr (st\<lparr>ls_unsupported := ls_unsupported st @ [l]\<rparr>) else load_command st n rcd (the_str oper)) = Inr st'"
        unfolding load_record_def item prod.case Let_def oper_def [symmetric] by auto
      then obtain b where b: "in_keys oper SUPPORTED = Inr b"
        "(if \<not> b then Inr (st\<lparr>ls_unsupported := ls_unsupported st @ [l]\<rparr>) else load_command st n rcd (the_str oper)) = Inr st'"
        unfolding rbind_Inr_iff by blast
      show ?thesis
      proof (cases b)
        case True
        with b(1) have "the_str oper \<in> {''read'', ''write'', ''flush''}"
          by (simp add: in_keys_def SUPPORTED_def split: if_splits)
        moreover have "load_command st n rcd (the_str oper) = Inr st'" using True b(2) by simp
        ultimately show ?thesis using load_command_rows assms(2) by blast
      qed (use b(2) assms(2) in auto)
    next
      case False
      with other assms(1) have "st' = st"
        unfolding load_record_def item prod.case Let_def if_not_P [OF other] if_not_P [OF False] by simp
      with assms(2) show ?thesis by simp
    qed
  qed
qed

lemma place_row_ok:
  assumes "place_row lba r = Inr f" "nrow_ok r" "0 < lba"
  shows "row_ok lba f \<and> fr_ts f = nr_ts r"
proof -
  have f: "nr_op r \<noteq> ''datasync'' \<longrightarrow> nr_length r mod lba = 0" "nr_slba r * lba \<le> 2 ^ 64 - 1 - nr_length r"
    "f = \<lparr>fr_ts = nr_ts r, fr_op = nr_op r, fr_offset = nr_slba r * lba, fr_length = nr_length r\<rparr>"
    using assms(1) unfolding place_row_def Let_def rbind_Inr_iff require_Inr_iff by simp_all
  have "0 \<le> nr_slba r * lba" using assms(2,3) by (simp add: nrow_ok_def)
  then show ?thesis
    using f assms(2) by (simp add: row_ok_def nrow_ok_def dvd_eq_mod_eq_0)
qed

lemma choose_lba_pos: "choose_lba req known = Inr lba \<Longrightarrow> 0 < lba"
  by (cases "if req \<noteq> None then req else known")
    (auto simp: choose_lba_def rbind_Inr_iff require_Inr_iff power_of_two_def simp del: if_split)

lemma load_capture_rows:
  assumes "load_capture decode file_lines req drops unsup legacy = Inr (rows, meta)"
  shows "rows_ok (cm_lba_bytes meta) rows"
proof -
  have "\<exists>records st lba.
      mfold load_record \<lparr>ls_rows = [], ls_lba = None, ls_unsupported = [], ls_seen = {}\<rparr> (enumerate 0 records) = Inr st \<and>
      choose_lba req (ls_lba st) = Inr lba \<and> ls_rows st \<noteq> [] \<and>
      mmap (place_row lba) (sort_key row_key (ls_rows st)) = Inr rows \<and> cm_lba_bytes meta = lba"
    using assms unfolding load_capture_def rbind_Inr_iff require_Inr_iff sum.inject prod.inject
    by (elim exE conjE) (hypsubst+, intro exI conjI, assumption+, simp)
  then obtain records st lba where
    st: "mfold load_record \<lparr>ls_rows = [], ls_lba = None, ls_unsupported = [], ls_seen = {}\<rparr> (enumerate 0 records) = Inr st"
    and lba: "choose_lba req (ls_lba st) = Inr lba" and ne: "ls_rows st \<noteq> []"
    and rows: "mmap (place_row lba) (sort_key row_key (ls_rows st)) = Inr rows" and meta: "cm_lba_bytes meta = lba"
    by blast
  have pos: "0 < lba"
    by (rule choose_lba_pos [OF lba])
  have "\<forall>r\<in>set (ls_rows st). nrow_ok r"
    using st by (rule mfold_rule [where I = "\<lambda>ys st. \<forall>r\<in>set (ls_rows st). nrow_ok r"]) (simp, rule load_record_rows)
  then have sorted_ok: "\<forall>r\<in>set (sort_key row_key (ls_rows st)). nrow_ok r" by simp
  have each: "list_all2 (\<lambda>r f. row_ok lba f \<and> fr_ts f = nr_ts r) (sort_key row_key (ls_rows st)) rows"
  proof (rule list.rel_mono_strong [OF rows [unfolded mmap_Inr_iff]])
    fix r f
    assume "r \<in> set (sort_key row_key (ls_rows st))" "place_row lba r = Inr f"
    then show "row_ok lba f \<and> fr_ts f = nr_ts r"
      using place_row_ok [OF _ bspec [OF sorted_ok] pos] by blast
  qed
  have "sorted (map row_key (sort_key row_key (ls_rows st)))" by simp
  then have "sorted (map nr_ts (sort_key row_key (ls_rows st)))"
    unfolding sorted_wrt_map by (rule sorted_wrt_mono_rel [rotated]) (auto simp: row_key_def less_eq_prod_def)
  moreover have "map fr_ts rows = map nr_ts (sort_key row_key (ls_rows st))"
    using each by (induction rule: list_all2_induct) auto
  moreover have "\<forall>f\<in>set rows. row_ok lba f"
    using each by (auto simp: list_all2_conv_all_nth in_set_conv_nth)
  moreover have "rows \<noteq> []"
    using list_all2_lengthD [OF each] ne by auto
  ultimately show ?thesis using pos by (simp add: rows_ok_def meta)
qed

section \<open>Reading back what was printed\<close>

definition printed :: "int \<Rightarrow> fio_row \<Rightarrow> icommand" where
  "printed t0 r = ((fr_ts r - t0) div 1000, fr_op r,
     if fr_op r = ''datasync'' then 0 else fr_offset r, if fr_op r = ''datasync'' then 0 else fr_length r)"

lemma str_int_nonneg: "0 \<le> i \<Longrightarrow> str_int i = str_nat (nat i)"
  using str_int_of_nat [of "nat i"] by simp

lemma plain_words:
  "is_word is_space ''datasync''" "is_word is_space ''add''" "is_word is_space ''open''" "is_word is_space ''close''"
  "is_word is_space ''read''" "is_word is_space ''write''"
  by (simp_all add: is_word_def is_space_def)

lemma number_word: "0 \<le> i \<Longrightarrow> is_word is_space (str_int i)"
  by (simp add: str_int_nonneg str_nat_word digit_not_space)

lemma int_of_literal_str_int: "0 \<le> i \<Longrightarrow> int_of_literal (str_int i) = Inr i"
  by (simp add: str_int_nonneg)

lemma three_words:
  assumes "is_word is_space a" "is_word is_space b" "is_word is_space c"
  shows "words is_space (a @ '' '' @ b @ '' '' @ c) = [a, b, c]"
  using words_space_join [of "[a, b, c]" is_space] assms by (simp add: space_join_def is_space_def)

lemma five_words:
  assumes "is_word is_space a" "is_word is_space b" "is_word is_space c" "is_word is_space d" "is_word is_space e"
  shows "words is_space (a @ '' '' @ b @ '' '' @ c @ '' '' @ d @ '' '' @ e) = [a, b, c, d, e]"
  using words_space_join [of "[a, b, c, d, e]" is_space] assms by (simp add: space_join_def is_space_def)

lemma parse_row_line:
  assumes "row_ok lba r" "t0 \<le> fr_ts r" "is_word is_space filename"
  shows "parse_line commands (row_line t0 filename r) = Inr (commands @ [printed t0 r])"
proof -
  have us: "0 \<le> (fr_ts r - t0) div 1000" using assms(2) by simp
  consider "fr_op r = ''datasync''" | "fr_op r = ''read''" | "fr_op r = ''write''" using assms(1) by (auto simp: row_ok_def)
  then show ?thesis
  proof cases
    case 1
    then show ?thesis
      using three_words [OF number_word [OF us] assms(3) plain_words(1)] us
      by (simp add: row_line_def parse_line_def printed_def int_of_literal_str_int)
  next
    case 2
    then have nn: "0 \<le> fr_offset r" "0 \<le> fr_length r" using assms(1) by (auto simp: row_ok_def)
    with 2 show ?thesis
      using five_words [OF number_word [OF us] assms(3) plain_words(5) number_word [OF nn(1)] number_word [OF nn(2)]] us
      by (simp add: row_line_def parse_line_def printed_def int_of_literal_str_int)
  next
    case 3
    then have nn: "0 \<le> fr_offset r" "0 \<le> fr_length r" using assms(1) by (auto simp: row_ok_def)
    with 3 show ?thesis
      using five_words [OF number_word [OF us] assms(3) plain_words(6) number_word [OF nn(1)] number_word [OF nn(2)]] us
      by (simp add: row_line_def parse_line_def printed_def int_of_literal_str_int)
  qed
qed

lemma parse_row_lines:
  assumes "\<forall>r\<in>set rows. row_ok lba r \<and> t0 \<le> fr_ts r" "is_word is_space filename"
  shows "mfold parse_line commands (map (row_line t0 filename) rows) = Inr (commands @ map (printed t0) rows)"
  using assms(1) by (induction rows arbitrary: commands) (auto simp: parse_row_line [OF _ _ assms(2)])

lemma parse_frame_line:
  assumes "0 \<le> i" "is_word is_space filename" "act \<in> {''add'', ''open'', ''close''}"
  shows "parse_line commands (str_int i @ '' '' @ filename @ '' '' @ act) = Inr commands"
proof -
  have "is_word is_space act" using assms(3) plain_words by auto
  from three_words [OF number_word [OF assms(1)] assms(2) this] assms(3) show ?thesis
    by (simp add: parse_line_def)
qed

text \<open>No printed line contains a line break.\<close>

lemma space_breaks: "py_line_break c \<Longrightarrow> is_space c \<and> c \<noteq> CHR '' ''"
  by (auto simp: py_line_break_def is_space_def)

lemma word_no_break: "is_word is_space w \<Longrightarrow> c \<in> set w \<Longrightarrow> \<not> py_line_break c"
  using space_breaks by (auto simp: is_word_def)

lemma row_line_no_break:
  assumes "row_ok lba r" "t0 \<le> fr_ts r" "is_word is_space filename" "c \<in> set (row_line t0 filename r)"
  shows "\<not> py_line_break c"
proof -
  have us: "0 \<le> (fr_ts r - t0) div 1000" using assms(2) by simp
  have op: "is_word is_space (fr_op r)" using assms(1) plain_words by (auto simp: row_ok_def)
  have nn: "fr_op r \<noteq> ''datasync'' \<Longrightarrow> 0 \<le> fr_offset r \<and> 0 \<le> fr_length r" using assms(1) by (auto simp: row_ok_def)
  have blank: "\<not> py_line_break (CHR '' '')" by (simp add: py_line_break_def)
  show ?thesis
    using assms(4) blank word_no_break [OF number_word [OF us]] word_no_break [OF assms(3)] word_no_break [OF op]
      word_no_break [OF plain_words(1)] word_no_break [OF number_word] nn
    by (cases "fr_op r = ''datasync''") (auto simp: row_line_def Let_def simp del: str_int_def)
qed

lemma sorted_hd_le: "sorted (map f xs) \<Longrightarrow> x \<in> set xs \<Longrightarrow> f (hd xs) \<le> f x"
  by (cases xs) auto

lemma parse_emitted:
  assumes "rows_ok lba rows" "is_word is_space filename"
  shows "parse_iolog (unlines (iolog_lines rows filename)) = Inr (map (printed (fr_ts (hd rows))) rows)"
proof -
  define t0 where "t0 = fr_ts (hd rows)"
  have ne: "rows \<noteq> []" and ok: "\<forall>r\<in>set rows. row_ok lba r \<and> t0 \<le> fr_ts r"
    using assms(1) sorted_hd_le [of fr_ts rows] by (auto simp: rows_ok_def t0_def)
  have stop: "0 \<le> (fr_ts (last rows) - t0) div 1000"
    using conjunct2 [OF bspec [OF ok last_in_set [OF ne]]] by (intro div_int_pos_iff [THEN iffD2]) auto
  define first where "first = [''0 '' @ filename @ '' add'', ''0 '' @ filename @ '' open'']"
  define final where "final = str_int ((fr_ts (last rows) - t0) div 1000) @ '' '' @ filename @ '' close''"
  have lines: "iolog_lines rows filename = V3_HEADER # first @ map (row_line t0 filename) rows @ [final]"
    by (simp add: iolog_lines_def first_def final_def t0_def Let_def)
  have zero: "str_int 0 = ''0''" by code_simp
  have frame: "mfold parse_line cs first = Inr cs" "parse_line cs final = Inr cs" for cs
    using parse_frame_line [OF order.refl assms(2), of _ cs] parse_frame_line [OF stop assms(2), of _ cs]
    by (auto simp: first_def final_def zero)
  have breaks: "\<forall>l\<in>set (iolog_lines rows filename). \<forall>c\<in>set l. \<not> py_line_break c"
  proof -
    have "\<not> py_line_break c" if "c \<in> set filename" for c using word_no_break [OF assms(2) that] .
    moreover have "\<not> py_line_break c" if "c \<in> set (str_int ((fr_ts (last rows) - t0) div 1000))" for c
      using word_no_break [OF number_word [OF stop] that] .
    moreover have "\<not> py_line_break c" if "c \<in> set V3_HEADER \<union> set '' add'' \<union> set '' open'' \<union> set '' close'' \<union> set ''0 ''" for c
      using that by (auto simp: V3_HEADER_def py_line_break_def)
    moreover have "\<not> py_line_break c" if "r \<in> set rows" "c \<in> set (row_line t0 filename r)" for r c
      using row_line_no_break [OF _ _ assms(2)] ok that by blast
    ultimately show ?thesis unfolding lines first_def final_def by auto
  qed
  show ?thesis
    using frame parse_row_lines [OF ok assms(2), of "[]"]
    unfolding parse_iolog_def lines t0_def [symmetric]
    by (simp add: mfold_append py_splitlines_unlines [OF breaks, unfolded lines])
qed

lemma expected_printed:
  assumes "rows_ok lba rows"
  shows "map (printed (fr_ts (hd rows))) rows = expected_commands (normalize_rows rows) \<longleftrightarrow>
    (\<forall>r\<in>set rows. fr_op r = ''datasync'' \<longrightarrow> fr_offset r = 0)"
proof -
  have "expected_commands (normalize_rows rows) =
      map (\<lambda>r. ((fr_ts r - fr_ts (hd rows)) div 1000, fr_op r, fr_offset r, fr_length r)) rows"
    by (rule nth_equalityI) (simp_all add: expected_commands_def normalize_rows_def nth_enumerate_eq)
  moreover have "fr_length r = 0" if "r \<in> set rows" "fr_op r = ''datasync''" for r
    using assms that by (auto simp: rows_ok_def row_ok_def)
  ultimately show ?thesis
    by (auto simp: printed_def)
qed

lemma foldl_max_bounds: "\<forall>x\<in>set (x0 # xs). (a :: int) \<le> x \<and> x < b \<Longrightarrow> a \<le> foldl max x0 xs \<and> foldl max x0 xs < b"
  by (induction xs arbitrary: x0) auto

lemma max_of_ints_bounds:
  assumes "xs \<noteq> []" "\<forall>x\<in>set xs. a \<le> x \<and> x < b"
  shows "\<exists>m. max_of_ints xs = Inr m \<and> a \<le> m \<and> m < b"
  using assms foldl_max_bounds [of "hd xs" "tl xs" a b] by (cases xs) (auto simp: max_of_ints_def)

lemma certificate_of_emitted:
  assumes "rows_ok lba rows" "is_word is_space filename"
  shows "\<exists>cert. translation_certificate sha trace_sha rows (unlines (iolog_lines rows filename)) meta =
      (if \<forall>r\<in>set rows. fr_op r = ''datasync'' \<longrightarrow> fr_offset r = 0 then Inr (cert, normalize_rows rows)
       else Inl (CaptureError ''internal translation validation failed'')) \<and>
      0 \<le> ct_max_error_ns cert \<and> ct_max_error_ns cert < 1000 \<and> ct_emitted_count cert = length rows \<and>
      ct_source_count cert = length rows \<and> ct_schema_version cert = 1 \<and> \<not> ct_performance_claimed cert \<and>
      max_of_ints (map (\<lambda>c. nc_at_ns c mod 1000) (normalize_rows rows)) = Inr (ct_max_error_ns cert) \<and>
      ct_equivalence_level cert = (if cm_drops meta \<noteq> 0 \<or> cm_unsupported meta \<noteq> 0 then ''partial-stream-translation'' else ''stream-translation'') \<and>
      ct_stream_sha256 cert = sha (stream_json (normalize_rows rows)) \<and> ct_iolog_sha256 cert = sha (unlines (iolog_lines rows filename)) \<and>
      ct_lba_bytes cert = cm_lba_bytes meta \<and> ct_drops cert = cm_drops meta \<and> ct_unsupported cert = cm_unsupported meta \<and>
      (ct_sequence_equal cert \<longleftrightarrow> (\<forall>r\<in>set rows. fr_op r = ''datasync'' \<longrightarrow> fr_offset r = 0)) \<and> ct_runtime cert = JNull"
proof -
  have ne: "rows \<noteq> []" using assms(1) by (simp add: rows_ok_def)
  have "length (normalize_rows rows) = length rows" by (simp add: normalize_rows_def)
  with ne have "map (\<lambda>c. nc_at_ns c mod 1000) (normalize_rows rows) \<noteq> []" by auto
  moreover have "\<forall>x\<in>set (map (\<lambda>c. nc_at_ns c mod 1000) (normalize_rows rows)). 0 \<le> x \<and> x < 1000" by simp
  ultimately obtain worst where worst: "max_of_ints (map (\<lambda>c. nc_at_ns c mod 1000) (normalize_rows rows)) = Inr worst"
    "0 \<le> worst" "worst < 1000"
    using max_of_ints_bounds by blast
  show ?thesis
    unfolding translation_certificate_def Let_def if_not_P [OF ne] parse_emitted [OF assms] rbind_simps
      expected_printed [OF assms(1)] worst(1)
    by (rule exI [where x = "\<lparr>ct_schema_version = 1,
        ct_equivalence_level = (if cm_drops meta \<noteq> 0 \<or> cm_unsupported meta \<noteq> 0 then ''partial-stream-translation'' else ''stream-translation''),
        ct_source_count = length rows, ct_emitted_count = length rows,
        ct_sequence_equal = (\<forall>r\<in>set rows. fr_op r = ''datasync'' \<longrightarrow> fr_offset r = 0),
        ct_trace_sha256 = trace_sha, ct_stream_sha256 = sha (stream_json (normalize_rows rows)),
        ct_iolog_sha256 = sha (unlines (iolog_lines rows filename)),
        ct_max_error_ns = worst, ct_lba_bytes = cm_lba_bytes meta, ct_drops = cm_drops meta,
        ct_unsupported = cm_unsupported meta, ct_performance_claimed = False, ct_runtime = JNull\<rparr>"])
      (simp add: worst(2,3) require_def)
qed

section \<open>An example\<close>

text \<open>A capture of a write and a flush; the letters stand for the lines of the file.\<close>

definition example_decode :: "int \<Rightarrow> string \<Rightarrow> json option" where
  "example_decode flush_slba = map_of [
     (''m'', JObj [(''event_type'', JStr ''capture_meta''), (''schema_version'', JInt 1), (''emitter'', JStr ''nvme_tp_monitor''),
        (''disk_filter'', JBool True), (''lba_bytes'', JInt 512), (''disk'', JStr ''nvme0n1'')]),
     (''w'', JObj [(''event_type'', JStr ''nvme_cmd''), (''op_name'', JStr ''write''), (''seq'', JInt 0), (''ts'', JInt 100),
        (''slba'', JInt 8), (''bytes'', JInt 1024), (''disk'', JStr ''nvme0n1''), (''nsid'', JInt 1)]),
     (''f'', JObj [(''event_type'', JStr ''nvme_cmd''), (''op_name'', JStr ''flush''), (''seq'', JInt 1), (''ts'', JInt 2600),
        (''slba'', JInt flush_slba), (''disk'', JStr ''nvme0n1''), (''nsid'', JInt 1)]),
     (''d'', JObj [(''event_type'', JStr ''drops''), (''dropped'', JInt 0)])]"

definition example_capture :: "int \<Rightarrow> (fio_row list \<times> capture_meta) result" where
  "example_capture flush_slba = load_capture (example_decode flush_slba) [''m'', ''w'', ''f'', ''d''] None False False False"

lemma example_capture_loads:
  "\<exists>meta. example_capture s = Inr ([\<lparr>fr_ts = 100, fr_op = ''write'', fr_offset = 4096, fr_length = 1024\<rparr>,
     \<lparr>fr_ts = 2600, fr_op = ''datasync'', fr_offset = s * 512, fr_length = 0\<rparr>], meta)" if "s = 0 \<or> s = 1"
proof -
  have "case example_capture 0 of Inr (rows, meta) \<Rightarrow> rows = [\<lparr>fr_ts = 100, fr_op = ''write'', fr_offset = 4096, fr_length = 1024\<rparr>,
     \<lparr>fr_ts = 2600, fr_op = ''datasync'', fr_offset = 0, fr_length = 0\<rparr>] | _ \<Rightarrow> False"
    by code_simp
  moreover have "case example_capture 1 of Inr (rows, meta) \<Rightarrow> rows = [\<lparr>fr_ts = 100, fr_op = ''write'', fr_offset = 4096, fr_length = 1024\<rparr>,
     \<lparr>fr_ts = 2600, fr_op = ''datasync'', fr_offset = 512, fr_length = 0\<rparr>] | _ \<Rightarrow> False"
    by code_simp
  ultimately show ?thesis
    using that by (auto split: sum.splits prod.splits)
qed

section \<open>Properties\<close>





end
