(* ===== verification/Stream_Compare.thy ===== *)
theory Stream_Compare
  imports Fio_Iolog "HOL-Library.Multiset"
begin

text \<open>
  \<open>compare_streams.py\<close>: the referee that loads a source capture and its replays, pairs every NVMe
  command with its completion, and compares the two command streams.

  A command is named by its place in the list of commands, which stands for the object the pending
  table and the event list share; setting a field of that object is an update of the list.
  Latencies and timing errors are floats, which \<open>Py_Float\<close> models as the rationals they denote.
\<close>

section \<open>Commands and completions\<close>

record completion =
  cp_ts :: int
  cp_lat_ns :: int
  cp_hwq :: int
  cp_cid :: int
  cp_status :: int

record ccommand =
  cc_seq :: int
  cc_source_seq :: nat
  cc_ts :: int
  cc_op :: string
  cc_slba :: int
  cc_bytes :: int
  cc_hwq :: "int option"
  cc_cid :: "int option"
  cc_completion :: "completion option"
  cc_ambiguous :: bool

datatype event_value = CommandAt nat | CompletionOf completion

type_synonym cevent = "(int \<times> nat) \<times> event_value"

definition cmp_int_field :: "json \<Rightarrow> string \<Rightarrow> int result" where
  "cmp_int_field record field = check_int ComparisonError (fld record field) 0"

definition cmp_opt_field :: "json \<Rightarrow> string \<Rightarrow> int option result" where
  "cmp_opt_field record field =
     (if fld record field = JNull then Inr None else rbind (cmp_int_field record field) (\<lambda>v. Inr (Some v)))"

section \<open>Pairing\<close>

record pair_state =
  ps_pending :: "((int \<times> int) \<times> nat) list"
  ps_commands :: "ccommand list"
  ps_orphan :: nat
  ps_ambiguous :: nat
  ps_invalid :: nat
  ps_missing :: nat
  ps_paired :: nat

definition mark_ambiguous :: "nat \<Rightarrow> ccommand list \<Rightarrow> ccommand list" where
  "mark_ambiguous i cs = cs[i := (cs ! i)\<lparr>cc_ambiguous := True\<rparr>]"

definition pair_command :: "pair_state \<Rightarrow> nat \<Rightarrow> pair_state" where
  "pair_command st i =
     (case (cc_hwq (ps_commands st ! i), cc_cid (ps_commands st ! i)) of
        (Some hwq, Some cid) \<Rightarrow>
          (case map_of (ps_pending st) (hwq, cid) of
             Some j \<Rightarrow> st\<lparr>ps_ambiguous := ps_ambiguous st + 1,
                ps_commands := mark_ambiguous i (mark_ambiguous j (ps_commands st)),
                ps_pending := AList.update (hwq, cid) i (ps_pending st)\<rparr>
           | None \<Rightarrow> st\<lparr>ps_pending := AList.update (hwq, cid) i (ps_pending st)\<rparr>)
      | _ \<Rightarrow> st\<lparr>ps_missing := ps_missing st + 1\<rparr>)"

definition pair_completion :: "pair_state \<Rightarrow> completion \<Rightarrow> pair_state" where
  "pair_completion st c =
     (let key = (cp_hwq c, cp_cid c) in
      case map_of (ps_pending st) key of
        None \<Rightarrow> st\<lparr>ps_orphan := ps_orphan st + 1\<rparr>
      | Some i \<Rightarrow>
          let command = ps_commands st ! i; st = st\<lparr>ps_pending := AList.delete key (ps_pending st)\<rparr>;
              derived = cp_ts c - cc_ts command in
          if derived < 0 \<or> derived \<noteq> cp_lat_ns c then st\<lparr>ps_invalid := ps_invalid st + 1\<rparr>
          else st\<lparr>ps_commands := (ps_commands st)[i := command\<lparr>cc_completion := Some c\<rparr>], ps_paired := ps_paired st + 1\<rparr>)"

definition pair_event :: "pair_state \<Rightarrow> cevent \<Rightarrow> pair_state" where
  "pair_event st event = (case snd event of CommandAt i \<Rightarrow> pair_command st i | CompletionOf c \<Rightarrow> pair_completion st c)"

record pairing =
  pr_complete :: bool
  pr_paired :: nat
  pr_unmatched :: nat
  pr_orphan :: nat
  pr_ambiguous :: nat
  pr_invalid :: nat
  pr_missing :: nat

definition pairing_start :: "ccommand list \<Rightarrow> pair_state" where
  "pairing_start commands = \<lparr>ps_pending = [], ps_commands = commands, ps_orphan = 0, ps_ambiguous = 0, ps_invalid = 0,
     ps_missing = 0, ps_paired = 0\<rparr>"

definition pair_completions :: "cevent list \<Rightarrow> ccommand list \<Rightarrow> pairing \<times> ccommand list" where
  "pair_completions events commands =
     (let st = foldl pair_event (pairing_start commands) (sort_key fst events);
          unmatched = length (filter (\<lambda>c. cc_completion c = None \<and> cc_hwq c \<noteq> None \<and> cc_cid c \<noteq> None) (ps_commands st)) in
      (\<lparr>pr_complete = (ps_paired st = length commands \<and> ps_orphan st = 0 \<and> ps_ambiguous st = 0 \<and> ps_invalid st = 0
           \<and> ps_missing st = 0 \<and> unmatched = 0),
        pr_paired = ps_paired st, pr_unmatched = unmatched, pr_orphan = ps_orphan st, pr_ambiguous = ps_ambiguous st,
        pr_invalid = ps_invalid st, pr_missing = ps_missing st\<rparr>, ps_commands st))"

section \<open>Loading a capture\<close>

record stream_state =
  ss_commands :: "ccommand list"
  ss_events :: "cevent list"
  ss_lba :: "int option"
  ss_seen :: "int set"

definition stream_command :: "stream_state \<Rightarrow> nat \<Rightarrow> json \<Rightarrow> string \<Rightarrow> stream_state result" where
  "stream_command st source_seq record operation =
     rbind (field_int_default record ''seq'' (int source_seq)) (\<lambda>sequence.
     rbind (require (sequence \<notin> ss_seen st) (ComparisonError ''duplicate command sequence'')) (\<lambda>_.
     rbind (cmp_int_field record ''ts'') (\<lambda>timestamp.
     rbind (if operation = ''flush'' then Inr 0 else cmp_int_field record ''slba'') (\<lambda>slba.
     rbind (if operation = ''flush'' then Inr 0 else cmp_int_field record ''bytes'') (\<lambda>len.
     rbind (cmp_opt_field record ''hwq'') (\<lambda>hwq.
     rbind (cmp_opt_field record ''cid'') (\<lambda>cid.
     rbind (require ((hwq = None) = (cid = None)) (ComparisonError ''command must carry both hwq and cid'')) (\<lambda>_.
     rbind (require (0 \<le> sequence) (ComparisonError ''negative command seq'')) (\<lambda>_.
     rbind (require (operation \<noteq> ''flush'' \<longrightarrow> len \<noteq> 0) (ComparisonError ''zero command length'')) (\<lambda>_.
     Inr (st\<lparr>ss_seen := insert sequence (ss_seen st),
        ss_commands := ss_commands st @ [\<lparr>cc_seq = sequence, cc_source_seq = source_seq, cc_ts = timestamp,
           cc_op = (if operation = ''flush'' then ''datasync'' else operation), cc_slba = slba, cc_bytes = len,
           cc_hwq = hwq, cc_cid = cid, cc_completion = None, cc_ambiguous = False\<rparr>],
        ss_events := ss_events st @ [((timestamp, source_seq), CommandAt (length (ss_commands st)))]\<rparr>)))))))))))"

definition stream_completion :: "stream_state \<Rightarrow> nat \<Rightarrow> json \<Rightarrow> stream_state result" where
  "stream_completion st source_seq record =
     rbind (cmp_int_field record ''ts'') (\<lambda>ts.
     rbind (cmp_int_field record ''lat_ns'') (\<lambda>lat_ns.
     rbind (cmp_int_field record ''hwq'') (\<lambda>hwq.
     rbind (cmp_int_field record ''cid'') (\<lambda>cid.
     rbind (cmp_int_field record ''status'') (\<lambda>status.
     Inr (st\<lparr>ss_events := ss_events st @ [((ts, source_seq), CompletionOf \<lparr>cp_ts = ts, cp_lat_ns = lat_ns, cp_hwq = hwq,
        cp_cid = cid, cp_status = status\<rparr>)]\<rparr>))))))"

definition stream_record :: "stream_state \<Rightarrow> nat \<times> crecord \<Rightarrow> stream_state result" where
  "stream_record st item = (case item of (source_seq, line_number, record) \<Rightarrow>
     let event_type = fld record ''event_type'' in
     if event_type = JStr ''capture_meta'' \<and> fld record ''lba_bytes'' \<noteq> JNull then
       rbind (field_int record ''lba_bytes'') (\<lambda>candidate.
       rbind (require (ss_lba st \<noteq> None \<longrightarrow> ss_lba st = Some candidate) (ComparisonError ''conflicting LBA sizes'')) (\<lambda>_.
       Inr (st\<lparr>ss_lba := Some candidate\<rparr>)))
     else if event_type = JStr ''nvme_cmd'' then
       rbind (obj_index record ''op_name'') (\<lambda>operation.
       rbind (require (in_tuple operation [''read'', ''write'', ''flush'']) (ComparisonError ''unsupported NVMe command'')) (\<lambda>_.
       stream_command st source_seq record (the_str operation)))
     else if event_type = JStr ''nvme_cmp'' then stream_completion st source_seq record
     else Inr st)"

definition cmd_key :: "ccommand \<Rightarrow> int \<times> int \<times> nat" where
  "cmd_key c = (cc_ts c, cc_seq c, cc_source_seq c)"

record stream =
  st_commands :: "ccommand list"
  st_latencies_us :: "rat list"
  st_lba_bytes :: "int option"
  st_drops :: int
  st_scope :: "(string \<times> int) option"
  st_pairing :: pairing

definition ns_to_us :: "int \<Rightarrow> rat" where
  "ns_to_us ns = fl (fl (of_int ns) / 1000)"

definition command_latencies :: "ccommand list \<Rightarrow> rat list" where
  "command_latencies commands =
     sort (concat (map (\<lambda>c. case cc_completion c of None \<Rightarrow> [] | Some done \<Rightarrow> [ns_to_us (cp_lat_ns done)]) commands))"

definition as_comparison_error :: "'a result \<Rightarrow> 'a result" where
  "as_comparison_error r = (case r of Inl (CaptureFormatError m) \<Rightarrow> Inl (ComparisonError m) | _ \<Rightarrow> r)"

definition load_stream :: "(string \<Rightarrow> json option) \<Rightarrow> string list \<Rightarrow> bool \<Rightarrow> stream result" where
  "load_stream decode file_lines allow_legacy =
     rbind (as_comparison_error (load_records decode file_lines)) (\<lambda>records.
     rbind (as_comparison_error (validate_envelope records allow_legacy)) (\<lambda>env.
     rbind (mfold stream_record \<lparr>ss_commands = [], ss_events = [], ss_lba = None, ss_seen = {}\<rparr> (enumerate 0 records)) (\<lambda>st.
     let (pairing, commands) = pair_completions (ss_events st) (ss_commands st);
         ordered = sort_key cmd_key commands in
     Inr \<lparr>st_commands = ordered, st_latencies_us = command_latencies ordered, st_lba_bytes = ss_lba st,
        st_drops = env_drops env, st_scope = env_scope env, st_pairing = pairing\<rparr>)))"

section \<open>Statistics\<close>

definition P50 :: rat where "P50 = 1 / 2"
definition P99 :: rat where "P99 = fl (99 / 100)"

definition percentile :: "rat list \<Rightarrow> rat \<Rightarrow> rat" where
  "percentile values fraction =
     (if values = [] then 0
      else sort values ! min (length values - 1) (nat (trunc (fl (fl (of_nat (length values)) * fraction)))))"

definition counter :: "int list \<Rightarrow> (int \<times> nat) list" where
  "counter xs = map (\<lambda>x. (x, count_list xs x)) (rev (remdups (rev xs)))"

definition most_common :: "nat \<Rightarrow> (int \<times> nat) list \<Rightarrow> (int \<times> nat) list" where
  "most_common n items = take n (sort_key (\<lambda>(_, k). - int k) items)"

fun join_with :: "string \<Rightarrow> string list \<Rightarrow> string" where
  "join_with sep [] = []"
| "join_with sep [w] = w"
| "join_with sep (w # ws) = w @ sep @ join_with sep ws"

record stream_stats =
  sm_cmds :: nat
  sm_writes :: nat
  sm_MB :: rat
  sm_avgKB :: rat
  sm_sizes :: string
  sm_dur_s :: rat
  sm_p50us :: rat
  sm_p99us :: rat

definition stats :: "stream \<Rightarrow> stream_stats" where
  "stats capture =
     (let commands = st_commands capture; latencies = st_latencies_us capture; count = length commands;
          total_bytes = sum_list (map cc_bytes commands) in
      \<lparr>sm_cmds = count, sm_writes = length (filter (\<lambda>c. cc_op c = ''write'') commands),
       sm_MB = fl (fl (of_int total_bytes) / 1000000),
       sm_avgKB = (if count \<noteq> 0 then fl (fl (of_int total_bytes / of_nat count) / 1024) else 0),
       sm_sizes = (if count \<noteq> 0 then join_with '', '' (map (\<lambda>(size, number).
          str_int (size div 1024) @ ''K:'' @ str_nat (number * 100 div count) @ ''%'') (most_common 3 (counter (map cc_bytes commands))))
        else []),
       sm_dur_s = (if commands \<noteq> [] then fl (fl (of_int (cc_ts (last commands) - cc_ts (hd commands))) / 1000000000) else 0),
       sm_p50us = percentile latencies P50, sm_p99us = percentile latencies P99\<rparr>)"

section \<open>Comparison\<close>

definition completion_status :: "stream \<Rightarrow> nat \<times> bool" where
  "completion_status capture =
     (let completed = concat (map (\<lambda>c. case cc_completion c of None \<Rightarrow> [] | Some done \<Rightarrow> [done]) (st_commands capture));
          errors = length (filter (\<lambda>c. cp_status c \<noteq> 0) completed) in
      (errors, st_commands capture \<noteq> [] \<and> pr_complete (st_pairing capture) \<and> errors = 0))"

definition command_tuple :: "int \<Rightarrow> ccommand \<Rightarrow> string \<times> int \<times> int" where
  "command_tuple lba c = (cc_op c, cc_slba c * lba, cc_bytes c)"

text \<open>The commands as the normalized workload of a replay bundle has them.\<close>

definition normalized_commands :: "stream \<Rightarrow> int \<Rightarrow> ncommand list" where
  "normalized_commands capture lba_bytes =
     (let commands = st_commands capture in
      map (\<lambda>(index, c). \<lparr>nc_seq = int index, nc_at_ns = cc_ts c - cc_ts (hd commands), nc_op = cc_op c,
         nc_offset = cc_slba c * lba_bytes, nc_length = cc_bytes c\<rparr>) (enumerate 0 commands))"

record error_stats =
  es_p50 :: rat
  es_p99 :: rat
  es_max :: rat

definition error_stats_of :: "rat list \<Rightarrow> error_stats" where
  "error_stats_of errors = \<lparr>es_p50 = percentile errors P50, es_p99 = percentile errors P99, es_max = Max (set errors)\<rparr>"

record comparison =
  cr_source_complete :: bool
  cr_replay_complete :: bool
  cr_count_equal :: bool
  cr_operation_equal :: bool
  cr_offset_equal :: bool
  cr_length_equal :: bool
  cr_tuple_equal :: bool
  cr_source_pairing :: bool
  cr_replay_pairing :: bool
  cr_source_errors :: nat
  cr_replay_errors :: nat
  cr_source_succeeded :: bool
  cr_replay_succeeded :: bool
  cr_stream_equal :: bool
  cr_timing :: "error_stats option"
  cr_latency :: "error_stats option"

definition completion_lat :: "ccommand \<Rightarrow> int" where
  "completion_lat c = (case cc_completion c of Some done \<Rightarrow> cp_lat_ns done | None \<Rightarrow> 0)"

definition timing_errors :: "ccommand list \<Rightarrow> ccommand list \<Rightarrow> rat list" where
  "timing_errors left right =
     map (\<lambda>(a, b). fl (of_int \<bar>(cc_ts a - cc_ts (hd left)) - (cc_ts b - cc_ts (hd right))\<bar> / 1000)) (zip left right)"

definition latency_errors :: "ccommand list \<Rightarrow> ccommand list \<Rightarrow> rat list" where
  "latency_errors left right =
     map (\<lambda>(a, b). fl (of_int \<bar>completion_lat a - completion_lat b\<bar> / 1000)) (zip left right)"

definition exact_comparison :: "stream \<Rightarrow> stream \<Rightarrow> int \<Rightarrow> comparison result" where
  "exact_comparison source replay lba_bytes =
     (let left = st_commands source; right = st_commands replay;
          source_tuples = map (command_tuple lba_bytes) left; replay_tuples = map (command_tuple lba_bytes) right;
          count_equal = (length left = length right);
          tuple_equal = (source_tuples = replay_tuples);
          compare_latency = (tuple_equal \<and> pr_complete (st_pairing source) \<and> pr_complete (st_pairing replay) \<and> left \<noteq> []) in
      rbind (require (compare_latency \<longrightarrow> (\<forall>c\<in>set (left @ right). cc_completion c \<noteq> None)) TypeError) (\<lambda>_.
      Inr \<lparr>cr_source_complete = (st_drops source = 0), cr_replay_complete = (st_drops replay = 0),
        cr_count_equal = count_equal,
        cr_operation_equal = (count_equal \<and> map fst source_tuples = map fst replay_tuples),
        cr_offset_equal = (count_equal \<and> map (fst \<circ> snd) source_tuples = map (fst \<circ> snd) replay_tuples),
        cr_length_equal = (count_equal \<and> map (snd \<circ> snd) source_tuples = map (snd \<circ> snd) replay_tuples),
        cr_tuple_equal = tuple_equal,
        cr_source_pairing = pr_complete (st_pairing source), cr_replay_pairing = pr_complete (st_pairing replay),
        cr_source_errors = fst (completion_status source), cr_replay_errors = fst (completion_status replay),
        cr_source_succeeded = snd (completion_status source), cr_replay_succeeded = snd (completion_status replay),
        cr_stream_equal = (st_drops source = 0 \<and> st_drops replay = 0 \<and> tuple_equal),
        cr_timing = (if count_equal \<and> left \<noteq> [] then Some (error_stats_of (timing_errors left right)) else None),
        cr_latency = (if compare_latency then Some (error_stats_of (latency_errors left right)) else None)\<rparr>))"

section \<open>The report\<close>

record report_result =
  rr_captures :: "(string \<times> stream) list"
  rr_summaries :: "(string \<times> stream_stats) list"
  rr_comparisons :: "(string \<times> comparison) list"
  rr_lba_bytes :: int

definition pick_lba :: "int option \<Rightarrow> int option \<Rightarrow> int result" where
  "pick_lba override known =
     (case (if override \<noteq> None \<and> override \<noteq> Some 0 then override else known) of
        None \<Rightarrow> Inl (SystemExit ''source capture has no lba_bytes metadata; pass --lba-bytes'')
      | Some lba \<Rightarrow> rbind (require (power_of_two lba) (SystemExit ''lba_bytes must be a positive power of two'')) (\<lambda>_. Inr lba))"

definition report :: "(string \<Rightarrow> json option) \<Rightarrow> (string \<times> string list) list \<Rightarrow> int option \<Rightarrow> bool \<Rightarrow> report_result result" where
  "report decode paths lba_override allow_legacy =
     rbind (mmap (\<lambda>(label, file_lines). rbind (load_stream decode file_lines allow_legacy) (\<lambda>s. Inr (label, s))) paths) (\<lambda>captures.
     rbind (case map_of captures ''capture'' of None \<Rightarrow> Inl KeyError | Some s \<Rightarrow> Inr s) (\<lambda>source.
     rbind (pick_lba lba_override (st_lba_bytes source)) (\<lambda>lba_bytes.
     rbind (mforall (\<lambda>(label, s). require (st_lba_bytes s = None \<or> st_lba_bytes s = Some lba_bytes)
        (SystemExit ''capture LBA disagrees'')) captures) (\<lambda>_.
     rbind (mmap (\<lambda>(label, s). rbind (exact_comparison source s lba_bytes) (\<lambda>c. Inr (label, c)))
        (filter (\<lambda>(label, s). label \<noteq> ''capture'') captures)) (\<lambda>comparisons.
     Inr \<lparr>rr_captures = captures, rr_summaries = map (\<lambda>(label, s). (label, stats s)) captures,
        rr_comparisons = comparisons, rr_lba_bytes = lba_bytes\<rparr>)))))"

definition spec_paths :: "string list \<Rightarrow> (string \<times> string) list result" where
  "spec_paths parts = (case parts of
      name # capture_path # replay # replays \<Rightarrow>
        Inr ((''capture'', capture_path) # map (\<lambda>(index, path). (''replay-'' @ str_nat (index + 1), path)) (enumerate 0 (replay # replays)))
    | _ \<Rightarrow> Inl (SystemExit ''spec must be NAME:CAPTURE:REPLAY_A[:REPLAY_B...]''))"

section \<open>What pairing guarantees\<close>

definition paired_with :: "ccommand \<Rightarrow> completion \<Rightarrow> bool" where
  "paired_with c p \<longleftrightarrow> cc_hwq c = Some (cp_hwq p) \<and> cc_cid c = Some (cp_cid p) \<and> 0 \<le> cp_lat_ns p \<and> cp_ts p = cc_ts c + cp_lat_ns p"

definition completions_of :: "cevent list \<Rightarrow> completion list" where
  "completions_of events = concat (map (\<lambda>e. case snd e of CompletionOf p \<Rightarrow> [p] | _ \<Rightarrow> []) events)"

definition indices_of :: "cevent list \<Rightarrow> nat list" where
  "indices_of events = concat (map (\<lambda>e. case snd e of CommandAt i \<Rightarrow> [i] | _ \<Rightarrow> []) events)"

text \<open>The events of a capture: each command once, any number of completions.\<close>

definition fresh_commands :: "ccommand list \<Rightarrow> bool" where
  "fresh_commands commands \<longleftrightarrow> (\<forall>c\<in>set commands. cc_completion c = None \<and> \<not> cc_ambiguous c)"

definition keys_of :: "ccommand \<Rightarrow> int option \<times> int option \<times> int" where
  "keys_of c = (cc_hwq c, cc_cid c, cc_ts c)"

definition done_indices :: "pair_state \<Rightarrow> nat set" where
  "done_indices st = {i. i < length (ps_commands st) \<and> cc_completion (ps_commands st ! i) \<noteq> None}"

text \<open>The invariant of the pairing loop, over the events it has seen.\<close>

definition pairing_inv :: "ccommand list \<Rightarrow> cevent list \<Rightarrow> pair_state \<Rightarrow> bool" where
  "pairing_inv commands seen st \<longleftrightarrow>
     length (ps_commands st) = length commands \<and>
     (\<forall>i<length commands. keys_of (ps_commands st ! i) = keys_of (commands ! i)) \<and>
     distinct (map fst (ps_pending st)) \<and>
     (\<forall>k i. map_of (ps_pending st) k = Some i \<longrightarrow>
        i \<in> set (indices_of seen) \<and> i < length commands \<and> cc_completion (ps_commands st ! i) = None \<and>
        cc_hwq (ps_commands st ! i) = Some (fst k) \<and> cc_cid (ps_commands st ! i) = Some (snd k)) \<and>
     (\<forall>i<length commands. \<forall>p. cc_completion (ps_commands st ! i) = Some p \<longrightarrow>
        paired_with (commands ! i) p \<and> p \<in> set (completions_of seen) \<and> i \<in> set (indices_of seen)) \<and>
     ps_paired st = card (done_indices st) \<and>
     ps_paired st + ps_orphan st + ps_invalid st = length (completions_of seen) \<and>
     (ps_ambiguous st = 0 \<longrightarrow> (\<forall>c\<in>set (ps_commands st). \<not> cc_ambiguous c))"

lemma events_snoc [simp]:
  "completions_of (es @ [(t, CommandAt i)]) = completions_of es"
  "completions_of (es @ [(t, CompletionOf p)]) = completions_of es @ [p]"
  "indices_of (es @ [(t, CommandAt i)]) = indices_of es @ [i]"
  "indices_of (es @ [(t, CompletionOf p)]) = indices_of es"
  "completions_of [] = []" "indices_of [] = []"
  by (simp_all add: completions_of_def indices_of_def)

lemma mark_ambiguous_nth:
  "length (mark_ambiguous i cs) = length cs"
  "j < length cs \<Longrightarrow> keys_of (mark_ambiguous i cs ! j) = keys_of (cs ! j)"
  "j < length cs \<Longrightarrow> cc_completion (mark_ambiguous i cs ! j) = cc_completion (cs ! j)"
  "j < length cs \<Longrightarrow> cc_hwq (mark_ambiguous i cs ! j) = cc_hwq (cs ! j)"
  "j < length cs \<Longrightarrow> cc_cid (mark_ambiguous i cs ! j) = cc_cid (cs ! j)"
  by (cases "i < length cs"; simp add: mark_ambiguous_def nth_list_update keys_of_def)+

lemma pairing_inv_start: "fresh_commands commands \<Longrightarrow> pairing_inv commands [] (pairing_start commands)"
  by (auto simp: pairing_inv_def pairing_start_def fresh_commands_def done_indices_def)

lemma done_indices_mark:
  "done_indices (st\<lparr>ps_ambiguous := n, ps_commands := mark_ambiguous i (mark_ambiguous j (ps_commands st)), ps_pending := q\<rparr>) = done_indices st"
  by (auto simp: done_indices_def mark_ambiguous_nth)

lemma pair_command_inv:
  assumes inv: "pairing_inv commands seen st" and i: "i < length commands" "i \<notin> set (indices_of seen)"
  shows "pairing_inv commands (seen @ [(t, CommandAt i)]) (pair_command st i)"
proof -
  have none: "cc_completion (ps_commands st ! i) = None"
    using inv i unfolding pairing_inv_def by (metis not_Some_eq)
  have len: "length (ps_commands st) = length commands" using inv by (simp add: pairing_inv_def)
  show ?thesis
  proof (cases "\<exists>h c. cc_hwq (ps_commands st ! i) = Some h \<and> cc_cid (ps_commands st ! i) = Some c")
    case False
    then have "pair_command st i = st\<lparr>ps_missing := ps_missing st + 1\<rparr>"
      by (auto simp: pair_command_def split: option.splits)
    with inv show ?thesis by (auto simp: pairing_inv_def done_indices_def)
  next
    case True
    then obtain h c where hc: "cc_hwq (ps_commands st ! i) = Some h" "cc_cid (ps_commands st ! i) = Some c" by blast
    show ?thesis
    proof (cases "map_of (ps_pending st) (h, c)")
      case None
      then have "pair_command st i = st\<lparr>ps_pending := AList.update (h, c) i (ps_pending st)\<rparr>"
        by (simp add: pair_command_def hc)
      with inv i none hc show ?thesis
        by (auto simp: pairing_inv_def done_indices_def update_conv distinct_update)
    next
      case (Some j)
      then have "pair_command st i = st\<lparr>ps_ambiguous := ps_ambiguous st + 1,
          ps_commands := mark_ambiguous i (mark_ambiguous j (ps_commands st)), ps_pending := AList.update (h, c) i (ps_pending st)\<rparr>"
        by (simp add: pair_command_def hc)
      with inv i none hc len show ?thesis
        by (auto simp: pairing_inv_def done_indices_mark update_conv distinct_update mark_ambiguous_nth)
    qed
  qed
qed

lemma pair_completion_inv:
  assumes inv: "pairing_inv commands seen st"
  shows "pairing_inv commands (seen @ [(t, CompletionOf p)]) (pair_completion st p)"
proof (cases "map_of (ps_pending st) (cp_hwq p, cp_cid p)")
  case None
  then have "pair_completion st p = st\<lparr>ps_orphan := ps_orphan st + 1\<rparr>" by (simp add: pair_completion_def)
  with inv show ?thesis by (auto simp: pairing_inv_def done_indices_def)
next
  case (Some i)
  let ?k = "(cp_hwq p, cp_cid p)" and ?c = "ps_commands st ! i"
  have len: "length (ps_commands st) = length commands" using inv by (simp add: pairing_inv_def)
  have i: "i \<in> set (indices_of seen)" "i < length commands" "cc_completion ?c = None" "cc_hwq ?c = Some (cp_hwq p)" "cc_cid ?c = Some (cp_cid p)"
    using inv Some unfolding pairing_inv_def by fastforce+
  have others: "j \<noteq> i" if "map_of (AList.delete ?k (ps_pending st)) k = Some j" for k j
  proof
    assume "j = i"
    moreover have "k \<noteq> ?k" using that by (auto simp: delete_conv)
    ultimately have "map_of (ps_pending st) k = Some i" using that by (simp add: delete_conv)
    then have "cc_hwq ?c = Some (fst k) \<and> cc_cid ?c = Some (snd k)" using inv unfolding pairing_inv_def by blast
    with i(4,5) \<open>k \<noteq> ?k\<close> show False by (cases k) simp
  qed
  have pend: "map_of (ps_pending st) k = Some j" if "map_of (AList.delete ?k (ps_pending st)) k = Some j" for k j
    using that by (auto simp: delete_conv split: if_splits)
  have del: "length (ps_commands st) = length commands" "distinct (map fst (AList.delete ?k (ps_pending st)))"
    using inv by (simp_all add: pairing_inv_def distinct_delete)
  show ?thesis
  proof (cases "cp_ts p - cc_ts ?c < 0 \<or> cp_ts p - cc_ts ?c \<noteq> cp_lat_ns p")
    case True
    let ?st = "st\<lparr>ps_pending := AList.delete ?k (ps_pending st), ps_invalid := ps_invalid st + 1\<rparr>"
    have eq: "pair_completion st p = ?st" using True by (simp add: pair_completion_def Some Let_def)
    have "done_indices ?st = done_indices st" by (simp add: done_indices_def)
    then show ?thesis
      unfolding eq using inv [unfolded pairing_inv_def] del pend unfolding pairing_inv_def by (elim conjE, intro conjI) (simp_all del: map_of_eq_Some_iff, blast+)
  next
    case False
    let ?st = "st\<lparr>ps_pending := AList.delete ?k (ps_pending st), ps_commands := (ps_commands st)[i := ?c\<lparr>cc_completion := Some p\<rparr>],
        ps_paired := ps_paired st + 1\<rparr>"
    have eq: "pair_completion st p = ?st" using False by (simp add: pair_completion_def Some Let_def)
    have "done_indices ?st = insert i (done_indices st)" using i(2) len by (auto simp: done_indices_def nth_list_update)
    moreover have "i \<notin> done_indices st" "finite (done_indices st)" using i(3) by (simp_all add: done_indices_def)
    ultimately have card: "card (done_indices ?st) = Suc (card (done_indices st))" by simp
    have keys: "keys_of ?c = keys_of (commands ! i)" using inv i(2) by (simp add: pairing_inv_def)
    then have pw: "paired_with (commands ! i) p" using i(4,5) False by (simp add: paired_with_def keys_of_def)
    show ?thesis
      unfolding eq pairing_inv_def
    proof (intro conjI)
      show "\<forall>j<length commands. keys_of (ps_commands ?st ! j) = keys_of (commands ! j)"
        using inv keys i(2) len by (simp add: pairing_inv_def keys_of_def nth_list_update)
      show "\<forall>k j. map_of (ps_pending ?st) k = Some j \<longrightarrow>
        j \<in> set (indices_of (seen @ [(t, CompletionOf p)])) \<and> j < length commands \<and> cc_completion (ps_commands ?st ! j) = None \<and>
        cc_hwq (ps_commands ?st ! j) = Some (fst k) \<and> cc_cid (ps_commands ?st ! j) = Some (snd k)"
      proof (intro allI impI)
        fix k j assume "map_of (ps_pending ?st) k = Some j"
        then have "map_of (AList.delete ?k (ps_pending st)) k = Some j" by simp
        from pend [OF this] others [OF this]
        show "j \<in> set (indices_of (seen @ [(t, CompletionOf p)])) \<and> j < length commands \<and> cc_completion (ps_commands ?st ! j) = None \<and>
          cc_hwq (ps_commands ?st ! j) = Some (fst k) \<and> cc_cid (ps_commands ?st ! j) = Some (snd k)"
          using inv [unfolded pairing_inv_def] i(2) len by (elim conjE allE [of _ k] allE [of _ j]) (simp add: nth_list_update)
      qed
      show "\<forall>j<length commands. \<forall>q. cc_completion (ps_commands ?st ! j) = Some q \<longrightarrow>
        paired_with (commands ! j) q \<and> q \<in> set (completions_of (seen @ [(t, CompletionOf p)])) \<and> j \<in> set (indices_of (seen @ [(t, CompletionOf p)]))"
        using inv pw i(1,2) len by (simp add: pairing_inv_def nth_list_update)
      show "ps_ambiguous ?st = 0 \<longrightarrow> (\<forall>c\<in>set (ps_commands ?st). \<not> cc_ambiguous c)"
      proof
        assume "ps_ambiguous ?st = 0"
        then have old: "\<forall>c\<in>set (ps_commands st). \<not> cc_ambiguous c" using inv by (simp add: pairing_inv_def)
        then have "\<not> cc_ambiguous ?c" using i(2) len by simp
        with old show "\<forall>c\<in>set (ps_commands ?st). \<not> cc_ambiguous c"
          using set_update_subset_insert [of "ps_commands st" i "?c\<lparr>cc_completion := Some p\<rparr>"] by auto
      qed
    qed (use inv del card in \<open>simp_all add: pairing_inv_def\<close>)
  qed
qed

lemma pairing_loop:
  assumes "fresh_commands commands" "distinct (indices_of events)" "set (indices_of events) \<subseteq> {..<length commands}"
  shows "pairing_inv commands events (foldl pair_event (pairing_start commands) events)"
  using assms(2,3)
proof (induction events rule: rev_induct)
  case Nil
  then show ?case using pairing_inv_start [OF assms(1)] by simp
next
  case (snoc e es)
  obtain t v where e: "e = (t, v)" by (cases e)
  show ?case
  proof (cases v)
    case (CommandAt i)
    with snoc e show ?thesis by (simp add: pair_event_def pair_command_inv)
  next
    case (CompletionOf p)
    with snoc e show ?thesis by (simp add: pair_event_def pair_completion_inv)
  qed
qed

lemma indices_of_perm: "mset (indices_of es) = \<Sum>\<^sub># (image_mset (\<lambda>e. mset (case snd e of CommandAt i \<Rightarrow> [i] | _ \<Rightarrow> [])) (mset es))"
  by (induction es) (auto simp: indices_of_def split: event_value.split)

lemma completions_of_perm: "mset (completions_of es) = \<Sum>\<^sub># (image_mset (\<lambda>e. mset (case snd e of CompletionOf p \<Rightarrow> [p] | _ \<Rightarrow> [])) (mset es))"
  by (induction es) (auto simp: completions_of_def split: event_value.split)

lemma events_sorted:
  "mset (indices_of (sort_key k es)) = mset (indices_of es)" "mset (completions_of (sort_key k es)) = mset (completions_of es)"
  by (simp_all add: indices_of_perm completions_of_perm)

section \<open>What the loader hands to the pairing\<close>

definition stream_inv :: "stream_state \<Rightarrow> bool" where
  "stream_inv st \<longleftrightarrow> fresh_commands (ss_commands st) \<and> indices_of (ss_events st) = [0..<length (ss_commands st)]"

definition is_completion_record :: "crecord \<Rightarrow> bool" where
  "is_completion_record r \<longleftrightarrow> fld (snd r) ''event_type'' = JStr ''nvme_cmp''"

lemma stream_command_Inr:
  assumes "stream_command st n record operation = Inr st'"
  shows "\<exists>seq ts slba len hwq cid.
    st' = st\<lparr>ss_seen := insert seq (ss_seen st),
        ss_commands := ss_commands st @ [\<lparr>cc_seq = seq, cc_source_seq = n, cc_ts = ts,
           cc_op = (if operation = ''flush'' then ''datasync'' else operation), cc_slba = slba, cc_bytes = len,
           cc_hwq = hwq, cc_cid = cid, cc_completion = None, cc_ambiguous = False\<rparr>],
        ss_events := ss_events st @ [((ts, n), CommandAt (length (ss_commands st)))]\<rparr> \<and>
    field_int_default record ''seq'' (int n) = Inr seq \<and> fld record ''ts'' = JInt ts \<and>
    (if operation = ''flush'' then slba = 0 \<and> len = 0 else fld record ''slba'' = JInt slba \<and> fld record ''bytes'' = JInt len)"
  using assms unfolding stream_command_def rbind_Inr_iff require_Inr_iff cmp_int_field_def check_int_Inr_iff sum.inject
  by (elim exE conjE) (intro exI conjI, rule sym, assumption, assumption, auto simp: is_int_iff rbind_Inr_iff check_int_Inr_iff split: if_splits)

lemma stream_record_inv:
  assumes "stream_record st (n, r) = Inr st'" "stream_inv st"
  shows "stream_inv st' \<and> length (completions_of (ss_events st')) =
    length (completions_of (ss_events st)) + (if is_completion_record r then 1 else 0)"
proof -
  obtain line rec where r: "r = (line, rec)" by (cases r)
  consider "fld rec ''event_type'' = JStr ''nvme_cmd''" | "fld rec ''event_type'' = JStr ''nvme_cmp''"
    | "fld rec ''event_type'' \<noteq> JStr ''nvme_cmd''" "fld rec ''event_type'' \<noteq> JStr ''nvme_cmp''" by blast
  then show ?thesis
  proof cases
    case 1
    then have "\<exists>operation. stream_command st n rec operation = Inr st'"
      using assms(1) by (auto simp: stream_record_def r rbind_Inr_iff)
    then obtain operation where "stream_command st n rec operation = Inr st'" by blast
    from stream_command_Inr [OF this] show ?thesis
      using assms(2) 1 by (elim exE conjE) (simp add: stream_inv_def fresh_commands_def is_completion_record_def r)
  next
    case 2
    then have "stream_completion st n rec = Inr st'" using assms(1) by (simp add: stream_record_def r)
    then show ?thesis
      using assms(2) 2 by (auto simp: stream_completion_def rbind_Inr_iff stream_inv_def is_completion_record_def r)
  next
    case 3
    then show ?thesis
      using assms by (auto simp: stream_record_def r Let_def rbind_Inr_iff stream_inv_def is_completion_record_def split: if_splits)
  qed
qed

lemma load_stream_start: "stream_inv \<lparr>ss_commands = [], ss_events = [], ss_lba = None, ss_seen = {}\<rparr>"
  by (simp add: stream_inv_def fresh_commands_def)

lemma stream_loop:
  assumes "mfold stream_record \<lparr>ss_commands = [], ss_events = [], ss_lba = None, ss_seen = {}\<rparr> (enumerate 0 records) = Inr st"
  shows "stream_inv st" "length (completions_of (ss_events st)) = length (filter is_completion_record records)"
proof -
  have "stream_inv st \<and> length (completions_of (ss_events st)) = length (filter is_completion_record (map snd (enumerate 0 records)))"
  proof (rule mfold_rule [OF assms, where I = "\<lambda>seen st. stream_inv st \<and>
      length (completions_of (ss_events st)) = length (filter is_completion_record (map snd seen))"], goal_cases)
    case 1
    show ?case using load_stream_start by simp
  next
    case (2 ys x zs u u')
    then show ?case using stream_record_inv [of u "fst x" "snd x" u'] by simp
  qed
  then show "stream_inv st" "length (completions_of (ss_events st)) = length (filter is_completion_record records)"
    by simp_all
qed

lemma pair_completions_inv:
  assumes "fresh_commands commands" "indices_of events = [0..<length commands]"
    and "pair_completions events commands = (pairing, paired)"
  obtains st where "pairing_inv commands (sort_key fst events) st" "paired = ps_commands st"
    "pr_complete pairing \<longleftrightarrow> ps_paired st = length commands \<and> ps_orphan st = 0 \<and> ps_ambiguous st = 0 \<and> ps_invalid st = 0
       \<and> ps_missing st = 0 \<and> pr_unmatched pairing = 0"
    "pr_paired pairing = ps_paired st" "pr_orphan pairing = ps_orphan st" "pr_invalid pairing = ps_invalid st"
proof -
  let ?st = "foldl pair_event (pairing_start commands) (sort_key fst events)"
  have "set (indices_of (sort_key fst events)) = {0..<length commands}"
    using arg_cong [OF events_sorted(1) [of fst events], of set_mset] assms(2) by simp
  moreover have "distinct (indices_of (sort_key fst events))"
    using events_sorted(1) [of fst events] assms(2) by (metis distinct_upt mset_eq_imp_distinct_iff)
  ultimately have inv: "pairing_inv commands (sort_key fst events) ?st"
    using pairing_loop [OF assms(1), of "sort_key fst events"] by (simp add: subset_eq)
  show ?thesis
    by (rule that [OF inv]) (use assms(3) [unfolded pair_completions_def Let_def] in auto)
qed

end
