(* ===== verification/Stream_Props.thy ===== *)
theory Stream_Props
  imports Stream_Compare
begin

text \<open>
  What the referee of \<open>compare_streams.py\<close> guarantees: how complete a complete pairing is, that two
  loaded captures can always be compared, what its verdict means, and that it reads a capture as the
  same command stream as the converter of \<open>mk_dev_iolog.py\<close>.
\<close>

lemma as_comparison_error_Inr_iff [result_simps]: "as_comparison_error r = Inr x \<longleftrightarrow> r = Inr x"
  by (auto simp: as_comparison_error_def split: sum.splits exn.splits)

lemma as_capture_error_Inr_iff [result_simps]: "as_capture_error r = Inr x \<longleftrightarrow> r = Inr x"
  by (auto simp: as_capture_error_def split: sum.splits exn.splits)

lemma load_stream_Inr:
  assumes "load_stream decode file_lines legacy = Inr s"
  obtains records env l pairing paired where "load_records decode file_lines = Inr records" "validate_envelope records legacy = Inr env"
    "mfold stream_record \<lparr>ss_commands = [], ss_events = [], ss_lba = None, ss_seen = {}\<rparr> (enumerate 0 records) = Inr l"
    "pair_completions (ss_events l) (ss_commands l) = (pairing, paired)"
    "s = \<lparr>st_commands = sort_key cmd_key paired, st_latencies_us = command_latencies (sort_key cmd_key paired), st_lba_bytes = ss_lba l,
      st_drops = env_drops env, st_scope = env_scope env, st_pairing = pairing\<rparr>"
proof -
  from assms obtain records env l where *: "load_records decode file_lines = Inr records" "validate_envelope records legacy = Inr env"
    "mfold stream_record \<lparr>ss_commands = [], ss_events = [], ss_lba = None, ss_seen = {}\<rparr> (enumerate 0 records) = Inr l"
    "(let (pairing, commands) = pair_completions (ss_events l) (ss_commands l); ordered = sort_key cmd_key commands in
       Inr \<lparr>st_commands = ordered, st_latencies_us = command_latencies ordered, st_lba_bytes = ss_lba l,
          st_drops = env_drops env, st_scope = env_scope env, st_pairing = pairing\<rparr>) = (Inr s :: stream result)"
    unfolding load_stream_def rbind_Inr_iff as_comparison_error_Inr_iff by meson
  obtain pairing paired where "pair_completions (ss_events l) (ss_commands l) = (pairing, paired)" by fastforce
  then show ?thesis using that [OF *(1-3)] *(4) by (simp add: Let_def)
qed

lemma load_stream_pairs:
  assumes "load_stream decode file_lines legacy = Inr s"
  obtains records commands events st where "load_records decode file_lines = Inr records"
    "pairing_inv commands (sort_key fst events) st" "set (st_commands s) = set (ps_commands st)"
    "length (completions_of events) = length (filter is_completion_record records)"
    "length (st_commands s) = length commands"
    "pr_complete (st_pairing s) \<longleftrightarrow> ps_paired st = length commands \<and> ps_orphan st = 0 \<and> ps_ambiguous st = 0 \<and> ps_invalid st = 0
       \<and> ps_missing st = 0 \<and> pr_unmatched (st_pairing s) = 0"
    "pr_paired (st_pairing s) = ps_paired st" "pr_orphan (st_pairing s) = ps_orphan st" "pr_invalid (st_pairing s) = ps_invalid st"
proof -
  obtain records env l pairing paired where load: "load_records decode file_lines = Inr records"
    and "validate_envelope records legacy = Inr env"
    and l: "mfold stream_record \<lparr>ss_commands = [], ss_events = [], ss_lba = None, ss_seen = {}\<rparr> (enumerate 0 records) = Inr l"
    and p: "pair_completions (ss_events l) (ss_commands l) = (pairing, paired)"
    and s: "s = \<lparr>st_commands = sort_key cmd_key paired, st_latencies_us = command_latencies (sort_key cmd_key paired), st_lba_bytes = ss_lba l,
      st_drops = env_drops env, st_scope = env_scope env, st_pairing = pairing\<rparr>"
    by (rule load_stream_Inr [OF assms])
  have inv: "fresh_commands (ss_commands l)" "indices_of (ss_events l) = [0..<length (ss_commands l)]"
    using stream_loop(1) [OF l] by (simp_all add: stream_inv_def)
  from pair_completions_inv [OF inv p] obtain st where st: "pairing_inv (ss_commands l) (sort_key fst (ss_events l)) st" "paired = ps_commands st"
    "pr_complete pairing \<longleftrightarrow> ps_paired st = length (ss_commands l) \<and> ps_orphan st = 0 \<and> ps_ambiguous st = 0 \<and> ps_invalid st = 0
       \<and> ps_missing st = 0 \<and> pr_unmatched pairing = 0"
    "pr_paired pairing = ps_paired st" "pr_orphan pairing = ps_orphan st" "pr_invalid pairing = ps_invalid st"
    by blast
  have "length paired = length (ss_commands l)" using st(1,2) by (simp add: pairing_inv_def)
  then show ?thesis
    using that [OF load st(1)] st s stream_loop(2) [OF l] by simp
qed

lemma complete_pairs:
  assumes inv: "pairing_inv commands events st" and all: "ps_paired st = length commands" and c: "c \<in> set (ps_commands st)"
  shows "\<exists>p. cc_completion c = Some p \<and> paired_with c p \<and> p \<in> set (completions_of events)"
proof -
  have len: "length (ps_commands st) = length commands" and card: "card (done_indices st) = length commands"
    using inv all by (simp_all add: pairing_inv_def)
  have "done_indices st \<subseteq> {..<length commands}" using len by (auto simp: done_indices_def)
  then have full: "done_indices st = {..<length commands}" using card by (simp add: card_subset_eq)
  obtain i where i: "i < length commands" "c = ps_commands st ! i" using c len by (metis in_set_conv_nth)
  with full obtain p where p: "cc_completion c = Some p" by (auto simp: done_indices_def)
  then have "paired_with (commands ! i) p" "p \<in> set (completions_of events)" using inv i by (simp_all add: pairing_inv_def)
  moreover have "keys_of c = keys_of (commands ! i)" using inv i by (simp add: pairing_inv_def)
  ultimately show ?thesis using p by (simp add: paired_with_def keys_of_def)
qed

lemma load_stream_complete:
  assumes load: "load_stream decode file_lines legacy = Inr s" and complete: "pr_complete (st_pairing s)" and c: "c \<in> set (st_commands s)"
  shows "\<not> cc_ambiguous c \<and> (\<exists>p. cc_completion c = Some p \<and> paired_with c p)"
proof -
  obtain records commands events st where st: "load_records decode file_lines = Inr records"
    "pairing_inv commands (sort_key fst events) st" "set (st_commands s) = set (ps_commands st)"
    "length (completions_of events) = length (filter is_completion_record records)"
    "length (st_commands s) = length commands"
    "pr_complete (st_pairing s) \<longleftrightarrow> ps_paired st = length commands \<and> ps_orphan st = 0 \<and> ps_ambiguous st = 0 \<and> ps_invalid st = 0
       \<and> ps_missing st = 0 \<and> pr_unmatched (st_pairing s) = 0"
    "pr_paired (st_pairing s) = ps_paired st" "pr_orphan (st_pairing s) = ps_orphan st" "pr_invalid (st_pairing s) = ps_invalid st"
    by (rule load_stream_pairs [OF load])
  then have "\<not> cc_ambiguous c" using complete c by (simp add: pairing_inv_def)
  moreover have "\<exists>p. cc_completion c = Some p \<and> paired_with c p"
    using complete_pairs [OF st(2), of c] st(3,6) complete c by auto
  ultimately show ?thesis by blast
qed

text \<open>
  C12. What the pairing of a loaded capture means. Every completion of the file is counted exactly
  once, as paired, as an orphan or as one with a wrong latency. If the capture is reported complete,
  there are as many completions as commands, and every command has its own completion: one of the
  same queue and command identifier whose time is the command's time plus the reported latency, and
  no command's identifier was reused while it was in flight.
\<close>

theorem load_stream_pairing:
  assumes "load_records decode file_lines = Inr records" "load_stream decode file_lines legacy = Inr s"
  shows "pr_paired (st_pairing s) + pr_orphan (st_pairing s) + pr_invalid (st_pairing s) = length (filter is_completion_record records) \<and>
    (pr_complete (st_pairing s) \<longrightarrow>
       length (filter is_completion_record records) = length (st_commands s) \<and>
       (\<forall>c\<in>set (st_commands s). \<not> cc_ambiguous c \<and> (\<exists>p. cc_completion c = Some p \<and> paired_with c p)))"
proof -
  obtain records' commands events st where st: "load_records decode file_lines = Inr records'"
    "pairing_inv commands (sort_key fst events) st" "set (st_commands s) = set (ps_commands st)"
    "length (completions_of events) = length (filter is_completion_record records')"
    "length (st_commands s) = length commands"
    "pr_complete (st_pairing s) \<longleftrightarrow> ps_paired st = length commands \<and> ps_orphan st = 0 \<and> ps_ambiguous st = 0 \<and> ps_invalid st = 0
       \<and> ps_missing st = 0 \<and> pr_unmatched (st_pairing s) = 0"
    "pr_paired (st_pairing s) = ps_paired st" "pr_orphan (st_pairing s) = ps_orphan st" "pr_invalid (st_pairing s) = ps_invalid st"
    by (rule load_stream_pairs [OF assms(2)])
  have same: "records' = records" using st(1) assms(1) by simp
  have "length (completions_of (sort_key fst events)) = length (completions_of events)"
    using events_sorted(2) [of fst events] by (metis size_mset)
  with st same have count: "ps_paired st + ps_orphan st + ps_invalid st = length (filter is_completion_record records)"
    by (simp add: pairing_inv_def)
  then show ?thesis using load_stream_complete [OF assms(2)] st by auto
qed

section \<open>The two readers of a capture\<close>

lemma mfold_both:
  assumes "mfold f s xs = Inr s'" "mfold g t xs = Inr t'" "R s t"
    and "\<And>u v u' v' x. R u v \<Longrightarrow> f u x = Inr u' \<Longrightarrow> g v x = Inr v' \<Longrightarrow> R u' v'"
  shows "R s' t'"
  using assms(1-3)
proof (induction xs arbitrary: s t)
  case Nil
  then show ?case by simp
next
  case (Cons x xs)
  then obtain u v where "f s x = Inr u" "mfold f u xs = Inr s'" "g t x = Inr v" "mfold g v xs = Inr t'"
    by (auto simp: rbind_Inr_iff)
  with Cons assms(4) show ?case by blast
qed

text \<open>A command as both readers see it; a flush has no address here.\<close>

type_synonym seen_command = "(int \<times> int \<times> nat) \<times> string \<times> int \<times> int"

definition row_seen :: "nvme_row \<Rightarrow> seen_command" where
  "row_seen r = (row_key r, nr_op r, if nr_op r = ''datasync'' then 0 else nr_slba r, nr_length r)"

definition command_seen :: "ccommand \<Rightarrow> seen_command" where
  "command_seen c = (cmd_key c, cc_op c, cc_slba c, cc_bytes c)"

definition same_stream :: "load_state \<Rightarrow> stream_state \<Rightarrow> bool" where
  "same_stream l t \<longleftrightarrow> map row_seen (ls_rows l) = map command_seen (ss_commands t) \<and> ls_unsupported l = [] \<and>
     (\<forall>c\<in>set (ss_commands t). cc_op c = ''datasync'' \<longrightarrow> cc_slba c = 0)"

lemma load_command_Inr:
  assumes "load_command st n rcd operation = Inr st'"
  shows "\<exists>seq ts slba len.
    st' = st\<lparr>ls_seen := insert seq (ls_seen st), ls_rows := ls_rows st @ [\<lparr>nr_seq = seq, nr_source_seq = n, nr_ts = ts,
        nr_op = (if operation = ''flush'' then ''datasync'' else operation), nr_slba = slba, nr_length = len\<rparr>]\<rparr> \<and>
    field_int_default rcd ''seq'' (int n) = Inr seq \<and> field_int rcd ''ts'' = Inr ts \<and> field_int_default rcd ''slba'' 0 = Inr slba \<and>
    (if operation = ''flush'' then Inr 0 else field_int rcd ''bytes'') = Inr len"
  using assms unfolding load_command_def rbind_Inr_iff require_Inr_iff sum.inject
  by (elim exE conjE) (intro exI conjI, erule sym, assumption+)

lemma field_int_JInt: "fld rcd k = JInt i \<Longrightarrow> field_int rcd k = Inr i"
  using fld_nonnull_is_obj [of rcd k] by (simp add: field_int_def obj_index_def fld_nonnull_has_key)

lemma field_int_default_JInt: "fld rcd k = JInt i \<Longrightarrow> field_int_default rcd k d = Inr i"
  by (simp add: field_int_default_def fld_nonnull_has_key)

lemma same_command:
  assumes "same_stream l t" "load_command l n rcd operation = Inr l'" "stream_command t n rcd operation = Inr t'"
    "operation \<in> {''read'', ''write'', ''flush''}"
  shows "same_stream l' t'"
proof -
  from load_command_Inr [OF assms(2)] obtain seq ts slba len where
    l': "l' = l\<lparr>ls_seen := insert seq (ls_seen l), ls_rows := ls_rows l @ [\<lparr>nr_seq = seq, nr_source_seq = n, nr_ts = ts,
        nr_op = (if operation = ''flush'' then ''datasync'' else operation), nr_slba = slba, nr_length = len\<rparr>]\<rparr>"
    and lf: "field_int_default rcd ''seq'' (int n) = Inr seq" "field_int rcd ''ts'' = Inr ts" "field_int_default rcd ''slba'' 0 = Inr slba"
      "(if operation = ''flush'' then Inr 0 else field_int rcd ''bytes'') = Inr len" by blast
  from stream_command_Inr [OF assms(3)] obtain seq2 ts2 slba2 len2 hwq cid where
    t': "t' = t\<lparr>ss_seen := insert seq2 (ss_seen t),
        ss_commands := ss_commands t @ [\<lparr>cc_seq = seq2, cc_source_seq = n, cc_ts = ts2,
           cc_op = (if operation = ''flush'' then ''datasync'' else operation), cc_slba = slba2, cc_bytes = len2,
           cc_hwq = hwq, cc_cid = cid, cc_completion = None, cc_ambiguous = False\<rparr>],
        ss_events := ss_events t @ [((ts2, n), CommandAt (length (ss_commands t)))]\<rparr>"
    and tf: "field_int_default rcd ''seq'' (int n) = Inr seq2" "fld rcd ''ts'' = JInt ts2"
      "if operation = ''flush'' then slba2 = 0 \<and> len2 = 0 else fld rcd ''slba'' = JInt slba2 \<and> fld rcd ''bytes'' = JInt len2"
    by blast
  have eq: "seq2 = seq" "ts2 = ts" using lf tf field_int_JInt [OF tf(2)] by simp_all
  show ?thesis
  proof (cases "operation = ''flush''")
    case True
    then show ?thesis using assms(1) lf(4) tf(3)
      by (simp add: same_stream_def l' t' row_seen_def command_seen_def row_key_def cmd_key_def eq)
  next
    case False
    then have "slba2 = slba" "len2 = len"
      using lf(3,4) tf(3) field_int_JInt [of rcd "''bytes''" len2] field_int_default_JInt [of rcd "''slba''" slba2 0] by simp_all
    moreover have "operation \<noteq> ''datasync''" using assms(4) by auto
    ultimately show ?thesis using assms(1) False
      by (simp add: same_stream_def l' t' row_seen_def command_seen_def row_key_def cmd_key_def eq)
  qed
qed

lemma same_record:
  assumes "same_stream l t" "load_record l item = Inr l'" "stream_record t item = Inr t'"
  shows "same_stream l' t'"
proof -
  obtain n line rcd where item: "item = (n, line, rcd)" by (cases item)
  show ?thesis
  proof (cases "fld rcd ''event_type'' = JStr ''nvme_cmd''")
    case True
    then have t: "\<exists>operation. in_tuple operation [''read'', ''write'', ''flush''] \<and> operation = fld rcd ''op_name'' \<and>
        stream_command t n rcd (the_str operation) = Inr t'"
      using assms(3) by (auto simp: stream_record_def item rbind_Inr_iff require_Inr_iff obj_index_Inr_iff)
    then obtain op where op: "fld rcd ''op_name'' = JStr op" "op \<in> {''read'', ''write'', ''flush''}" "stream_command t n rcd op = Inr t'"
      by (auto simp: in_tuple_def is_str_iff)
    then have "in_keys (fld rcd ''op_name'') SUPPORTED = Inr True" by (simp add: in_keys_def SUPPORTED_def)
    then have "load_command l n rcd op = Inr l'" using assms(2) True op(1) by (simp add: load_record_def item)
    then show ?thesis using same_command [OF assms(1) _ op(3,2)] by blast
  next
    case False
    then have "ls_rows l' = ls_rows l \<and> ls_unsupported l' = ls_unsupported l"
      using assms(2) by (auto simp: load_record_def item Let_def rbind_Inr_iff split: if_splits)
    moreover have "ss_commands t' = ss_commands t"
      using assms(3) False by (auto simp: stream_record_def item Let_def rbind_Inr_iff stream_completion_def split: if_splits)
    ultimately show ?thesis using assms(1) by (simp add: same_stream_def)
  qed
qed

text \<open>Pairing changes no field the stream is made of.\<close>

lemma map_update_same: "(\<And>x. f (g x) = f x) \<Longrightarrow> map f (xs[i := g (xs ! i)]) = map f xs"
  by (cases "i < length xs") (simp_all add: map_update list_update_same_conv [THEN iffD2] list_update_beyond not_less)

lemma mark_ambiguous_seen: "map command_seen (mark_ambiguous i cs) = map command_seen cs"
  unfolding mark_ambiguous_def by (rule map_update_same) (simp add: command_seen_def cmd_key_def)

lemma pair_event_seen: "map command_seen (ps_commands (pair_event st e)) = map command_seen (ps_commands st)"
proof -
  have complete: "map command_seen (cs[i := (cs ! i)\<lparr>cc_completion := q\<rparr>]) = map command_seen cs" for cs i q
    by (rule map_update_same) (simp add: command_seen_def cmd_key_def)
  show ?thesis
    by (simp add: pair_event_def pair_command_def pair_completion_def mark_ambiguous_seen complete Let_def
        split: event_value.split option.split)
qed

lemma pair_completions_seen: "pair_completions events commands = (pairing, paired) \<Longrightarrow> map command_seen paired = map command_seen commands"
proof -
  have "map command_seen (ps_commands (foldl pair_event st es)) = map command_seen (ps_commands st)" for st es
    by (induction es arbitrary: st) (simp_all add: pair_event_seen)
  then show "pair_completions events commands = (pairing, paired) \<Longrightarrow> map command_seen paired = map command_seen commands"
    by (auto simp: pair_completions_def Let_def pairing_start_def)
qed

lemma map_insort_key: "(\<And>x. k x = k' (f x)) \<Longrightarrow> map f (insort_key k x xs) = insort_key k' (f x) (map f xs)"
  by (induction xs) simp_all

lemma map_sort_key: "(\<And>x. k x = k' (f x)) \<Longrightarrow> map f (sort_key k xs) = sort_key k' (map f xs)"
  by (induction xs) (simp_all add: sort_key_simps map_insort_key [of k k' f])

lemma rows_of_load:
  assumes "load_capture decode file_lines req drops unsup legacy = Inr (rows, meta)"
  obtains records l where "load_records decode file_lines = Inr records"
    "mfold load_record \<lparr>ls_rows = [], ls_lba = None, ls_unsupported = [], ls_seen = {}\<rparr> (enumerate 0 records) = Inr l"
    "ls_rows l \<noteq> []"
    "rows = map (\<lambda>r. \<lparr>fr_ts = nr_ts r, fr_op = nr_op r, fr_offset = nr_slba r * cm_lba_bytes meta, fr_length = nr_length r\<rparr>)
       (sort_key row_key (ls_rows l))"
proof -
  have "\<exists>records l.
      mfold load_record \<lparr>ls_rows = [], ls_lba = None, ls_unsupported = [], ls_seen = {}\<rparr> (enumerate 0 records) = Inr l \<and>
      load_records decode file_lines = Inr records \<and> ls_rows l \<noteq> [] \<and>
      mmap (place_row (cm_lba_bytes meta)) (sort_key row_key (ls_rows l)) = Inr rows"
    using assms unfolding load_capture_def rbind_Inr_iff require_Inr_iff as_capture_error_Inr_iff sum.inject prod.inject
    by (elim exE conjE) (hypsubst+, intro exI conjI, assumption+, simp)
  then obtain records l where *: "load_records decode file_lines = Inr records"
    "mfold load_record \<lparr>ls_rows = [], ls_lba = None, ls_unsupported = [], ls_seen = {}\<rparr> (enumerate 0 records) = Inr l"
    "ls_rows l \<noteq> []" "mmap (place_row (cm_lba_bytes meta)) (sort_key row_key (ls_rows l)) = Inr rows" by blast
  have "rows = map (\<lambda>r. \<lparr>fr_ts = nr_ts r, fr_op = nr_op r, fr_offset = nr_slba r * cm_lba_bytes meta, fr_length = nr_length r\<rparr>) rs"
    if "list_all2 (\<lambda>r f. place_row (cm_lba_bytes meta) r = Inr f) rs rows" for rs
    using that by (induction rule: list_all2_induct) (auto simp: place_row_def Let_def rbind_Inr_iff require_Inr_iff)
  with * that show ?thesis by (simp add: mmap_Inr_iff)
qed

lemma reader_lists_agree:
  assumes "load_capture decode file_lines req drops unsup legacy = Inr (rows, meta)"
    and "load_stream decode file_lines legacy' = Inr s"
  shows "normalized_commands s (cm_lba_bytes meta) = normalize_rows rows \<longleftrightarrow>
    (\<forall>r\<in>set rows. fr_op r = ''datasync'' \<longrightarrow> fr_offset r = 0)"
proof -
  let ?lba = "cm_lba_bytes meta"
  obtain records l where l: "load_records decode file_lines = Inr records"
    "mfold load_record \<lparr>ls_rows = [], ls_lba = None, ls_unsupported = [], ls_seen = {}\<rparr> (enumerate 0 records) = Inr l"
    "ls_rows l \<noteq> []"
    "rows = map (\<lambda>r. \<lparr>fr_ts = nr_ts r, fr_op = nr_op r, fr_offset = nr_slba r * ?lba, fr_length = nr_length r\<rparr>)
       (sort_key row_key (ls_rows l))"
    by (rule rows_of_load [OF assms(1)])
  obtain records' env t pairing paired where t: "load_records decode file_lines = Inr records'" "validate_envelope records' legacy' = Inr env"
    "mfold stream_record \<lparr>ss_commands = [], ss_events = [], ss_lba = None, ss_seen = {}\<rparr> (enumerate 0 records') = Inr t"
    "pair_completions (ss_events t) (ss_commands t) = (pairing, paired)"
    "s = \<lparr>st_commands = sort_key cmd_key paired, st_latencies_us = command_latencies (sort_key cmd_key paired), st_lba_bytes = ss_lba t,
      st_drops = env_drops env, st_scope = env_scope env, st_pairing = pairing\<rparr>"
    by (rule load_stream_Inr [OF assms(2)])
  have "records' = records" using l(1) t(1) by simp
  then have "same_stream l t"
    using mfold_both [OF l(2), of stream_record "\<lparr>ss_commands = [], ss_events = [], ss_lba = None, ss_seen = {}\<rparr>" t same_stream] t(3) same_record
    by (simp add: same_stream_def [of "\<lparr>ls_rows = [], ls_lba = None, ls_unsupported = [], ls_seen = {}\<rparr>"])
  then have "map row_seen (ls_rows l) = map command_seen paired"
    using pair_completions_seen [OF t(4)] by (simp add: same_stream_def)
  then have seen: "map row_seen (sort_key row_key (ls_rows l)) = map command_seen (st_commands s)"
    using t(5) map_sort_key [of row_key fst row_seen "ls_rows l"] map_sort_key [of cmd_key fst command_seen paired]
    by (simp add: row_seen_def command_seen_def)
  define rs cs where "rs = sort_key row_key (ls_rows l)" and "cs = st_commands s"
  have len: "length rs = length cs" using arg_cong [OF seen, of length] by (simp add: rs_def cs_def)
  have at: "row_seen (rs ! i) = command_seen (cs ! i)" if "i < length rs" for i
    using seen that len by (metis nth_map rs_def cs_def)
  have slba: "cc_slba (cs ! i) = (if nr_op (rs ! i) = ''datasync'' then 0 else nr_slba (rs ! i))" if "i < length rs" for i
    using at [OF that] by (simp add: row_seen_def command_seen_def split: if_splits)
  have "rs \<noteq> []" using l(3) by (metis rs_def length_0_conv length_sort)
  then have "0 < length rs" by simp
  then have hd: "nr_ts (hd rs) = cc_ts (hd cs)"
    using at [of 0] len hd_conv_nth [OF \<open>rs \<noteq> []\<close>] hd_conv_nth [of cs] by (auto simp: row_seen_def command_seen_def row_key_def cmd_key_def)
  have rows: "rows = map (\<lambda>r. \<lparr>fr_ts = nr_ts r, fr_op = nr_op r, fr_offset = nr_slba r * ?lba, fr_length = nr_length r\<rparr>) rs"
    using l(4) by (simp add: rs_def)
  have "normalized_commands s ?lba = normalize_rows rows \<longleftrightarrow> (\<forall>i<length rs. cc_slba (cs ! i) * ?lba = nr_slba (rs ! i) * ?lba)"
    unfolding normalized_commands_def normalize_rows_def cs_def [symmetric] Let_def list_eq_iff_nth_eq rows
    using at len hd \<open>rs \<noteq> []\<close>
    by (simp add: nth_enumerate_eq row_seen_def command_seen_def row_key_def cmd_key_def hd_map all_conj_distrib)
  also have "\<dots> \<longleftrightarrow> (\<forall>i<length rs. nr_op (rs ! i) = ''datasync'' \<longrightarrow> nr_slba (rs ! i) * ?lba = 0)"
    using slba by (intro all_cong) auto
  also have "\<dots> \<longleftrightarrow> (\<forall>r\<in>set rows. fr_op r = ''datasync'' \<longrightarrow> fr_offset r = 0)"
    by (auto simp: rows all_set_conv_all_nth)
  finally show ?thesis .
qed

text \<open>
  C22. The converter and the referee read a capture alike. Whenever both accept a file, the commands
  the referee normalizes are those the converter translates and certifies, in the same order with the
  same times, offsets and lengths, exactly if no flush of the capture carries an address.
\<close>

theorem capture_readers_agree:
  assumes "load_capture decode file_lines req drops unsup legacy = Inr (rows, meta)"
    and "load_stream decode file_lines legacy' = Inr s"
  shows "normalized_commands s (cm_lba_bytes meta) = normalize_rows rows \<longleftrightarrow>
    (\<forall>r\<in>set rows. fr_op r = ''datasync'' \<longrightarrow> fr_offset r = 0)"
  by (rule reader_lists_agree [OF assms])

lemma exact_comparison_total:
  assumes "load_stream decode source_lines legacy = Inr source" "load_stream decode replay_lines legacy = Inr replay"
  shows "\<exists>c. exact_comparison source replay lba = Inr c"
proof -
  have "cc_completion c \<noteq> None" if "load_stream decode ls legacy = Inr s" "pr_complete (st_pairing s)" "c \<in> set (st_commands s)" for ls s c
    using load_stream_complete [OF that] by auto
  from this [OF assms(1)] this [OF assms(2)] show ?thesis
    by (simp add: exact_comparison_def Let_def require_def) blast
qed

text \<open>
  C23. The verdict of the referee. Two captures it has loaded can always be compared. The streams are
  reported equal exactly if neither capture lost events and the captures have the same number of
  commands with the same operation, byte offset and length in every place; that is the case of
  equal sequences of operations, of offsets and of lengths. Latencies are compared command by
  command exactly if the streams agree, are not empty, and both captures are completely paired.
\<close>

theorem exact_comparison_verdict:
  assumes "load_stream decode source_lines legacy = Inr source" "load_stream decode replay_lines legacy = Inr replay"
  shows "\<exists>c. exact_comparison source replay lba = Inr c \<and>
    (cr_stream_equal c \<longleftrightarrow> st_drops source = 0 \<and> st_drops replay = 0 \<and> length (st_commands source) = length (st_commands replay) \<and>
       (\<forall>i<length (st_commands source).
          command_tuple lba (st_commands source ! i) = command_tuple lba (st_commands replay ! i))) \<and>
    (cr_tuple_equal c \<longleftrightarrow> cr_operation_equal c \<and> cr_offset_equal c \<and> cr_length_equal c) \<and>
    (cr_latency c \<noteq> None \<longleftrightarrow> cr_tuple_equal c \<and> st_commands source \<noteq> [] \<and> cr_source_pairing c \<and> cr_replay_pairing c)"
proof -
  have paired: "cc_completion c \<noteq> None" if "load_stream decode ls legacy = Inr s" "pr_complete (st_pairing s)" "c \<in> set (st_commands s)" for ls s c
    using load_stream_complete [OF that] by auto
  let ?l = "st_commands source" and ?r = "st_commands replay" and ?t = "command_tuple lba"
  have tuples: "map ?t ?l = map ?t ?r \<longleftrightarrow> length ?l = length ?r \<and> (\<forall>i<length ?l. ?t (?l ! i) = ?t (?r ! i))"
    by (auto simp: list_eq_iff_nth_eq)
  have parts: "map ?t ?l = map ?t ?r \<longleftrightarrow> length ?l = length ?r \<and> map fst (map ?t ?l) = map fst (map ?t ?r) \<and>
      map (fst \<circ> snd) (map ?t ?l) = map (fst \<circ> snd) (map ?t ?r) \<and> map (snd \<circ> snd) (map ?t ?l) = map (snd \<circ> snd) (map ?t ?r)"
    by (auto simp: list_eq_iff_nth_eq prod_eq_iff)
  show ?thesis
    using paired [OF assms(1)] paired [OF assms(2)] tuples parts by (auto simp: exact_comparison_def Let_def require_def)
qed

section \<open>An example\<close>

text \<open>A write and a flush with their completions; the letters stand for the lines of the file.\<close>

definition example_trace :: "int \<Rightarrow> string \<Rightarrow> json option" where
  "example_trace flush_slba = map_of [
     (''m'', JObj [(''event_type'', JStr ''capture_meta''), (''schema_version'', JInt 1), (''emitter'', JStr ''nvme_tp_monitor''),
        (''disk_filter'', JBool True), (''lba_bytes'', JInt 512), (''disk'', JStr ''nvme0n1'')]),
     (''w'', JObj [(''event_type'', JStr ''nvme_cmd''), (''op_name'', JStr ''write''), (''seq'', JInt 0), (''ts'', JInt 100),
        (''slba'', JInt 8), (''bytes'', JInt 1024), (''disk'', JStr ''nvme0n1''), (''nsid'', JInt 1), (''hwq'', JInt 1), (''cid'', JInt 7)]),
     (''c'', JObj [(''event_type'', JStr ''nvme_cmp''), (''ts'', JInt 140), (''lat_ns'', JInt 40), (''hwq'', JInt 1), (''cid'', JInt 7),
        (''status'', JInt 0)]),
     (''f'', JObj [(''event_type'', JStr ''nvme_cmd''), (''op_name'', JStr ''flush''), (''seq'', JInt 1), (''ts'', JInt 2600),
        (''slba'', JInt flush_slba), (''disk'', JStr ''nvme0n1''), (''nsid'', JInt 1), (''hwq'', JInt 1), (''cid'', JInt 7)]),
     (''e'', JObj [(''event_type'', JStr ''nvme_cmp''), (''ts'', JInt 2700), (''lat_ns'', JInt 100), (''hwq'', JInt 1), (''cid'', JInt 7),
        (''status'', JInt 0)]),
     (''d'', JObj [(''event_type'', JStr ''drops''), (''dropped'', JInt 0)])]"

definition example_lines :: "string list" where
  "example_lines = [''m'', ''w'', ''c'', ''f'', ''e'', ''d'']"

definition example_records :: "crecord list" where
  "example_records = map (\<lambda>(n, l). (n, the (example_trace 0 l))) (enumerate 1 example_lines)"

lemma example_records_load: "load_records (example_trace 0) example_lines = Inr example_records"
  by code_simp

lemma example_load: "\<exists>s. load_stream (example_trace 0) example_lines False = Inr s \<and> pr_complete (st_pairing s) \<and>
    length (st_commands s) = 2 \<and> st_drops s = 0"
proof -
  have env: "\<exists>env. validate_envelope example_records False = Inr env \<and> env_drops env = 0"
  proof -
    have "case validate_envelope example_records False of Inr env \<Rightarrow> env_drops env = 0 | _ \<Rightarrow> False" by code_simp
    then show ?thesis by (auto split: sum.splits)
  qed
  have run: "\<exists>st. mfold stream_record \<lparr>ss_commands = [], ss_events = [], ss_lba = None, ss_seen = {}\<rparr> (enumerate 0 example_records) = Inr st \<and>
      pr_complete (fst (pair_completions (ss_events st) (ss_commands st))) \<and> length (snd (pair_completions (ss_events st) (ss_commands st))) = 2"
  proof -
    have "case mfold stream_record \<lparr>ss_commands = [], ss_events = [], ss_lba = None, ss_seen = {}\<rparr> (enumerate 0 example_records) of
        Inr st \<Rightarrow> pr_complete (fst (pair_completions (ss_events st) (ss_commands st))) \<and> length (snd (pair_completions (ss_events st) (ss_commands st))) = 2 | _ \<Rightarrow> False"
      by code_simp
    then show ?thesis by (auto split: sum.splits)
  qed
  obtain e where e: "validate_envelope example_records False = Inr e" "env_drops e = 0" using env by blast
  obtain st where st: "mfold stream_record \<lparr>ss_commands = [], ss_events = [], ss_lba = None, ss_seen = {}\<rparr> (enumerate 0 example_records) = Inr st"
    "pr_complete (fst (pair_completions (ss_events st) (ss_commands st)))" "length (snd (pair_completions (ss_events st) (ss_commands st))) = 2" using run by blast
  obtain p cs where "pair_completions (ss_events st) (ss_commands st) = (p, cs)" by (rule prod.exhaust)
  with e st show ?thesis
    by (simp add: load_stream_def as_comparison_error_def example_records_load Let_def)
qed

theorem load_stream_pairing_witness:
  "\<exists>s. load_stream (example_trace 0) example_lines False = Inr s \<and> pr_complete (st_pairing s) \<and> st_commands s \<noteq> [] \<and>
     (\<forall>c\<in>set (st_commands s). \<exists>p. cc_completion c = Some p \<and> paired_with c p)"
proof -
  obtain s where s: "load_stream (example_trace 0) example_lines False = Inr s" "pr_complete (st_pairing s)" "length (st_commands s) = 2"
    using example_load by blast
  with load_stream_pairing [OF example_records_load s(1)] show ?thesis by auto
qed

theorem capture_readers_agree_witness:
  "\<exists>rows meta s. load_capture (example_trace 0) example_lines None False False False = Inr (rows, meta) \<and>
     load_stream (example_trace 0) example_lines False = Inr s \<and> normalized_commands s (cm_lba_bytes meta) = normalize_rows rows"
proof -
  have "case load_capture (example_trace 0) example_lines None False False False of
      Inr (rows, meta) \<Rightarrow> rows = [\<lparr>fr_ts = 100, fr_op = ''write'', fr_offset = 4096, fr_length = 1024\<rparr>,
        \<lparr>fr_ts = 2600, fr_op = ''datasync'', fr_offset = 0, fr_length = 0\<rparr>] | _ \<Rightarrow> False"
    by code_simp
  then obtain rows meta where load: "load_capture (example_trace 0) example_lines None False False False = Inr (rows, meta)"
    and rows: "rows = [\<lparr>fr_ts = 100, fr_op = ''write'', fr_offset = 4096, fr_length = 1024\<rparr>,
        \<lparr>fr_ts = 2600, fr_op = ''datasync'', fr_offset = 0, fr_length = 0\<rparr>]"
    by (auto split: sum.splits)
  obtain s where s: "load_stream (example_trace 0) example_lines False = Inr s" using example_load by blast
  with capture_readers_agree [OF load s] load rows show ?thesis by auto
qed

theorem exact_comparison_verdict_witness:
  "\<exists>s c. load_stream (example_trace 0) example_lines False = Inr s \<and> exact_comparison s s 512 = Inr c \<and> cr_stream_equal c \<and> cr_latency c \<noteq> None"
proof -
  obtain s where s: "load_stream (example_trace 0) example_lines False = Inr s" "pr_complete (st_pairing s)" "length (st_commands s) = 2" "st_drops s = 0"
    using example_load by blast
  from exact_comparison_verdict [OF s(1) s(1), of 512] obtain c where c: "exact_comparison s s 512 = Inr c"
    "cr_stream_equal c" "cr_latency c \<noteq> None \<longleftrightarrow> cr_tuple_equal c \<and> st_commands s \<noteq> [] \<and> cr_source_pairing c \<and> cr_replay_pairing c"
    using s by auto
  then have "cr_tuple_equal c" "cr_source_pairing c" "cr_replay_pairing c" using s c(1) by (auto simp: exact_comparison_def Let_def rbind_Inr_iff)
  with c s show ?thesis by auto
qed

end
