(* ===== verification/Replay_Bundle.thy ===== *)
theory Replay_Bundle
  imports Stream_Props
begin

text \<open>
  The portable replay bundle: \<open>write_bundle\<close> of \<open>mk_dev_iolog.py\<close>, and \<open>_verify_bundle\<close> and
  \<open>update_runtime_bundle\<close> of \<open>compare_streams.py\<close>.

  A bundle is a directory: its files by name, each with its content and whether it is a regular
  file. The digest \<open>sha\<close>, the encoder \<open>dumps\<close> (sorted keys, indented) and the decoder \<open>loads\<close> of JSON
  documents are parameters. A replacement by \<open>_atomic_write\<close> is one update of the file; its
  failure on an operating-system error is not modelled.
\<close>

section \<open>Files of a bundle\<close>

definition BUNDLE_ARTIFACTS :: "string list" where
  "BUNDLE_ARTIFACTS = [''README.txt'', ''certificate.json'', ''commands.iolog'', ''replay-block.fio'', ''replay-uring-cmd.fio'',
     ''workload.json'']"

record bundle_file =
  bf_regular :: bool
  bf_content :: string

record replay_bundle =
  bd_real_dir :: bool
  bd_files :: "(string \<times> bundle_file) list"

definition regular_file :: "string \<Rightarrow> bundle_file" where
  "regular_file text = \<lparr>bf_regular = True, bf_content = text\<rparr>"

definition file_text :: "replay_bundle \<Rightarrow> string \<Rightarrow> string" where
  "file_text b name = (case map_of (bd_files b) name of Some f \<Rightarrow> bf_content f | None \<Rightarrow> [])"

definition checksum_lines :: "(string \<Rightarrow> string) \<Rightarrow> replay_bundle \<Rightarrow> string list" where
  "checksum_lines sha b = map (\<lambda>name. sha (file_text b name) @ ''  '' @ name) BUNDLE_ARTIFACTS"

definition put_file :: "string \<Rightarrow> string \<Rightarrow> replay_bundle \<Rightarrow> replay_bundle" where
  "put_file name text b = b\<lparr>bd_files := AList.update name (regular_file text) (bd_files b)\<rparr>"

section \<open>Writing a bundle\<close>

definition fio_wrapper :: "string \<Rightarrow> string" where
  "fio_wrapper ioengine = unlines ([''; generated by kvio; set KVIO_TARGET to an empty replay target'', ''[global]'', ''ioengine='' @ ioengine] @
     (if ioengine = ''io_uring_cmd'' then [''cmd_type=nvme''] else []) @
     [''direct=1'', ''iodepth=16'', ''read_iolog=commands.iolog'', ''replay_redirect=${KVIO_TARGET}'', ''group_reporting=1'', [], ''[kvio-replay]''])"

definition bundle_readme :: string where
  "bundle_readme = unlines [''This bundle preserves the captured operation/offset/length sequence and'',
     ''quantizes relative timestamps from nanoseconds to fio microseconds.'',
     ''Set KVIO_TARGET to an empty raw target, then run one replay jobfile.'',
     ''The block job may be merged or split again by Linux. The uring-cmd job'',
     ''targets NVMe passthrough. Re-record either run before claiming that the'',
     ''device received the same stream. Performance equivalence is not claimed.'',
     ''Run `kvio fio-certify .` for an independent Rust validation.'']"

definition command_obj :: "ncommand \<Rightarrow> json" where
  "command_obj c = JObj [(''seq'', JInt (nc_seq c)), (''at_ns'', JInt (nc_at_ns c)), (''op'', JStr (nc_op c)),
     (''offset_bytes'', JInt (nc_offset c)), (''length_bytes'', JInt (nc_length c))]"

definition workload_json :: "ncommand list \<Rightarrow> json" where
  "workload_json commands = JObj [(''schema_version'', JInt 1), (''commands'', JList (map command_obj commands))]"

definition certificate_json :: "certificate \<Rightarrow> json" where
  "certificate_json c = JObj [(''schema_version'', JInt (ct_schema_version c)), (''source'', JStr ''measured NVMe command capture''),
     (''equivalence_level'', JStr (ct_equivalence_level c)), (''source_command_count'', JInt (int (ct_source_count c))),
     (''emitted_command_count'', JInt (int (ct_emitted_count c))),
     (''operation_offset_length_sequence_equal'', JBool (ct_sequence_equal c)), (''source_trace_sha256'', JStr (ct_trace_sha256 c)),
     (''normalized_stream_sha256'', JStr (ct_stream_sha256 c)), (''emitted_iolog_sha256'', JStr (ct_iolog_sha256 c)),
     (''timestamp_input_unit'', JStr ''nanoseconds''), (''timestamp_output_unit'', JStr ''microseconds''),
     (''maximum_timestamp_quantization_error_ns'', JInt (ct_max_error_ns c)), (''lba_bytes'', JInt (ct_lba_bytes c)),
     (''capture_drops'', JInt (ct_drops c)), (''unsupported_commands_omitted'', JInt (int (ct_unsupported c))),
     (''performance_equivalence_claimed'', JBool (ct_performance_claimed c)), (''runtime_device_validation'', ct_runtime c)]"

definition artifacts :: "(json \<Rightarrow> string) \<Rightarrow> string \<Rightarrow> certificate \<Rightarrow> ncommand list \<Rightarrow> replay_bundle" where
  "artifacts dumps iolog cert normalized = \<lparr>bd_real_dir = True, bd_files = [
     (''commands.iolog'', regular_file iolog), (''replay-block.fio'', regular_file (fio_wrapper ''io_uring'')),
     (''replay-uring-cmd.fio'', regular_file (fio_wrapper ''io_uring_cmd'')),
     (''workload.json'', regular_file (dumps (workload_json normalized) @ [newline])),
     (''certificate.json'', regular_file (dumps (certificate_json cert) @ [newline])),
     (''README.txt'', regular_file bundle_readme)]\<rparr>"

definition write_bundle ::
  "(string \<Rightarrow> string) \<Rightarrow> (json \<Rightarrow> string) \<Rightarrow> replay_bundle option \<Rightarrow> string \<Rightarrow> certificate \<Rightarrow> ncommand list \<Rightarrow> replay_bundle result" where
  "write_bundle sha dumps existing iolog cert normalized =
     (if existing \<noteq> None then Inl (OSError 17)
      else let b = artifacts dumps iolog cert normalized in Inr (put_file ''SHA256SUMS'' (unlines (checksum_lines sha b)) b))"

section \<open>Verifying a bundle\<close>

text \<open>\<open>line.split("  ", 1)\<close> with two parts.\<close>

fun split_double :: "string \<Rightarrow> (string \<times> string) option" where
  "split_double (c # d # s) =
     (if c = CHR '' '' \<and> d = CHR '' '' then Some ([], s) else map_option (apfst ((#) c)) (split_double (d # s)))"
| "split_double _ = None"

definition hex_digest :: "string \<Rightarrow> bool" where
  "hex_digest d \<longleftrightarrow> length d = 64 \<and> list_all (\<lambda>c. c \<in> set ''0123456789abcdef'') d"

definition checksum_line :: "(string \<times> string) list \<Rightarrow> string \<Rightarrow> (string \<times> string) list result" where
  "checksum_line checksums line = (case split_double line of
      Some (digest, name) \<Rightarrow>
        rbind (require (hex_digest digest \<and> name \<notin> set (map fst checksums)) (ComparisonError ''runtime bundle has an invalid checksum list'')) (\<lambda>_.
        Inr (checksums @ [(name, digest)]))
    | None \<Rightarrow> Inl (ComparisonError ''runtime bundle has an invalid checksum list''))"

definition load_json :: "(string \<Rightarrow> json option) \<Rightarrow> string \<Rightarrow> json result" where
  "load_json loads text = (case loads text of
      None \<Rightarrow> Inl (ComparisonError ''invalid JSON'')
    | Some value \<Rightarrow>
        rbind (require (unique_keys value) (ComparisonError ''duplicate JSON key'')) (\<lambda>_.
        rbind (require (is_obj value) (ComparisonError ''expected a JSON object'')) (\<lambda>_. Inr value)))"

definition verify_bundle :: "(string \<Rightarrow> string) \<Rightarrow> (string \<Rightarrow> json option) \<Rightarrow> replay_bundle \<Rightarrow> (json \<times> json) result" where
  "verify_bundle sha loads b =
     rbind (require (bd_real_dir b) (ComparisonError ''runtime bundle must be a real directory'')) (\<lambda>_.
     rbind (require (set (map fst (bd_files b)) = insert ''SHA256SUMS'' (set BUNDLE_ARTIFACTS))
        (ComparisonError ''runtime bundle inventory is not schema v1'')) (\<lambda>_.
     rbind (require (\<forall>(name, f)\<in>set (bd_files b). bf_regular f) (ComparisonError ''runtime bundle file is not a regular file'')) (\<lambda>_.
     rbind (mfold checksum_line [] (py_splitlines (file_text b ''SHA256SUMS''))) (\<lambda>checksums.
     rbind (require (set (map fst checksums) = set BUNDLE_ARTIFACTS)
        (ComparisonError ''runtime bundle checksum inventory is incomplete'')) (\<lambda>_.
     rbind (mforall (\<lambda>(name, digest). require (sha (file_text b name) = digest) (ComparisonError ''runtime bundle checksum failed''))
        checksums) (\<lambda>_.
     rbind (load_json loads (file_text b ''certificate.json'')) (\<lambda>certificate.
     rbind (load_json loads (file_text b ''workload.json'')) (\<lambda>workload.
     Inr (certificate, workload)))))))))"

section \<open>Recording a replay in the bundle\<close>

definition opt_float :: "rat option \<Rightarrow> json" where
  "opt_float x = (case x of None \<Rightarrow> JNull | Some q \<Rightarrow> JFloat (Finite q))"

definition latency_distribution :: "stream \<Rightarrow> json" where
  "latency_distribution capture =
     (let values = st_latencies_us capture in
      JObj [(''sample_count'', JInt (int (length values))),
        (''p50_us'', opt_float (if values \<noteq> [] then Some (percentile values P50) else None)),
        (''p99_us'', opt_float (if values \<noteq> [] then Some (percentile values P99) else None))])"

definition status_json :: "nat \<Rightarrow> bool \<Rightarrow> json" where
  "status_json errors succeeded = JObj [(''error_count'', JInt (int errors)), (''all_commands_succeeded'', JBool succeeded)]"

definition runtime_json :: "string \<Rightarrow> stream \<Rightarrow> stream \<Rightarrow> comparison \<Rightarrow> json" where
  "runtime_json replay_sha source replay c = JObj [
     (''schema_version'', JInt 1), (''replay_capture_sha256'', JStr replay_sha),
     (''source_command_count'', JInt (int (length (st_commands source)))),
     (''replay_command_count'', JInt (int (length (st_commands replay)))),
     (''source_capture_complete'', JBool (cr_source_complete c)), (''replay_capture_complete'', JBool (cr_replay_complete c)),
     (''command_count_equal'', JBool (cr_count_equal c)), (''operation_sequence_equal'', JBool (cr_operation_equal c)),
     (''offset_sequence_equal'', JBool (cr_offset_equal c)), (''length_sequence_equal'', JBool (cr_length_equal c)),
     (''tuple_sequence_equal'', JBool (cr_tuple_equal c)), (''device_stream_equal'', JBool (cr_stream_equal c)),
     (''timing_error_us'', JObj [(''p50'', opt_float (map_option es_p50 (cr_timing c))), (''p99'', opt_float (map_option es_p99 (cr_timing c))),
        (''max'', opt_float (map_option es_max (cr_timing c)))]),
     (''completion_latency_us'', JObj [(''source'', latency_distribution source), (''replay'', latency_distribution replay)]),
     (''completion_status'', JObj [(''source'', status_json (cr_source_errors c) (cr_source_succeeded c)),
        (''replay'', status_json (cr_replay_errors c) (cr_replay_succeeded c))]),
     (''completion_pairing'', JObj [(''source_complete'', JBool (cr_source_pairing c)), (''replay_complete'', JBool (cr_replay_pairing c)),
        (''per_command_compared'', JBool (cr_latency c \<noteq> None)),
        (''absolute_error_p50_us'', opt_float (map_option es_p50 (cr_latency c))),
        (''absolute_error_p99_us'', opt_float (map_option es_p99 (cr_latency c))),
        (''absolute_error_max_us'', opt_float (map_option es_max (cr_latency c)))])]"

text \<open>The checks before anything is written, and the two writes, in order.\<close>

definition check_bundle ::
  "(string \<Rightarrow> string) \<Rightarrow> (string \<Rightarrow> json option) \<Rightarrow> replay_bundle \<Rightarrow> string \<Rightarrow> stream \<Rightarrow> int \<Rightarrow> json result" where
  "check_bundle sha loads b source_sha source lba_bytes =
     rbind (verify_bundle sha loads b) (\<lambda>(certificate, workload).
     rbind (require (py_eq (fld certificate ''schema_version'') (JInt 1)) (ComparisonError ''runtime bundle has an unsupported certificate'')) (\<lambda>_.
     rbind (require (fld certificate ''source_trace_sha256'' = JStr source_sha)
        (ComparisonError ''source capture does not match the runtime bundle'')) (\<lambda>_.
     rbind (require (py_eq (fld certificate ''lba_bytes'') (JInt lba_bytes))
        (ComparisonError ''comparison LBA size does not match the runtime bundle'')) (\<lambda>_.
     rbind (require (py_eq workload (workload_json (normalized_commands source lba_bytes)))
        (ComparisonError ''source capture does not match the normalized workload'')) (\<lambda>_.
     Inr certificate)))))"

definition write_certificate :: "(json \<Rightarrow> string) \<Rightarrow> json \<Rightarrow> replay_bundle \<Rightarrow> replay_bundle" where
  "write_certificate dumps certificate b = put_file ''certificate.json'' (dumps certificate @ [newline]) b"

definition write_checksums :: "(string \<Rightarrow> string) \<Rightarrow> replay_bundle \<Rightarrow> replay_bundle" where
  "write_checksums sha b = put_file ''SHA256SUMS'' (unlines (checksum_lines sha b)) b"

definition update_runtime_bundle ::
  "(string \<Rightarrow> string) \<Rightarrow> (string \<Rightarrow> json option) \<Rightarrow> (json \<Rightarrow> string) \<Rightarrow> replay_bundle \<Rightarrow> string \<Rightarrow> string \<Rightarrow> stream \<Rightarrow> stream \<Rightarrow>
     comparison \<Rightarrow> int \<Rightarrow> (json \<times> replay_bundle) result" where
  "update_runtime_bundle sha loads dumps b source_sha replay_sha source replay c lba_bytes =
     rbind (check_bundle sha loads b source_sha source lba_bytes) (\<lambda>certificate.
     let runtime = runtime_json replay_sha source replay c;
         certificate = obj_set certificate ''runtime_device_validation'' runtime in
     Inr (runtime, write_checksums sha (write_certificate dumps certificate b)))"

section \<open>A sealed bundle\<close>

text \<open>A bundle with exactly its files, all regular, whose checksum list is the one of its content.\<close>

definition complete_bundle :: "replay_bundle \<Rightarrow> bool" where
  "complete_bundle b \<longleftrightarrow> bd_real_dir b \<and> set (map fst (bd_files b)) = insert ''SHA256SUMS'' (set BUNDLE_ARTIFACTS) \<and>
     (\<forall>(name, f)\<in>set (bd_files b). bf_regular f)"

definition sealed :: "(string \<Rightarrow> string) \<Rightarrow> replay_bundle \<Rightarrow> bool" where
  "sealed sha b \<longleftrightarrow> complete_bundle b \<and> file_text b ''SHA256SUMS'' = unlines (checksum_lines sha b)"

lemma split_double_join: "CHR '' '' \<notin> set d \<Longrightarrow> split_double (d @ CHR '' '' # CHR '' '' # name) = Some (d, name)"
proof (induction d)
  case (Cons c d)
  then show ?case by (cases d) auto
qed simp

lemma hex_no_break: "hex_digest d \<Longrightarrow> c \<in> set d \<Longrightarrow> \<not> py_line_break c \<and> c \<noteq> CHR '' ''"
proof -
  have "list_all (\<lambda>c. \<not> py_line_break c \<and> c \<noteq> CHR '' '') ''0123456789abcdef''" by code_simp
  then have "\<forall>c\<in>set ''0123456789abcdef''. \<not> py_line_break c \<and> c \<noteq> CHR '' ''" unfolding list_all_iff .
  then show "hex_digest d \<Longrightarrow> c \<in> set d \<Longrightarrow> \<not> py_line_break c \<and> c \<noteq> CHR '' ''"
    unfolding hex_digest_def list_all_iff by blast
qed

lemma artifact_no_break: "name \<in> set BUNDLE_ARTIFACTS \<Longrightarrow> c \<in> set name \<Longrightarrow> \<not> py_line_break c"
proof -
  have "list_all (list_all (\<lambda>c. \<not> py_line_break c)) BUNDLE_ARTIFACTS" by code_simp
  then show "name \<in> set BUNDLE_ARTIFACTS \<Longrightarrow> c \<in> set name \<Longrightarrow> \<not> py_line_break c"
    unfolding list_all_iff by blast
qed

lemma checksum_lines_split:
  assumes "\<forall>t. hex_digest (sha t)"
  shows "py_splitlines (unlines (checksum_lines sha b)) = checksum_lines sha b"
proof (rule py_splitlines_unlines)
  show "\<forall>l\<in>set (checksum_lines sha b). \<forall>c\<in>set l. \<not> py_line_break c"
    using hex_no_break [OF assms [rule_format]] artifact_no_break by (auto simp: checksum_lines_def py_line_break_def)
qed

lemma checksum_lines_parse:
  assumes hex: "\<forall>t. hex_digest (sha t)"
  shows "mfold checksum_line [] (checksum_lines sha b) = Inr (map (\<lambda>n. (n, sha (file_text b n))) BUNDLE_ARTIFACTS)"
proof -
  have "mfold checksum_line acc (map (\<lambda>n. sha (file_text b n) @ ''  '' @ n) names) = Inr (acc @ map (\<lambda>n. (n, sha (file_text b n))) names)"
    if "distinct names" "set names \<inter> set (map fst acc) = {}" for names acc
    using that
  proof (induction names arbitrary: acc)
    case (Cons n names)
    have "split_double (sha (file_text b n) @ ''  '' @ n) = Some (sha (file_text b n), n)"
      using split_double_join [of "sha (file_text b n)" n] hex_no_break [OF hex [rule_format], of "CHR '' ''"] by auto
    moreover have "set names \<inter> set (map fst (acc @ [(n, sha (file_text b n))])) = {}" using Cons.prems by auto
    ultimately show ?case using Cons.prems Cons.IH [of "acc @ [(n, sha (file_text b n))]"] hex by (simp add: checksum_line_def)
  qed simp
  from this [of BUNDLE_ARTIFACTS "[]"] show ?thesis unfolding checksum_lines_def by (simp add: BUNDLE_ARTIFACTS_def)
qed

lemma verify_sealed:
  assumes hex: "\<forall>t. hex_digest (sha t)" and b: "sealed sha b"
  shows "verify_bundle sha loads b =
    rbind (load_json loads (file_text b ''certificate.json'')) (\<lambda>certificate.
    rbind (load_json loads (file_text b ''workload.json'')) (\<lambda>workload. Inr (certificate, workload)))"
proof -
  have "mforall (\<lambda>(name, digest). require (sha (file_text b name) = digest) (ComparisonError ''runtime bundle checksum failed''))
      (map (\<lambda>n. (n, sha (file_text b n))) BUNDLE_ARTIFACTS) = Inr ()"
    by (simp add: mforall_Inr_iff)
  with b show ?thesis
    unfolding verify_bundle_def sealed_def complete_bundle_def
    by (simp add: checksum_lines_split [OF hex] checksum_lines_parse [OF hex] image_image)
qed

lemma file_text_put: "file_text (put_file name text b) name' = (if name' = name then text else file_text b name')"
  by (simp add: file_text_def put_file_def regular_file_def update_conv)

lemma update_entries: "set (AList.update k v al) \<subseteq> insert (k, v) (set al)"
  by (induction al) auto

lemma complete_put:
  assumes "complete_bundle b" "name \<in> insert ''SHA256SUMS'' (set BUNDLE_ARTIFACTS)"
  shows "complete_bundle (put_file name text b)"
proof -
  have "\<forall>(n, f)\<in>set (AList.update name (regular_file text) (bd_files b)). bf_regular f"
    using update_entries [of name "regular_file text" "bd_files b"] assms(1) by (auto simp: complete_bundle_def regular_file_def)
  then show ?thesis
    using assms by (auto simp: complete_bundle_def put_file_def dom_update)
qed

lemma artifact_names: "''SHA256SUMS'' \<notin> set BUNDLE_ARTIFACTS" "''certificate.json'' \<in> set BUNDLE_ARTIFACTS" "''workload.json'' \<in> set BUNDLE_ARTIFACTS"
  by (simp_all add: BUNDLE_ARTIFACTS_def)

lemma sealed_checksums:
  assumes "complete_bundle b"
  shows "sealed sha (write_checksums sha b)"
proof -
  have "checksum_lines sha (put_file ''SHA256SUMS'' t b) = checksum_lines sha b" for t
    unfolding checksum_lines_def using artifact_names(1) by (intro map_cong) (auto simp: file_text_put)
  then show ?thesis using complete_put [OF assms] by (simp add: sealed_def write_checksums_def file_text_put)
qed

lemma complete_artifacts: "complete_bundle (put_file ''SHA256SUMS'' text (artifacts dumps iolog cert normalized))"
  by (auto simp: complete_bundle_def put_file_def artifacts_def BUNDLE_ARTIFACTS_def regular_file_def)

lemma write_bundle_sealed:
  assumes "write_bundle sha dumps existing iolog cert normalized = Inr b"
  shows "sealed sha b \<and> file_text b ''certificate.json'' = dumps (certificate_json cert) @ [newline] \<and>
    file_text b ''workload.json'' = dumps (workload_json normalized) @ [newline] \<and> file_text b ''commands.iolog'' = iolog"
proof -
  let ?a = "artifacts dumps iolog cert normalized"
  have b: "b = put_file ''SHA256SUMS'' (unlines (checksum_lines sha ?a)) ?a"
    using assms by (simp add: write_bundle_def Let_def split: if_splits)
  have "checksum_lines sha b = checksum_lines sha ?a"
    unfolding checksum_lines_def b using artifact_names(1) by (intro map_cong) (auto simp: file_text_put)
  then have "sealed sha b"
    using complete_artifacts [of "unlines (checksum_lines sha ?a)" dumps iolog cert normalized] by (simp add: sealed_def b file_text_put)
  moreover have "file_text ?a ''certificate.json'' = dumps (certificate_json cert) @ [newline]"
    "file_text ?a ''workload.json'' = dumps (workload_json normalized) @ [newline]" "file_text ?a ''commands.iolog'' = iolog"
    by (simp_all add: file_text_def artifacts_def regular_file_def)
  ultimately show ?thesis by (simp add: b file_text_put)
qed

text \<open>A document the decoder reads back, up to the order of keys.\<close>

definition encodes :: "(string \<Rightarrow> json option) \<Rightarrow> (json \<Rightarrow> string) \<Rightarrow> json \<Rightarrow> bool" where
  "encodes loads dumps v \<longleftrightarrow> (\<exists>w. loads (dumps v @ [newline]) = Some w \<and> unique_keys w \<and> py_eq v w \<and> py_eq w v)"

lemma encodes_load:
  assumes "encodes loads dumps (JObj kvs)"
  shows "\<exists>w. load_json loads (dumps (JObj kvs) @ [newline]) = Inr w \<and> py_eq (JObj kvs) w \<and> py_eq w (JObj kvs) \<and> is_obj w \<and>
    loads (dumps (JObj kvs) @ [newline]) = Some w"
proof -
  obtain w where w: "loads (dumps (JObj kvs) @ [newline]) = Some w" "unique_keys w" "py_eq (JObj kvs) w" "py_eq w (JObj kvs)"
    using assms unfolding encodes_def by blast
  then have "is_obj w" by (cases w) auto
  with w show ?thesis by (simp add: load_json_def)
qed

lemma py_eq_obj_map_of: "py_eq_obj kvs lvs \<Longrightarrow> (k, v) \<in> set kvs \<Longrightarrow> \<exists>w. map_of lvs k = Some w \<and> py_eq v w"
  by (induction kvs) (auto split: option.splits)

lemma py_eq_fld:
  assumes "py_eq (JObj kvs) w" "(k, v) \<in> set kvs"
  shows "py_eq v (fld w k)"
  using assms by (cases w) (auto simp: fld_def dest!: py_eq_obj_map_of [of kvs _ k v])

lemma py_eq_from_int: "py_eq (JInt i) w \<Longrightarrow> py_eq w (JInt i)"
  by (cases w) (auto simp: num_eq_def)

text \<open>The certificate of a bundle with the result of a replay in it.\<close>

lemma runtime_of_set: "fld (obj_set c ''runtime_device_validation'' r) ''runtime_device_validation'' = r"
  by (simp add: fld_set)

lemma verify_written:
  assumes hex: "\<forall>t. hex_digest (sha t)" and b: "sealed sha b"
    and cert: "file_text b ''certificate.json'' = dumps (JObj c) @ [newline]" "encodes loads dumps (JObj c)"
    and work: "file_text b ''workload.json'' = dumps (JObj w) @ [newline]" "encodes loads dumps (JObj w)"
  shows "\<exists>c' w'. verify_bundle sha loads b = Inr (c', w') \<and> is_obj c' \<and> py_eq (JObj c) c' \<and> py_eq w' (JObj w) \<and>
    loads (dumps (JObj c) @ [newline]) = Some c'"
proof -
  obtain c' where c': "load_json loads (file_text b ''certificate.json'') = Inr c'" "py_eq (JObj c) c'" "is_obj c'" "loads (dumps (JObj c) @ [newline]) = Some c'"
    using encodes_load [OF cert(2)] by (auto simp: cert(1))
  obtain w' where w': "load_json loads (file_text b ''workload.json'') = Inr w'" "py_eq w' (JObj w)"
    using encodes_load [OF work(2)] by (auto simp: work(1))
  show ?thesis using c' w' by (simp add: verify_sealed [OF hex b])
qed

lemma certificate_fields:
  assumes "py_eq (certificate_json cert) c"
  shows "py_eq (fld c ''schema_version'') (JInt (ct_schema_version cert))" "fld c ''source_trace_sha256'' = JStr (ct_trace_sha256 cert)"
    "py_eq (fld c ''lba_bytes'') (JInt (ct_lba_bytes cert))"
proof -
  obtain kvs where kvs: "certificate_json cert = JObj kvs" by (simp add: certificate_json_def)
  have mem: "(''schema_version'', JInt (ct_schema_version cert)) \<in> set kvs" "(''source_trace_sha256'', JStr (ct_trace_sha256 cert)) \<in> set kvs"
    "(''lba_bytes'', JInt (ct_lba_bytes cert)) \<in> set kvs"
    using kvs unfolding certificate_json_def by auto
  note at = py_eq_fld [OF assms [unfolded kvs]]
  show "py_eq (fld c ''schema_version'') (JInt (ct_schema_version cert))" by (rule py_eq_from_int [OF at [OF mem(1)]])
  show "py_eq (fld c ''lba_bytes'') (JInt (ct_lba_bytes cert))" by (rule py_eq_from_int [OF at [OF mem(3)]])
  show "fld c ''source_trace_sha256'' = JStr (ct_trace_sha256 cert)" using at [OF mem(2)] by simp
qed

lemma mforall_only_error:
  assumes "\<exists>x\<in>set xs. f x \<noteq> Inr ()" "\<And>x. f x \<in> {Inr (), Inl e}"
  shows "mforall f xs = Inl e"
  using assms(1) unfolding mforall_def
proof (induction xs)
  case (Cons x xs)
  show ?case
  proof (cases "f x = Inr ()")
    case True
    then have "\<exists>y\<in>set xs. f y \<noteq> Inr ()" using Cons.prems by auto
    with Cons.IH True show ?thesis by simp
  next
    case False
    then show ?thesis using assms(2) [of x] by simp
  qed
qed simp

lemma certified_translation:
  assumes rows: "rows_ok lba rows" and written: "is_word is_space filename" "emit_iolog rows filename = Inr iolog"
      "translation_certificate sha trace_sha rows iolog meta = Inr (cert, normalized)"
  shows "\<forall>r\<in>set rows. fr_op r = ''datasync'' \<longrightarrow> fr_offset r = 0" "normalized = normalize_rows rows"
    "ct_schema_version cert = 1" "ct_trace_sha256 cert = trace_sha" "ct_lba_bytes cert = cm_lba_bytes meta" "ct_runtime cert = JNull"
proof -
  have iolog: "iolog = unlines (iolog_lines rows filename)"
    using written(2) rows by (simp add: emit_iolog_def rows_ok_def)
  obtain cert0 where tc: "translation_certificate sha trace_sha rows iolog meta =
      (if \<forall>r\<in>set rows. fr_op r = ''datasync'' \<longrightarrow> fr_offset r = 0 then Inr (cert0, normalize_rows rows)
       else Inl (CaptureError ''internal translation validation failed''))"
    using certificate_of_emitted [OF rows written(1), of sha trace_sha meta] unfolding iolog by blast
  show "\<forall>r\<in>set rows. fr_op r = ''datasync'' \<longrightarrow> fr_offset r = 0" "normalized = normalize_rows rows"
    using tc written(3) by (simp_all split: if_splits)
  show "ct_schema_version cert = 1" "ct_trace_sha256 cert = trace_sha" "ct_lba_bytes cert = cm_lba_bytes meta" "ct_runtime cert = JNull"
    using written(3) by (auto simp: translation_certificate_def Let_def rbind_Inr_iff require_Inr_iff split: if_splits)
qed

section \<open>Properties\<close>

text \<open>
  C24. A bundle accepts the capture it was made from. Take a capture both tools read, translate it
  for a target whose name is one word, write the bundle, and compare any loaded replay with it: the
  result can be recorded in the bundle, and the bundle then still verifies, with the result of the
  comparison in its certificate. (The digest yields 64 hexadecimal digits, and the three documents
  decode to equal documents.)
\<close>

theorem bundle_records_replay:
  assumes capture: "load_capture decode file_lines req drops unsup legacy = Inr (rows, meta)"
      "load_stream decode file_lines legacy' = Inr source"
    and written: "is_word is_space filename" "emit_iolog rows filename = Inr iolog"
      "translation_certificate sha trace_sha rows iolog meta = Inr (cert, normalized)"
      "write_bundle sha dumps existing iolog cert normalized = Inr b"
    and hex: "\<forall>t. hex_digest (sha t)"
    and json: "encodes loads dumps (certificate_json cert)" "encodes loads dumps (workload_json normalized)"
      "\<And>c. loads (dumps (certificate_json cert) @ [newline]) = Some c \<Longrightarrow>
         encodes loads dumps (obj_set c ''runtime_device_validation'' (runtime_json replay_sha source replay comparison))"
  shows "\<exists>b' c' w'. update_runtime_bundle sha loads dumps b trace_sha replay_sha source replay comparison (cm_lba_bytes meta) =
      Inr (runtime_json replay_sha source replay comparison, b') \<and>
    verify_bundle sha loads b' = Inr (c', w') \<and>
    py_eq (runtime_json replay_sha source replay comparison) (fld c' ''runtime_device_validation'') \<and>
    file_text b' ''commands.iolog'' = iolog"
proof -
  let ?r = "runtime_json replay_sha source replay comparison"
  note cert = certified_translation [OF load_capture_rows [OF capture(1)] written(1-3)]
  have agree: "normalized_commands source (cm_lba_bytes meta) = normalized"
    using reader_lists_agree [OF capture] cert(1,2) by simp
  note b = write_bundle_sealed [OF written(4)]
  obtain ck wk where ck: "certificate_json cert = JObj ck" and wk: "workload_json normalized = JObj wk"
    by (simp add: certificate_json_def workload_json_def)
  obtain c w where v: "verify_bundle sha loads b = Inr (c, w)" "is_obj c" "py_eq (JObj ck) c" "py_eq w (JObj wk)"
    "loads (dumps (JObj ck) @ [newline]) = Some c"
    using verify_written [OF hex, of b dumps ck loads wk] b json(1,2) ck wk by auto
  let ?c = "obj_set c ''runtime_device_validation'' ?r"
  let ?b = "write_checksums sha (write_certificate dumps ?c b)"
  have "check_bundle sha loads b trace_sha source (cm_lba_bytes meta) = Inr c"
    using v certificate_fields [of cert c] cert ck wk agree by (simp add: check_bundle_def)
  then have upd: "update_runtime_bundle sha loads dumps b trace_sha replay_sha source replay comparison (cm_lba_bytes meta) = Inr (?r, ?b)"
    by (simp add: update_runtime_bundle_def Let_def)
  have sealed: "sealed sha ?b"
    using b artifact_names by (intro sealed_checksums) (simp add: write_certificate_def sealed_def complete_put)
  define ks where "ks = AList.update ''runtime_device_validation'' ?r (the_obj c)"
  have c: "?c = JObj ks" by (simp add: obj_set_def ks_def)
  have texts: "file_text ?b ''certificate.json'' = dumps (JObj ks) @ [newline]" "file_text ?b ''workload.json'' = dumps (JObj wk) @ [newline]"
    "file_text ?b ''commands.iolog'' = iolog"
    using b wk c by (simp_all add: write_checksums_def write_certificate_def file_text_put)
  have enc: "encodes loads dumps (JObj ks)" "encodes loads dumps (JObj wk)" using json(2) json(3) [OF v(5) [folded ck]] wk c by simp_all
  obtain c' w' where v': "verify_bundle sha loads ?b = Inr (c', w')" "py_eq (JObj ks) c'"
    using verify_written [OF hex sealed texts(1) enc(1) texts(2) enc(2)] by auto
  have "(''runtime_device_validation'', ?r) \<in> set ks" unfolding ks_def by (rule map_of_SomeD) (simp add: update_conv)
  then have "py_eq ?r (fld c' ''runtime_device_validation'')" by (rule py_eq_fld [OF v'(2)])
  then show ?thesis using upd v' texts(3) by auto
qed


section \<open>An example\<close>

text \<open>A digest, an encoder and a decoder that tell the three documents of the example apart.\<close>

definition example_sha :: "string \<Rightarrow> string" where
  "example_sha t = replicate 63 (CHR ''0'') @ (if t = ''r'' @ [newline] then ''1'' else ''0'')"

definition example_dumps :: "json \<Rightarrow> string" where
  "example_dumps v = (if has_key v ''commands'' then ''w'' else if fld v ''runtime_device_validation'' = JNull then ''c'' else ''r'')"

definition example_loads :: "json \<Rightarrow> json \<Rightarrow> json \<Rightarrow> string \<Rightarrow> json option" where
  "example_loads c w r t = map_of [(''c'' @ [newline], c), (''w'' @ [newline], w), (''r'' @ [newline], r)] t"

lemma example_sha_hex: "\<forall>t. hex_digest (example_sha t)"
  by (simp add: example_sha_def hex_digest_def list_all_iff)

lemma runtime_json_ok: "json_wf (runtime_json h s r c) \<and> no_nan (runtime_json h s r c)"
  by (simp add: runtime_json_def latency_distribution_def status_json_def opt_float_def Let_def split: option.split)

lemma certificate_json_ok: "json_wf (ct_runtime c) \<Longrightarrow> no_nan (ct_runtime c) \<Longrightarrow> json_wf (certificate_json c) \<and> no_nan (certificate_json c)"
  by (simp add: certificate_json_def)

lemma workload_json_ok: "json_wf (workload_json cs) \<and> no_nan (workload_json cs)"
  by (auto simp: workload_json_def command_obj_def)

lemma unique_keys_wf: "json_wf v \<Longrightarrow> unique_keys v"
  by (induction v) auto

lemma certificate_with_runtime: "obj_set (certificate_json c) ''runtime_device_validation'' r = certificate_json (c\<lparr>ct_runtime := r\<rparr>)"
  by (simp add: obj_set_def certificate_json_def)

lemma example_dumps_simps:
  "example_dumps (workload_json cs) = ''w''"
  "example_dumps (certificate_json c) = (if ct_runtime c = JNull then ''c'' else ''r'')"
  by (simp_all add: example_dumps_def workload_json_def certificate_json_def has_key_def fld_def)

lemma encodes_self: "json_wf v \<Longrightarrow> no_nan v \<Longrightarrow> loads (dumps v @ [newline]) = Some v \<Longrightarrow> encodes loads dumps v"
  by (simp add: encodes_def unique_keys_wf py_eq_refl)

lemma example_translation:
  obtains rows meta source comparison iolog cert where
    "load_capture (example_trace 0) example_lines None False False False = Inr (rows, meta)"
    "load_stream (example_trace 0) example_lines False = Inr source" "exact_comparison source source (cm_lba_bytes meta) = Inr comparison"
    "is_word is_space ''/dev/x''" "emit_iolog rows ''/dev/x'' = Inr iolog"
    "translation_certificate example_sha ''trace'' rows iolog meta = Inr (cert, normalize_rows rows)" "ct_runtime cert = JNull"
proof -
  have "case load_capture (example_trace 0) example_lines None False False False of
      Inr (rows, meta) \<Rightarrow> \<forall>r\<in>set rows. fr_op r = ''datasync'' \<longrightarrow> fr_offset r = 0 | _ \<Rightarrow> False"
    by code_simp
  then obtain rows meta where load: "load_capture (example_trace 0) example_lines None False False False = Inr (rows, meta)"
    and flush: "\<forall>r\<in>set rows. fr_op r = ''datasync'' \<longrightarrow> fr_offset r = 0"
    by (cases "load_capture (example_trace 0) example_lines None False False False") auto
  have word: "is_word is_space ''/dev/x''" by code_simp
  obtain source where source: "load_stream (example_trace 0) example_lines False = Inr source" using example_load by blast
  obtain comparison where comparison: "exact_comparison source source (cm_lba_bytes meta) = Inr comparison"
    using exact_comparison_total [OF source source] by blast
  have rows: "rows_ok (cm_lba_bytes meta) rows" by (rule load_capture_rows [OF load])
  then have emit: "emit_iolog rows ''/dev/x'' = Inr (unlines (iolog_lines rows ''/dev/x''))" by (simp add: emit_iolog_def rows_ok_def)
  obtain cert where cert: "translation_certificate example_sha ''trace'' rows (unlines (iolog_lines rows ''/dev/x'')) meta = Inr (cert, normalize_rows rows)"
    "ct_runtime cert = JNull"
    using certificate_of_emitted [OF rows word, of example_sha "''trace''" meta] flush by auto
  show ?thesis by (rule that [OF load source comparison word emit cert])
qed

theorem bundle_records_replay_witness:
  "\<exists>rows meta source comparison iolog cert b b' c w.
     load_capture (example_trace 0) example_lines None False False False = Inr (rows, meta) \<and>
     load_stream (example_trace 0) example_lines False = Inr source \<and>
     exact_comparison source source (cm_lba_bytes meta) = Inr comparison \<and>
     write_bundle example_sha example_dumps None iolog cert (normalize_rows rows) = Inr b \<and>
     update_runtime_bundle example_sha
       (example_loads (certificate_json cert) (workload_json (normalize_rows rows))
         (certificate_json (cert\<lparr>ct_runtime := runtime_json ''replay'' source source comparison\<rparr>)))
       example_dumps b ''trace'' ''replay'' source source comparison (cm_lba_bytes meta) =
       Inr (runtime_json ''replay'' source source comparison, b') \<and>
     verify_bundle example_sha
       (example_loads (certificate_json cert) (workload_json (normalize_rows rows))
         (certificate_json (cert\<lparr>ct_runtime := runtime_json ''replay'' source source comparison\<rparr>))) b' = Inr (c, w)"
proof -
  obtain rows meta source comparison iolog cert where ex:
    "load_capture (example_trace 0) example_lines None False False False = Inr (rows, meta)"
    "load_stream (example_trace 0) example_lines False = Inr source" "exact_comparison source source (cm_lba_bytes meta) = Inr comparison"
    "is_word is_space ''/dev/x''" "emit_iolog rows ''/dev/x'' = Inr iolog"
    "translation_certificate example_sha ''trace'' rows iolog meta = Inr (cert, normalize_rows rows)" "ct_runtime cert = JNull"
    by (rule example_translation)
  let ?r = "runtime_json ''replay'' source source comparison" and ?w = "workload_json (normalize_rows rows)"
  let ?loads = "example_loads (certificate_json cert) ?w (certificate_json (cert\<lparr>ct_runtime := ?r\<rparr>))"
  obtain b where b: "write_bundle example_sha example_dumps None iolog cert (normalize_rows rows) = Inr b"
    by (simp add: write_bundle_def Let_def)
  have r: "?r \<noteq> JNull" by (simp add: runtime_json_def)
  have c: "encodes ?loads example_dumps (certificate_json cert)"
    using certificate_json_ok [of cert] ex(7) by (intro encodes_self) (simp_all add: example_dumps_simps example_loads_def)
  have w: "encodes ?loads example_dumps ?w"
    using workload_json_ok by (intro encodes_self) (simp_all add: example_dumps_simps example_loads_def)
  have upd: "encodes ?loads example_dumps (certificate_json (cert\<lparr>ct_runtime := ?r\<rparr>))"
    using certificate_json_ok [of "cert\<lparr>ct_runtime := ?r\<rparr>"] runtime_json_ok r
    by (intro encodes_self) (simp_all add: example_dumps_simps example_loads_def)
  have "encodes ?loads example_dumps (obj_set c ''runtime_device_validation'' ?r)"
    if "?loads (example_dumps (certificate_json cert) @ [newline]) = Some c" for c
  proof -
    have "c = certificate_json cert" using that ex(7) by (simp add: example_dumps_simps example_loads_def)
    with upd show ?thesis by (simp add: certificate_with_runtime)
  qed
  from bundle_records_replay [OF ex(1,2,4,5,6) b example_sha_hex c w this] obtain b' c' w' where
    "update_runtime_bundle example_sha ?loads example_dumps b ''trace'' ''replay'' source source comparison (cm_lba_bytes meta) = Inr (?r, b')"
    "verify_bundle example_sha ?loads b' = Inr (c', w')" by blast
  with ex(1-3) b show ?thesis by blast
qed


end
