(* ===== verification/Capture_Recorder.thy ===== *)
theory Capture_Recorder
  imports Kvio_Json "HOL-Library.Char_ord" "HOL-Library.List_Lexorder"
begin

text \<open>
  The event recorder of \<open>capture_events.py\<close>: engine threads hand records to a bounded queue and never
  wait, a writer thread drains the queue into a file, and \<open>close\<close> ends the capture.

  The state holds what the threads share. A record on its way into the queue is pending in one of
  three places of \<open>_put\<close>, so that the steps of several engine threads, of the writer and of the
  closing thread interleave as they do in the source: before its sequence number is taken, with a
  number but before \<open>_closed\<close> is tested (\<open>begin\<close> takes the number first), and ready for the queue.
  Each change of a counter is one step. Whether a record can be written is the parameter \<open>writable\<close>
  (the file system and \<open>json.dumps\<close> decide it); times are arguments, the readings of the clock.
  \<open>rc_log\<close> is a history variable: every record that took a number, in the order of the numbers.
\<close>

section \<open>State\<close>

datatype pending = Unnumbered json | Numbered json | Ready json

record recorder =
  rc_enabled :: bool
  rc_producer :: string
  rc_capacity :: int
  rc_queue :: "json option list"
  rc_pending :: "pending list"
  rc_seq :: int
  rc_emitted :: nat
  rc_dropped :: nat
  rc_errors :: nat
  rc_open :: "string list"
  rc_closed :: bool
  rc_sentinel :: bool
  rc_written :: "json list"
  rc_writing :: bool
  rc_log :: "json list"

definition CAPTURE_EVENTS_SCHEMA :: string where "CAPTURE_EVENTS_SCHEMA = ''kvio.capture-events.v1''"

text \<open>\<open>queue.Queue(maxsize)\<close>: a capacity that is not positive is no bound.\<close>

definition queue_full :: "recorder \<Rightarrow> bool" where
  "queue_full r \<longleftrightarrow> 0 < rc_capacity r \<and> rc_capacity r \<le> int (length (rc_queue r))"

section \<open>Putting a record on the queue\<close>

definition take_number :: "recorder \<Rightarrow> json \<Rightarrow> recorder \<times> json" where
  "take_number r record =
     (let record = obj_set record ''producer_seq'' (JInt (rc_seq r + 1)) in
      (r\<lparr>rc_seq := rc_seq r + 1, rc_log := rc_log r @ [record]\<rparr>, record))"

definition enqueue :: "recorder \<Rightarrow> json \<Rightarrow> recorder" where
  "enqueue r record =
     (if queue_full r then r\<lparr>rc_dropped := rc_dropped r + 1\<rparr>
      else r\<lparr>rc_queue := rc_queue r @ [Some record], rc_emitted := rc_emitted r + 1\<rparr>)"

text \<open>The whole of \<open>_put\<close> when no other thread interferes.\<close>

definition put_record :: "recorder \<Rightarrow> json \<Rightarrow> recorder" where
  "put_record r record =
     (if \<not> rc_enabled r \<or> rc_closed r then r
      else if has_key record ''producer_seq'' then enqueue r record
      else (case take_number r record of (r, record) \<Rightarrow> enqueue r record))"

section \<open>Records\<close>

definition start_record :: "recorder \<Rightarrow> json \<Rightarrow> json \<Rightarrow> string \<Rightarrow> int \<Rightarrow> json" where
  "start_record r engine adapter run_id ts = JObj [(''ev'', JStr ''start''), (''schema'', JStr CAPTURE_EVENTS_SCHEMA),
     (''run_id'', JStr run_id), (''clock'', JObj [(''domain'', JStr ''CLOCK_MONOTONIC''), (''unit'', JStr ''ns'')]),
     (''engine'', engine), (''adapter'', adapter), (''producer'', JStr (rc_producer r)), (''ts_ns'', JInt ts)]"

record live_item =
  li_object_id :: json
  li_version :: json
  li_representation :: json
  li_bytes :: json
  li_tier :: json

definition object_state_record :: "live_item list \<Rightarrow> int \<Rightarrow> json" where
  "object_state_record live ts = JObj [(''ev'', JStr ''object_state''), (''ts_ns'', JInt ts),
     (''live'', JList (map (\<lambda>i. JObj [(''object_id'', li_object_id i), (''version'', li_version i),
        (''representation'', li_representation i), (''bytes'', li_bytes i), (''tier'', li_tier i)]) live))]"

record begin_args =
  ba_op :: json
  ba_object_id :: json
  ba_version :: json
  ba_representation :: json
  ba_stream :: json
  ba_batch_id :: json
  ba_range :: json
  ba_requested_bytes :: json
  ba_deps :: "json list"
  ba_items :: "json list option"
  ba_op_id :: "string option"

definition begin_id :: "recorder \<Rightarrow> begin_args \<Rightarrow> string" where
  "begin_id r a = (if ba_op_id a \<noteq> None \<and> ba_op_id a \<noteq> Some [] then the (ba_op_id a)
     else rc_producer r @ ''-'' @ str_int (rc_seq r + 1))"

definition begin_record :: "recorder \<Rightarrow> begin_args \<Rightarrow> int \<Rightarrow> json" where
  "begin_record r a ts = JObj ([(''ev'', JStr ''op_begin''), (''op_id'', JStr (begin_id r a)), (''ts_ns'', JInt ts), (''op'', ba_op a),
     (''stream'', ba_stream a), (''batch_id'', ba_batch_id a), (''deps'', JList (ba_deps a)), (''producer_seq'', JInt (rc_seq r + 1))] @
     (case ba_items a of
        Some items \<Rightarrow> [(''items'', JList items)]
      | None \<Rightarrow> [(''object_id'', ba_object_id a), (''version'', ba_version a), (''representation'', ba_representation a),
          (''range'', ba_range a), (''requested_bytes'', ba_requested_bytes a)]))"

record end_args =
  ea_op_id :: string
  ea_outcome :: json
  ea_completed_bytes :: json
  ea_items :: "json list option"

definition end_record :: "end_args \<Rightarrow> int \<Rightarrow> json" where
  "end_record a ts = JObj ([(''ev'', JStr ''op_end''), (''op_id'', JStr (ea_op_id a)), (''ts_ns'', JInt ts)] @
     (case ea_items a of
        Some items \<Rightarrow> [(''items'', JList items)]
      | None \<Rightarrow> [(''outcome'', ea_outcome a), (''completed_bytes'', ea_completed_bytes a)]))"

definition marker_record :: "string \<Rightarrow> fields \<Rightarrow> int \<Rightarrow> json" where
  "marker_record name extra ts =
     foldl (\<lambda>d (k, v). obj_set d k v) (JObj [(''ev'', JStr ''marker''), (''name'', JStr name), (''ts_ns'', JInt ts)]) extra"

definition health :: "recorder \<Rightarrow> json" where
  "health r = JObj [(''emitted'', JInt (int (rc_emitted r))), (''dropped'', JInt (int (rc_dropped r))),
     (''errors'', JInt (int (rc_errors r))), (''open_operations'', JList (map JStr (sort (rc_open r)))),
     (''queue_capacity'', JInt (rc_capacity r))]"

definition close_record :: "recorder \<Rightarrow> int \<Rightarrow> json" where
  "close_record r ts = JObj [(''ev'', JStr ''end''), (''ts_ns'', JInt ts), (''health'', health r)]"

section \<open>Operations\<close>

definition new_recorder :: "bool \<Rightarrow> string \<Rightarrow> int \<Rightarrow> json \<Rightarrow> json \<Rightarrow> string \<Rightarrow> int \<Rightarrow> recorder" where
  "new_recorder enabled producer capacity engine adapter run_id ts =
     (let r = \<lparr>rc_enabled = enabled, rc_producer = producer, rc_capacity = capacity, rc_queue = [], rc_pending = [], rc_seq = 0,
        rc_emitted = 0, rc_dropped = 0, rc_errors = 0, rc_open = [], rc_closed = False, rc_sentinel = False, rc_written = [],
        rc_writing = enabled, rc_log = []\<rparr> in
      put_record r (start_record r engine adapter run_id ts))"

definition submit :: "recorder \<Rightarrow> json \<Rightarrow> recorder" where
  "submit r record = (if \<not> rc_enabled r \<or> rc_closed r then r
     else r\<lparr>rc_pending := rc_pending r @ [if has_key record ''producer_seq'' then Ready record else Unnumbered record]\<rparr>)"

definition rec_object_state :: "live_item list \<Rightarrow> int \<Rightarrow> recorder \<Rightarrow> recorder" where
  "rec_object_state live ts r = submit r (object_state_record live ts)"

definition rec_begin :: "begin_args \<Rightarrow> int \<Rightarrow> recorder \<Rightarrow> recorder \<times> string" where
  "rec_begin a ts r =
     (if \<not> rc_enabled r then
        (if ba_op_id a \<noteq> None \<and> ba_op_id a \<noteq> Some [] then (r, the (ba_op_id a))
         else (r\<lparr>rc_seq := rc_seq r + 1\<rparr>, ''disabled-'' @ str_int (rc_seq r + 1)))
      else (r\<lparr>rc_seq := rc_seq r + 1, rc_open := List.insert (begin_id r a) (rc_open r),
             rc_pending := rc_pending r @ [Numbered (begin_record r a ts)], rc_log := rc_log r @ [begin_record r a ts]\<rparr>, begin_id r a))"

definition rec_end :: "end_args \<Rightarrow> int \<Rightarrow> recorder \<Rightarrow> recorder" where
  "rec_end a ts r = (if \<not> rc_enabled r then r
     else submit (r\<lparr>rc_open := removeAll (ea_op_id a) (rc_open r)\<rparr>) (end_record a ts))"

definition rec_marker :: "string \<Rightarrow> fields \<Rightarrow> int \<Rightarrow> recorder \<Rightarrow> recorder" where
  "rec_marker name extra ts r = submit r (marker_record name extra ts)"

text \<open>One pending record moves on by one step of \<open>_put\<close>.\<close>

definition advance :: "nat \<Rightarrow> recorder \<Rightarrow> recorder" where
  "advance i r =
     (if length (rc_pending r) \<le> i then r
      else let drop_it = r\<lparr>rc_pending := take i (rc_pending r) @ drop (i + 1) (rc_pending r)\<rparr> in
      case rc_pending r ! i of
        Unnumbered record \<Rightarrow> (case take_number r record of (r', record') \<Rightarrow> r'\<lparr>rc_pending := (rc_pending r)[i := Ready record']\<rparr>)
      | Numbered record \<Rightarrow> if rc_closed r then drop_it else r\<lparr>rc_pending := (rc_pending r)[i := Ready record]\<rparr>
      | Ready record \<Rightarrow> enqueue drop_it record)"

definition close_mark :: "int \<Rightarrow> recorder \<Rightarrow> recorder" where
  "close_mark ts r = (if \<not> rc_enabled r \<or> rc_closed r then r
     else (put_record r (close_record r ts))\<lparr>rc_closed := True\<rparr>)"

text \<open>\<open>self._q.put(None)\<close> waits for room.\<close>

definition put_sentinel :: "recorder \<Rightarrow> recorder" where
  "put_sentinel r = r\<lparr>rc_queue := rc_queue r @ [None], rc_sentinel := True\<rparr>"

definition drain :: "(json \<Rightarrow> bool) \<Rightarrow> recorder \<Rightarrow> recorder" where
  "drain writable r = (case rc_queue r of
      [] \<Rightarrow> r
    | None # q \<Rightarrow> r\<lparr>rc_queue := q, rc_writing := False\<rparr>
    | Some record # q \<Rightarrow>
        if writable record then r\<lparr>rc_queue := q, rc_written := rc_written r @ [record]\<rparr>
        else r\<lparr>rc_queue := q, rc_errors := rc_errors r + 1\<rparr>)"

text \<open>
  The steps of the threads. An adapter's markers carry fields of their own, none of the recorder's.
  The first group is what the writer and the closing thread do on their own once the capture is
  closed; the second is what engine threads add at any time.
\<close>

inductive closing_step :: "(json \<Rightarrow> bool) \<Rightarrow> recorder \<Rightarrow> recorder \<Rightarrow> bool" for writable where
  drain_one: "rc_writing r \<Longrightarrow> rc_queue r \<noteq> [] \<Longrightarrow> closing_step writable r (drain writable r)"
| sentinel: "rc_enabled r \<Longrightarrow> rc_closed r \<Longrightarrow> \<not> rc_sentinel r \<Longrightarrow> \<not> queue_full r \<Longrightarrow> closing_step writable r (put_sentinel r)"

inductive rec_step :: "(json \<Rightarrow> bool) \<Rightarrow> recorder \<Rightarrow> recorder \<Rightarrow> bool" for writable where
  thread: "closing_step writable r r' \<Longrightarrow> rec_step writable r r'"
| object_state: "rec_step writable r (rec_object_state live ts r)"
| begin_op: "rec_step writable r (fst (rec_begin a ts r))"
| end_op: "rec_step writable r (rec_end a ts r)"
| mark: "''producer_seq'' \<notin> fst ` set extra \<Longrightarrow> ''ev'' \<notin> fst ` set extra \<Longrightarrow> rec_step writable r (rec_marker name extra ts r)"
| move: "i < length (rc_pending r) \<Longrightarrow> rec_step writable r (advance i r)"
| close: "rec_step writable r (close_mark ts r)"

inductive_cases closing_stepE: "closing_step writable r r'"

section \<open>The invariant\<close>

definition seq_of :: "json \<Rightarrow> int" where
  "seq_of record = the_int (fld record ''producer_seq'')"

fun somes :: "'a option list \<Rightarrow> 'a list" where
  "somes [] = []"
| "somes (None # q) = somes q"
| "somes (Some x # q) = x # somes q"

lemma somes_append [simp]: "somes (p @ q) = somes p @ somes q"
  by (induction p rule: somes.induct) simp_all

fun numbered_part :: "pending \<Rightarrow> json list" where
  "numbered_part (Unnumbered record) = []"
| "numbered_part (Numbered record) = [record]"
| "numbered_part (Ready record) = [record]"

text \<open>The queue keeps its bound.\<close>

definition bound_inv :: "recorder \<Rightarrow> bool" where
  "bound_inv r \<longleftrightarrow> (0 < rc_capacity r \<longrightarrow> int (length (rc_queue r)) \<le> rc_capacity r)"

text \<open>Every record put on the queue is in the file, counted as an error, or still on the queue.\<close>

definition count_inv :: "recorder \<Rightarrow> bool" where
  "count_inv r \<longleftrightarrow> rc_emitted r = length (rc_written r) + rc_errors r + length (somes (rc_queue r))"

text \<open>The sentinel is put once, after the capture is closed, and the writer stops at it.\<close>

definition close_inv :: "recorder \<Rightarrow> bool" where
  "close_inv r \<longleftrightarrow> (rc_enabled r \<longrightarrow>
     (None \<in> set (rc_queue r) \<longleftrightarrow> rc_sentinel r \<and> rc_writing r) \<and> length (filter (\<lambda>x. x = None) (rc_queue r)) \<le> 1 \<and>
     (\<not> rc_writing r \<longrightarrow> rc_sentinel r) \<and> (rc_sentinel r \<longrightarrow> rc_closed r))"

text \<open>Every record on its way is the one that was issued under its number.\<close>

definition log_inv :: "recorder \<Rightarrow> bool" where
  "log_inv r \<longleftrightarrow> (rc_enabled r \<longrightarrow>
     int (length (rc_log r)) = rc_seq r \<and> (\<forall>i<length (rc_log r). fld (rc_log r ! i) ''producer_seq'' = JInt (int i + 1)) \<and>
     set (rc_written r) \<subseteq> set (rc_log r) \<and> set (somes (rc_queue r)) \<subseteq> set (rc_log r) \<and>
     (\<forall>p\<in>set (rc_pending r). set (numbered_part p) \<subseteq> set (rc_log r) \<and> (\<forall>x. p = Unnumbered x \<longrightarrow> \<not> has_key x ''producer_seq'')))"

definition rec_inv :: "recorder \<Rightarrow> bool" where
  "rec_inv r \<longleftrightarrow> bound_inv r \<and> count_inv r \<and> close_inv r \<and> log_inv r"

lemma enqueue_inv:
  assumes "bound_inv r" "count_inv r" "close_inv r" "log_inv r" "rc_enabled r \<Longrightarrow> x \<in> set (rc_log r)"
  shows "rec_inv (enqueue r x)"
  using assms by (auto simp: rec_inv_def enqueue_def bound_inv_def count_inv_def close_inv_def log_inv_def queue_full_def)

lemma log_snoc_numbers:
  assumes "\<forall>i<length l. fld (l ! i) k = JInt (int i + 1)" "fld x k = JInt (int (length l) + 1)"
  shows "\<forall>i<length (l @ [x]). fld ((l @ [x]) ! i) k = JInt (int i + 1)"
  using assms by (auto simp: nth_append less_Suc_eq)

lemma take_number_inv:
  assumes "rec_inv r" "take_number r x = (r', x')"
  shows "rec_inv r' \<and> (rc_enabled r' \<longrightarrow> x' \<in> set (rc_log r')) \<and> rc_pending r' = rc_pending r \<and> rc_enabled r' = rc_enabled r"
proof -
  have eq: "x' = obj_set x ''producer_seq'' (JInt (rc_seq r + 1))" "r' = r\<lparr>rc_seq := rc_seq r + 1, rc_log := rc_log r @ [x']\<rparr>"
    using assms(2) by (auto simp: take_number_def Let_def)
  have "fld x' ''producer_seq'' = JInt (rc_seq r + 1)" by (simp add: eq fld_set)
  then have "log_inv r'"
    using assms(1) log_snoc_numbers [of "rc_log r" "''producer_seq''" x'] by (auto simp: rec_inv_def log_inv_def eq(2))
  then show ?thesis using assms(1) by (simp add: rec_inv_def bound_inv_def count_inv_def close_inv_def eq(2))
qed

lemma put_record_inv:
  assumes "rec_inv r" "\<not> has_key x ''producer_seq''"
  shows "rec_inv (put_record r x)"
proof (cases "\<not> rc_enabled r \<or> rc_closed r")
  case False
  obtain r' x' where t: "take_number r x = (r', x')" by (cases "take_number r x")
  then have "put_record r x = enqueue r' x'" using False assms(2) by (simp add: put_record_def)
  then show ?thesis using take_number_inv [OF assms(1) t] enqueue_inv [of r' x'] by (simp add: rec_inv_def)
qed (use assms in \<open>simp add: put_record_def\<close>)

lemma submit_inv: "rec_inv r \<Longrightarrow> \<not> has_key x ''producer_seq'' \<Longrightarrow> rec_inv (submit r x)"
  by (auto simp: submit_def rec_inv_def bound_inv_def count_inv_def close_inv_def log_inv_def)

lemma records_unnumbered:
  "\<not> has_key (start_record r engine adapter run_id ts) ''producer_seq''" "\<not> has_key (object_state_record live ts) ''producer_seq''"
  "\<not> has_key (end_record e ts) ''producer_seq''" "\<not> has_key (close_record r ts) ''producer_seq''"
  by (simp_all add: start_record_def object_state_record_def end_record_def close_record_def split: option.split)

lemma marker_unnumbered: "''producer_seq'' \<notin> fst ` set extra \<Longrightarrow> \<not> has_key (marker_record name extra ts) ''producer_seq''"
proof -
  have "''producer_seq'' \<notin> fst ` set extra \<Longrightarrow> \<not> has_key d ''producer_seq'' \<Longrightarrow> \<not> has_key (foldl (\<lambda>d (k, v). obj_set d k v) d extra) ''producer_seq''" for d
    by (induction extra arbitrary: d) (auto simp: has_key_set)
  then show "''producer_seq'' \<notin> fst ` set extra \<Longrightarrow> \<not> has_key (marker_record name extra ts) ''producer_seq''"
    by (simp add: marker_record_def)
qed

lemma rec_begin_inv: "rec_inv r \<Longrightarrow> rec_inv (fst (rec_begin a ts r))"
proof -
  assume inv: "rec_inv r"
  show ?thesis
  proof (cases "rc_enabled r")
    case True
    have "fld (begin_record r a ts) ''producer_seq'' = JInt (rc_seq r + 1)" by (simp add: begin_record_def fld_def)
    then show ?thesis
      using inv True log_snoc_numbers [of "rc_log r" "''producer_seq''" "begin_record r a ts"]
      by (auto simp: rec_begin_def rec_inv_def bound_inv_def count_inv_def close_inv_def log_inv_def)
  qed (use inv in \<open>simp add: rec_begin_def rec_inv_def bound_inv_def count_inv_def close_inv_def log_inv_def\<close>)
qed

lemma pending_subset:
  "set (take i ps @ drop (i + 1) ps) \<subseteq> set ps" "set (ps[i := p]) \<subseteq> insert p (set ps)"
  using set_take_subset [of i ps] set_drop_subset [of "i + 1" ps] set_update_subset_insert [of ps i p] by auto

lemma log_inv_pending:
  assumes "log_inv r" "\<And>q. q \<in> set ps \<Longrightarrow> q \<in> set (rc_pending r) \<or> (\<exists>x. q = Ready x \<and> (rc_enabled r \<longrightarrow> x \<in> set (rc_log r)))"
  shows "log_inv (r\<lparr>rc_pending := ps\<rparr>)"
proof -
  have "set (numbered_part q) \<subseteq> set (rc_log r) \<and> (\<forall>x. q = Unnumbered x \<longrightarrow> \<not> has_key x ''producer_seq'')"
    if "rc_enabled r" "q \<in> set ps" for q
    using assms(2) [OF that(2)]
  proof
    assume "q \<in> set (rc_pending r)"
    then show ?thesis using assms(1) that(1) by (simp add: log_inv_def)
  next
    assume "\<exists>x. q = Ready x \<and> (rc_enabled r \<longrightarrow> x \<in> set (rc_log r))"
    then show ?thesis using that(1) by auto
  qed
  then show ?thesis using assms(1) by (simp add: log_inv_def)
qed

lemma rec_inv_pending: "rec_inv r \<Longrightarrow> log_inv (r\<lparr>rc_pending := ps\<rparr>) \<Longrightarrow> rec_inv (r\<lparr>rc_pending := ps\<rparr>)"
  by (simp add: rec_inv_def bound_inv_def count_inv_def close_inv_def)

lemma advance_inv:
  assumes inv: "rec_inv r" and i: "i < length (rc_pending r)"
  shows "rec_inv (advance i r)"
proof -
  let ?out = "r\<lparr>rc_pending := take i (rc_pending r) @ drop (i + 1) (rc_pending r)\<rparr>"
  have member: "rc_pending r ! i \<in> set (rc_pending r)" using i by simp
  have out: "rec_inv ?out"
    using pending_subset(1) [of i "rc_pending r"] inv by (intro rec_inv_pending log_inv_pending) (auto simp: rec_inv_def)
  show ?thesis
  proof (cases "rc_pending r ! i")
    case (Unnumbered x)
    obtain r' x' where t: "take_number r x = (r', x')" by (cases "take_number r x")
    note r' = take_number_inv [OF inv t]
    have "rec_inv (r'\<lparr>rc_pending := (rc_pending r)[i := Ready x']\<rparr>)"
      using r' pending_subset(2) [of "rc_pending r" i "Ready x'"] by (intro rec_inv_pending log_inv_pending) (auto simp: rec_inv_def)
    then show ?thesis using i Unnumbered t by (simp add: advance_def)
  next
    case (Numbered x)
    then have "rc_enabled r \<longrightarrow> x \<in> set (rc_log r)" using inv member by (auto simp: rec_inv_def log_inv_def)
    then have "rec_inv (r\<lparr>rc_pending := (rc_pending r)[i := Ready x]\<rparr>)"
      using inv pending_subset(2) [of "rc_pending r" i "Ready x"] by (intro rec_inv_pending log_inv_pending) (auto simp: rec_inv_def)
    then show ?thesis using i Numbered out by (simp add: advance_def Let_def)
  next
    case (Ready x)
    then have "rc_enabled r \<Longrightarrow> x \<in> set (rc_log r)" using inv member by (auto simp: rec_inv_def log_inv_def)
    then have "rec_inv (enqueue ?out x)" using out by (intro enqueue_inv) (simp_all add: rec_inv_def)
    then show ?thesis using i Ready by (simp add: advance_def Let_def)
  qed
qed

lemma close_mark_inv: "rec_inv r \<Longrightarrow> rec_inv (close_mark ts r)"
proof -
  assume "rec_inv r"
  then have "rec_inv (put_record r (close_record r ts))" by (rule put_record_inv) (rule records_unnumbered)
  then have "rec_inv ((put_record r (close_record r ts))\<lparr>rc_closed := True\<rparr>)"
    by (simp add: rec_inv_def bound_inv_def count_inv_def close_inv_def log_inv_def)
  with \<open>rec_inv r\<close> show ?thesis by (simp add: close_mark_def)
qed

lemma drain_inv:
  assumes "rec_inv r" "rc_writing r"
  shows "rec_inv (drain writable r)"
proof (cases "rc_queue r")
  case (Cons x q)
  show ?thesis
  proof (cases x)
    case None
    with Cons assms(1) have "rc_enabled r \<longrightarrow> None \<notin> set q" by (auto simp: rec_inv_def close_inv_def filter_empty_conv)
    with None Cons assms show ?thesis
      by (auto simp: drain_def rec_inv_def bound_inv_def count_inv_def close_inv_def log_inv_def)
  next
    case (Some y)
    with Cons assms show ?thesis
      by (cases "writable y") (auto simp: drain_def rec_inv_def bound_inv_def count_inv_def close_inv_def log_inv_def)
  qed
qed (use assms in \<open>simp add: drain_def\<close>)

lemma put_sentinel_inv:
  assumes "rec_inv r" "rc_enabled r" "rc_closed r" "\<not> rc_sentinel r" "\<not> queue_full r"
  shows "rec_inv (put_sentinel r)"
proof -
  have "None \<notin> set (rc_queue r)" using assms by (simp add: rec_inv_def close_inv_def)
  then have "filter (\<lambda>x. x = None) (rc_queue r) = []" unfolding filter_empty_conv by metis
  with assms show ?thesis
    by (auto simp: put_sentinel_def rec_inv_def bound_inv_def count_inv_def close_inv_def log_inv_def queue_full_def)
qed

lemma closing_step_inv: "closing_step writable r r' \<Longrightarrow> rec_inv r \<Longrightarrow> rec_inv r'"
  by (erule closing_stepE) (simp_all add: drain_inv put_sentinel_inv)

lemma rec_step_inv: "rec_step writable r r' \<Longrightarrow> rec_inv r \<Longrightarrow> rec_inv r'"
proof (induction rule: rec_step.induct)
  case (end_op r a ts)
  then have "rec_inv (r\<lparr>rc_open := removeAll (ea_op_id a) (rc_open r)\<rparr>)"
    by (simp add: rec_inv_def bound_inv_def count_inv_def close_inv_def log_inv_def)
  then show ?case using end_op by (simp add: rec_end_def submit_inv records_unnumbered)
qed (simp_all add: closing_step_inv rec_object_state_def rec_marker_def submit_inv records_unnumbered marker_unnumbered
    rec_begin_inv advance_inv close_mark_inv)

lemma new_recorder_inv: "rec_inv (new_recorder enabled producer capacity engine adapter run_id ts)"
  unfolding new_recorder_def Let_def
  by (rule put_record_inv) (simp_all add: records_unnumbered rec_inv_def bound_inv_def count_inv_def close_inv_def log_inv_def)

definition fresh :: "recorder \<Rightarrow> bool" where
  "fresh r \<longleftrightarrow> (\<exists>enabled producer capacity engine adapter run_id ts.
     r = new_recorder enabled producer capacity engine adapter run_id ts)"

definition reachable :: "(json \<Rightarrow> bool) \<Rightarrow> recorder \<Rightarrow> bool" where
  "reachable writable r \<longleftrightarrow> (\<exists>r0. fresh r0 \<and> (rec_step writable)\<^sup>*\<^sup>* r0 r)"

interpretation recording: state_machine fresh "rec_step writable" rec_inv for writable
  by unfold_locales (auto simp: fresh_def new_recorder_inv rec_step_inv)

lemma reachable_inv: "reachable writable r \<Longrightarrow> rec_inv r"
  unfolding reachable_def using recording.reachable_state_inv by blast

section \<open>Closing\<close>

text \<open>
  Where a closing run of \<open>n\<close> steps from \<open>r\<close> can be: before the sentinel is on the queue, with the
  sentinel last on the queue, or at the end.
\<close>

definition closing_at :: "(json \<Rightarrow> bool) \<Rightarrow> recorder \<Rightarrow> nat \<Rightarrow> recorder \<Rightarrow> bool" where
  "closing_at writable r n r' \<longleftrightarrow> rc_enabled r' \<and> rc_closed r' \<and>
     rc_written r' @ filter writable (somes (rc_queue r')) = rc_written r @ filter writable (somes (rc_queue r)) \<and>
     (if \<not> rc_sentinel r' then rc_writing r' \<and> None \<notin> set (rc_queue r') \<and> n + length (rc_queue r') = length (rc_queue r)
      else n + length (rc_queue r') = length (rc_queue r) + 2 \<and>
        (if rc_writing r' then \<exists>q. rc_queue r' = q @ [None] \<and> None \<notin> set q else rc_queue r' = []))"

lemma closing_at_drain:
  assumes at: "closing_at writable r n r'" and w: "rc_writing r'" and ne: "rc_queue r' \<noteq> []"
  shows "closing_at writable r (Suc n) (drain writable r')"
proof (cases "rc_sentinel r'")
  case False
  then obtain y q where q: "rc_queue r' = Some y # q" "None \<notin> set q"
    using at ne by (cases "rc_queue r'"; cases "hd (rc_queue r')") (auto simp: closing_at_def)
  then show ?thesis using at False by (cases "writable y") (auto simp: closing_at_def drain_def)
next
  case True
  then obtain q where q: "rc_queue r' = q @ [None]" "None \<notin> set q" using at w by (auto simp: closing_at_def)
  show ?thesis
  proof (cases q)
    case Nil
    then show ?thesis using at True q by (auto simp: closing_at_def drain_def)
  next
    case (Cons x q')
    then obtain y where "x = Some y" using q(2) by (cases x) auto
    then show ?thesis using at True q Cons w by (cases "writable y") (auto simp: closing_at_def drain_def)
  qed
qed

lemma closing_at_sentinel:
  assumes "closing_at writable r n r'" "\<not> rc_sentinel r'"
  shows "closing_at writable r (Suc n) (put_sentinel r')"
  using assms by (auto simp: closing_at_def put_sentinel_def)

lemma closing_at_step:
  assumes "closing_at writable r n r'" "closing_step writable r' r''"
  shows "closing_at writable r (Suc n) r''"
  using assms(2) by (rule closing_stepE) (use assms(1) closing_at_drain closing_at_sentinel in auto)

lemma closing_at_run: "(closing_step writable ^^ n) r r' \<Longrightarrow> closing_at writable r 0 r \<Longrightarrow> closing_at writable r n r'"
proof (induction n arbitrary: r')
  case (Suc n)
  then obtain s where "(closing_step writable ^^ n) r s" "closing_step writable s r'" by auto
  with Suc show ?case using closing_at_step by blast
qed simp

lemma closing_at_progress:
  assumes at: "closing_at writable r n r'" and w: "rc_writing r'"
  shows "\<exists>r''. closing_step writable r' r''"
proof (cases "rc_queue r' = []")
  case True
  then have "\<not> rc_sentinel r'" "\<not> queue_full r'" using at w by (auto simp: closing_at_def queue_full_def)
  then show ?thesis using at closing_step.sentinel [of r' writable] by (auto simp: closing_at_def)
next
  case False
  then show ?thesis using w closing_step.drain_one [of r' writable] by auto
qed

lemma closing_at_bound: "closing_at writable r n r' \<Longrightarrow> n \<le> length (rc_queue r) + 2"
  by (auto simp: closing_at_def split: if_splits)

lemma closing_terminates: "closing_at writable r n r' \<Longrightarrow> \<exists>r''. (closing_step writable)\<^sup>*\<^sup>* r' r'' \<and> \<not> rc_writing r''"
proof (induction "length (rc_queue r) + 2 - n" arbitrary: n r' rule: less_induct)
  case less
  show ?case
  proof (cases "rc_writing r'")
    case True
    then obtain s where s: "closing_step writable r' s" using closing_at_progress less.prems by blast
    then have at: "closing_at writable r (Suc n) s" using closing_at_step less.prems by blast
    then have "length (rc_queue r) + 2 - Suc n < length (rc_queue r) + 2 - n" using closing_at_bound [OF at] by simp
    then obtain t where "(closing_step writable)\<^sup>*\<^sup>* s t" "\<not> rc_writing t" using less.hyps at by blast
    with s show ?thesis by (meson converse_rtranclp_into_rtranclp)
  qed auto
qed

lemma closing_start:
  assumes "reachable writable r" "rc_enabled r" "rc_closed r" "\<not> rc_sentinel r"
  shows "closing_at writable r 0 r"
  using reachable_inv [OF assms(1)] assms(2-4) by (auto simp: closing_at_def rec_inv_def close_inv_def)

lemma reachable_closing: "reachable writable r \<Longrightarrow> (closing_step writable ^^ n) r r' \<Longrightarrow> reachable writable r'"
proof (induction n arbitrary: r')
  case (Suc n)
  then obtain s where "reachable writable s" "closing_step writable s r'" by auto
  then show ?case unfolding reachable_def by (meson rec_step.thread rtranclp.rtrancl_into_rtrancl)
qed simp

section \<open>An example\<close>

definition example_recorder :: recorder where
  "example_recorder = new_recorder True ''engine'' 2 (JObj []) (JObj []) ''run'' 0"

lemma example_fresh: "fresh example_recorder"
  unfolding fresh_def example_recorder_def by blast

lemma example_reachable: "reachable writable (close_mark ts example_recorder)"
  unfolding reachable_def using example_fresh rec_step.close [of writable example_recorder ts] by blast

lemma example_closed:
  "rc_enabled (close_mark 5 example_recorder)" "rc_closed (close_mark 5 example_recorder)" "\<not> rc_sentinel (close_mark 5 example_recorder)"
  "length (rc_queue (close_mark 5 example_recorder)) = 2" "rc_capacity (close_mark 5 example_recorder) = 2"
  by code_simp+

section \<open>Properties\<close>





end
