(* ===== verification/Capture_Normalize.thy ===== *)
theory Capture_Normalize
  imports Capture_Recorder V1_Carry Py_Float "HOL-Library.Product_Lexorder"
begin

text \<open>
  The normalizer of \<open>capture_events.py\<close>: a finished capture becomes a \<open>kvio.intent.v2\<close> record and a
  timing sidecar, and what the recorder and the normalizer together say about lost events.

  The decoder of a line, the text of a sidecar line, its digest, and \<open>str\<close> of a value the model does
  not render (a fractional float, a list, a dictionary) are parameters. Times and sequence numbers
  are integers, as the recorder writes them: another value raises \<open>TypeError\<close> here. An identifier or a
  verb that is not a string raises \<open>Intent2Error\<close> where it is used; the source raises it in the
  validation at the end.
\<close>

section \<open>Reading\<close>

definition read_event :: "(string \<Rightarrow> json option) \<Rightarrow> json list \<Rightarrow> string \<Rightarrow> json list result" where
  "read_event decode events line =
     (let line = strip_space line in
      if line = [] then Inr events
      else (case decode line of
              Some event \<Rightarrow> Inr (events @ [event])
            | None \<Rightarrow> Inl (CaptureError ''invalid JSON line'')))"

definition read_events :: "(string \<Rightarrow> json option) \<Rightarrow> string list \<Rightarrow> json list result" where
  "read_events decode file_lines = mfold (read_event decode) [] file_lines"

definition need_str :: "json \<Rightarrow> string result" where
  "need_str v = (if is_str v then Inr (the_str v) else Inl (Intent2Error ''must be a non-empty string''))"

definition need_int :: "json \<Rightarrow> int result" where
  "need_int v = (if is_int v then Inr (the_int v) else Inl TypeError)"

definition str_of :: "(json \<Rightarrow> string) \<Rightarrow> json \<Rightarrow> string" where
  "str_of show v = (case py_str v of Some t \<Rightarrow> t | None \<Rightarrow> show v)"

definition capture_rep :: "(json \<Rightarrow> string) \<Rightarrow> json \<Rightarrow> json \<Rightarrow> (string \<times> json \<times> int) result" where
  "capture_rep show rep bytes =
     (if is_obj rep then
        rbind (obj_get_default rep ''codec'' (JStr ''opaque'')) (\<lambda>codec.
        rbind (obj_get_default rep ''encoded_bytes'' bytes) (\<lambda>bytes.
        rbind (py_int bytes) (\<lambda>n. Inr (str_of show codec @ '':'' @ str_int n, codec, n))))
      else rbind (py_int bytes) (\<lambda>n. Inr (''opaque:'' @ str_of show bytes, JStr ''opaque'', n)))"

section \<open>Scanning the events\<close>

record capture_scan =
  cs_ended :: "json option"
  cs_begins :: "(string \<times> json) list"
  cs_ends :: "(string \<times> json) list"
  cs_initial :: "json list"
  cs_seqs :: "json list"

definition add_event :: "string \<Rightarrow> (string \<times> json) list \<Rightarrow> json \<Rightarrow> (string \<times> json) list result" where
  "add_event message table ev =
     rbind (obj_index ev ''op_id'') (\<lambda>v. rbind (need_str v) (\<lambda>op_id.
     rbind (require (op_id \<notin> set (map fst table)) (CaptureError message)) (\<lambda>_.
     Inr (table @ [(op_id, ev)]))))"

definition scan_event :: "capture_scan \<Rightarrow> json \<Rightarrow> capture_scan result" where
  "scan_event s ev =
     rbind (obj_get ev ''ev'') (\<lambda>kind.
     let s = (if has_key ev ''producer_seq'' then s\<lparr>cs_seqs := cs_seqs s @ [fld ev ''producer_seq'']\<rparr> else s) in
     if kind = JStr ''object_state'' then
       rbind (obj_get_default ev ''live'' (JList [])) (\<lambda>live. rbind (py_iter live) (\<lambda>xs. Inr (s\<lparr>cs_initial := cs_initial s @ xs\<rparr>)))
     else if kind = JStr ''op_begin'' then rbind (add_event ''op_id begun twice'' (cs_begins s) ev) (\<lambda>t. Inr (s\<lparr>cs_begins := t\<rparr>))
     else if kind = JStr ''op_end'' then rbind (add_event ''op_id ended twice'' (cs_ends s) ev) (\<lambda>t. Inr (s\<lparr>cs_ends := t\<rparr>))
     else if kind = JStr ''end'' then Inr (s\<lparr>cs_ended := Some ev\<rparr>)
     else if kind = JStr ''marker'' then Inr s
     else Inl (CaptureError ''unknown event kind''))"

definition count_gaps :: "int list \<Rightarrow> nat" where
  "count_gaps seqs = (let s = sort seqs in length (filter (\<lambda>(a, b). b \<noteq> a + 1) (zip s (tl s))))"

definition unmatched_ends :: "capture_scan \<Rightarrow> string list" where
  "unmatched_ends s = filter (\<lambda>i. i \<notin> set (map fst (cs_begins s))) (map fst (cs_ends s))"

definition open_ops :: "capture_scan \<Rightarrow> string list" where
  "open_ops s = filter (\<lambda>i. i \<notin> set (map fst (cs_ends s))) (map fst (cs_begins s))"

text \<open>\<open>dict(ended.get("health", {}))\<close>, with the counts of the scan.\<close>

definition capture_health :: "capture_scan \<Rightarrow> nat \<Rightarrow> json result" where
  "capture_health s gaps =
     rbind (case cs_ended s of
         None \<Rightarrow> Inr (JObj [])
       | Some ev \<Rightarrow> (case fld ev ''health'' of
             JObj kvs \<Rightarrow> Inr (JObj kvs)
           | JNull \<Rightarrow> if has_key ev ''health'' then Inl TypeError else Inr (JObj [])
           | JList [] \<Rightarrow> Inr (JObj [])
           | JStr [] \<Rightarrow> Inr (JObj [])
           | _ \<Rightarrow> Inl TypeError)) (\<lambda>health.
     Inr (obj_set (obj_set (obj_set health ''begins'' (JInt (int (length (cs_begins s))))) ''ends'' (JInt (int (length (cs_ends s)))))
       ''sequence_gaps'' (JInt (int gaps))))"

definition capture_notes :: "(json \<Rightarrow> string) \<Rightarrow> capture_scan \<Rightarrow> json \<Rightarrow> nat \<Rightarrow> string list" where
  "capture_notes show s counters gaps =
     (if cs_ended s = None then [''no end marker: the recorder did not drain''] else []) @
     (if unmatched_ends s \<noteq> [] then [str_nat (length (unmatched_ends s)) @ '' end events without a begin''] else []) @
     (if open_ops s \<noteq> [] then [str_nat (length (open_ops s)) @ '' operations never ended''] else []) @
     (if truthy (fld counters ''dropped'') then [str_of show (fld counters ''dropped'') @ '' events dropped by the recorder''] else []) @
     (if gaps \<noteq> 0 then [str_nat gaps @ '' producer sequence gaps''] else [])"

section \<open>The record\<close>

record norm_state =
  nm_intent :: json
  nm_versions :: "string \<Rightarrow> int option"
  nm_last :: "string \<Rightarrow> string option"
  nm_sidecar :: "json list"

definition ensure_rep :: "json \<Rightarrow> string \<times> json \<times> int \<Rightarrow> json result" where
  "ensure_rep intent rep = (case rep of (rep_id, codec, encoded) \<Rightarrow>
     if has_key (fld intent ''representations'') rep_id then Inr intent
     else rbind (need_str codec) (\<lambda>codec. Inr (add_representation intent rep_id codec encoded JNull [])))"

definition known_version :: "json \<Rightarrow> string \<Rightarrow> int \<Rightarrow> bool" where
  "known_version intent oid ver \<longleftrightarrow> has_key (fld (fld (fld intent ''objects'') oid) ''versions'') (str_int ver)"

definition carry_live :: "(json \<Rightarrow> string) \<Rightarrow> norm_state \<Rightarrow> json \<Rightarrow> norm_state result" where
  "carry_live show st item =
     rbind (obj_get item ''representation'') (\<lambda>rep.
     rbind (capture_rep show rep (fld item ''bytes'')) (\<lambda>(rep_id, codec, encoded).
     rbind (ensure_rep (nm_intent st) (rep_id, codec, encoded)) (\<lambda>intent.
     rbind (obj_get_default item ''version'' (JInt 1)) (\<lambda>v. rbind (py_int v) (\<lambda>ver.
     rbind (obj_index item ''object_id'') (\<lambda>o_id. rbind (need_str o_id) (\<lambda>oid.
     rbind (add_object_version intent oid ver rep_id) (\<lambda>intent.
     rbind (obj_get_default item ''tier'' (JStr ''storage'')) (\<lambda>tier.
     let live = the_list (fld (fld intent ''initial_state'') ''live'') in
     Inr (st\<lparr>nm_intent := obj_set intent ''initial_state'' (obj_set (fld intent ''initial_state'') ''live''
            (JList (live @ [JObj [(''object_id'', JStr oid), (''version'', JInt ver), (''tier'', tier)]]))),
          nm_versions := (nm_versions st)(oid \<mapsto> ver)\<rparr>))))))))))"

definition begin_key :: "string \<times> json \<Rightarrow> (int \<times> int) result" where
  "begin_key b =
     rbind (obj_index (snd b) ''ts_ns'') (\<lambda>t. rbind (need_int t) (\<lambda>ts.
     rbind (obj_index (snd b) ''producer_seq'') (\<lambda>p. rbind (need_int p) (\<lambda>seq. Inr (ts, seq)))))"

definition order_begins :: "(string \<times> json) list \<Rightarrow> (string \<times> json) list result" where
  "order_begins begins =
     rbind (mmap (\<lambda>b. rbind (begin_key b) (\<lambda>k. Inr (k, b))) begins) (\<lambda>keyed. Inr (map snd (sort_key fst keyed)))"

definition item_id :: "string \<Rightarrow> json \<Rightarrow> nat \<Rightarrow> string" where
  "item_id op_id ev i = (if has_key ev ''items'' then op_id @ ''/'' @ str_nat i else op_id)"

definition expand_begin :: "string \<times> json \<Rightarrow> (string \<times> string list) result" where
  "expand_begin b = (case b of (op_id, ev) \<Rightarrow>
     if has_key ev ''items'' then
       rbind (py_iter (fld ev ''items'')) (\<lambda>items. Inr (op_id, map (item_id op_id ev) [0..<length items]))
     else Inr (op_id, [op_id]))"

definition expand_dep :: "(string \<times> string list) list \<Rightarrow> string list \<Rightarrow> json \<Rightarrow> string list result" where
  "expand_dep expanded out d =
     rbind (need_str d) (\<lambda>d. Inr (out @ (case map_of expanded d of Some ids \<Rightarrow> ids | None \<Rightarrow> [d])))"

definition expand_deps :: "(string \<times> string list) list \<Rightarrow> json \<Rightarrow> string list result" where
  "expand_deps expanded deps = rbind (py_iter deps) (mfold (expand_dep expanded) [])"

definition batch_items :: "json \<Rightarrow> json option \<Rightarrow> (json list \<times> json list) result" where
  "batch_items b e =
     (if fld b ''items'' = JNull then
        Inr ([JObj [(''object_id'', fld b ''object_id''), (''version'', fld b ''version''), (''representation'', fld b ''representation''),
           (''range'', fld b ''range''), (''requested_bytes'', fld b ''requested_bytes'')]], [case e of Some ev \<Rightarrow> ev | None \<Rightarrow> JNull])
      else
        rbind (py_iter (fld b ''items'')) (\<lambda>items.
        rbind (case e of
            Some ev \<Rightarrow> if truthy (fld ev ''items'') then py_iter (fld ev ''items'') else Inr (replicate (length items) JNull)
          | None \<Rightarrow> Inr (replicate (length items) JNull)) (\<lambda>item_ends.
        rbind (require (length item_ends = length items) (CaptureError ''batch ended with another number of items'')) (\<lambda>_.
        Inr (items, item_ends)))))"

text \<open>\<open>(ie or {}).get(k)\<close>.\<close>

definition end_field :: "json \<Rightarrow> string \<Rightarrow> json result" where
  "end_field ie k = (if truthy ie then obj_get ie k else Inr JNull)"

text \<open>The version an operation works on, and the record with that version described.\<close>

definition store_version :: "(json \<Rightarrow> string) \<Rightarrow> norm_state \<Rightarrow> string \<Rightarrow> json \<Rightarrow> json \<Rightarrow> (norm_state \<times> int) result" where
  "store_version show st oid it outcome =
     rbind (capture_rep show (fld it ''representation'') (fld it ''requested_bytes'')) (\<lambda>(rep_id, codec, encoded).
     rbind (ensure_rep (nm_intent st) (rep_id, codec, encoded)) (\<lambda>intent.
     rbind (if fld it ''version'' \<noteq> JNull then py_int (fld it ''version'')
            else if outcome = JStr ''already_present'' then Inr (case nm_versions st oid of Some v \<Rightarrow> v | None \<Rightarrow> 1)
            else Inr ((case nm_versions st oid of Some v \<Rightarrow> v | None \<Rightarrow> 0) + 1)) (\<lambda>ver.
     rbind (if known_version intent oid ver then Inr intent else add_object_version intent oid ver rep_id) (\<lambda>intent.
     Inr (st\<lparr>nm_intent := intent, nm_versions := (nm_versions st)(oid \<mapsto> ver)\<rparr>, ver)))))"

definition other_version :: "(json \<Rightarrow> string) \<Rightarrow> norm_state \<Rightarrow> string \<Rightarrow> json \<Rightarrow> (norm_state \<times> int) result" where
  "other_version show st oid it =
     rbind (if fld it ''version'' \<noteq> JNull then py_int (fld it ''version'')
            else Inr (case nm_versions st oid of Some v \<Rightarrow> v | None \<Rightarrow> 1)) (\<lambda>ver.
     if has_key (fld (nm_intent st) ''objects'') oid then Inr (st, ver)
     else
       rbind (capture_rep show (fld it ''representation'')
         (if truthy (fld it ''requested_bytes'') then fld it ''requested_bytes'' else JInt 1)) (\<lambda>(rep_id, codec, encoded).
       rbind (ensure_rep (nm_intent st) (rep_id, codec, encoded)) (\<lambda>intent.
       rbind (add_object_version intent oid ver rep_id) (\<lambda>intent.
       Inr (st\<lparr>nm_intent := intent\<rparr>, ver)))))"

definition chain_deps :: "norm_state \<Rightarrow> string \<Rightarrow> string list \<Rightarrow> string list" where
  "chain_deps st oid deps = (case nm_last st oid of
      Some prev \<Rightarrow> if prev \<in> set deps then deps else deps @ [prev]
    | None \<Rightarrow> deps)"

definition carry_item ::
  "(json \<Rightarrow> string) \<Rightarrow> (string \<times> string list) list \<Rightarrow> string \<Rightarrow> json \<Rightarrow> json option \<Rightarrow> norm_state \<Rightarrow> nat \<times> json \<times> json \<Rightarrow> norm_state result" where
  "carry_item show expanded op_id b e st item = (case item of (i, it, ie) \<Rightarrow>
     rbind (obj_index it ''object_id'') (\<lambda>o_id. rbind (need_str o_id) (\<lambda>oid.
     rbind (obj_index b ''op'') (\<lambda>v. rbind (need_str v) (\<lambda>verb.
     rbind (end_field ie ''outcome'') (\<lambda>outcome0.
     rbind (if verb = ''store'' then store_version show st oid it outcome0 else other_version show st oid it) (\<lambda>(st, ver).
     let outcome = (if e = None \<and> \<not> truthy outcome0 then JStr ''error'' else outcome0) in
     rbind (obj_get_default b ''deps'' (JList [])) (\<lambda>ds. rbind (expand_deps expanded ds) (\<lambda>deps0.
     let this_id = item_id op_id b i; deps = chain_deps st oid deps0 in
     rbind (obj_index b ''ts_ns'') (\<lambda>t. rbind (py_int t) (\<lambda>ts.
     rbind (add_operation (nm_intent st) \<lparr>oa_op_id = this_id, oa_op = verb, oa_object_id = oid, oa_version = ver,
        oa_stream = fld b ''stream'', oa_deps = deps, oa_range = fld it ''range'',
        oa_batch_id = (if truthy (fld b ''batch_id'') then fld b ''batch_id'' else if has_key b ''items'' then JStr op_id else JNull),
        oa_release_ns = JInt ts, oa_declared_delay_ns = JNull, oa_source_outcome = outcome,
        oa_requested_bytes = fld it ''requested_bytes''\<rparr>) (\<lambda>intent.
     rbind (case e of Some ev \<Rightarrow> obj_index ev ''ts_ns'' | None \<Rightarrow> Inr JNull) (\<lambda>end_ns.
     rbind (end_field ie ''completed_bytes'') (\<lambda>completed.
     Inr (st\<lparr>nm_intent := intent, nm_last := (nm_last st)(oid \<mapsto> this_id),
        nm_sidecar := nm_sidecar st @ [JObj [(''op_id'', JStr this_id), (''begin_ns'', t), (''end_ns'', end_ns), (''outcome'', outcome),
           (''completed_bytes'', completed)]]\<rparr>)))))))))))))))"

definition carry_begin ::
  "(json \<Rightarrow> string) \<Rightarrow> (string \<times> string list) list \<Rightarrow> (string \<times> json) list \<Rightarrow> norm_state \<Rightarrow> string \<times> json \<Rightarrow> norm_state result" where
  "carry_begin show expanded ends st begun = (case begun of (op_id, b) \<Rightarrow>
     let e = map_of ends op_id in
     rbind (batch_items b e) (\<lambda>(items, item_ends).
     mfold (carry_item show expanded op_id b e) st (enumerate 0 (zip items item_ends))))"

definition ORDER_NOTE :: string where
  "ORDER_NOTE = ''same-object operations ordered by identity; stream order as the adapter declared it''"

definition add_note :: "json \<Rightarrow> string \<Rightarrow> json" where
  "add_note intent note_text =
     (let provenance = fld intent ''provenance''; completeness = fld provenance ''completeness'' in
      obj_set intent ''provenance'' (obj_set provenance ''completeness'' (obj_set completeness ''notes''
        (JList (the_list (fld completeness ''notes'') @ [JStr note_text])))))"

definition sidecar_text :: "(json \<Rightarrow> string) \<Rightarrow> json list \<Rightarrow> string" where
  "sidecar_text line_text sidecar = concat (map (\<lambda>s. line_text s @ [char_of (10 :: nat)]) sidecar)"

definition capture_source :: "json \<Rightarrow> fields" where
  "capture_source start = [(''schema'', JStr CAPTURE_EVENTS_SCHEMA), (''run_id'', fld start ''run_id''),
     (''adapter'', if has_key start ''adapter'' then fld start ''adapter'' else JObj []),
     (''clock'', if has_key start ''clock'' then fld start ''clock'' else JObj [])]"

definition scan_start :: capture_scan where
  "scan_start = \<lparr>cs_ended = None, cs_begins = [], cs_ends = [], cs_initial = [], cs_seqs = []\<rparr>"

definition normalize_capture ::
  "(json \<Rightarrow> string) \<Rightarrow> (json \<Rightarrow> string) \<Rightarrow> (string \<Rightarrow> string) \<Rightarrow> json list \<Rightarrow> string option \<Rightarrow> (json \<times> string) result" where
  "normalize_capture show line_text sha events sidecar_path =
     (case events of
        [] \<Rightarrow> Inl (CaptureError ''capture must begin with a start event'')
      | start # rest \<Rightarrow>
          rbind (obj_get start ''ev'') (\<lambda>kind.
          rbind (require (kind = JStr ''start'') (CaptureError ''capture must begin with a start event'')) (\<lambda>_.
          rbind (require (fld start ''schema'' = JStr CAPTURE_EVENTS_SCHEMA) (CaptureError ''unsupported capture schema'')) (\<lambda>_.
          rbind (mfold scan_event scan_start rest) (\<lambda>s.
          rbind (mmap need_int (cs_seqs s)) (\<lambda>seqs.
          let gaps = count_gaps seqs in
          rbind (capture_health s gaps) (\<lambda>health.
          let notes = capture_notes show s health gaps in
          rbind (new_intent ''A1'' ''declared'' ''captured'' (if has_key start ''engine'' then fld start ''engine'' else JObj [])
            (if notes = [] then ''complete'' else ''partial'') (map JStr notes) (capture_source start)) (\<lambda>intent.
          rbind (mfold (carry_live show) \<lparr>nm_intent = intent, nm_versions = Map.empty, nm_last = Map.empty, nm_sidecar = []\<rparr> (cs_initial s)) (\<lambda>st.
          rbind (order_begins (cs_begins s)) (\<lambda>ordered.
          rbind (mmap expand_begin ordered) (\<lambda>expanded.
          rbind (mfold (carry_begin show expanded (cs_ends s)) st ordered) (\<lambda>st.
          let sidecar = sidecar_text line_text (nm_sidecar st);
              intent = add_note (nm_intent st) ORDER_NOTE;
              intent = obj_set intent ''timing'' (JObj [
                (''sidecar'', JStr (case sidecar_path of Some p \<Rightarrow> if p = [] then ''timing.jsonl'' else p | None \<Rightarrow> ''timing.jsonl'')),
                (''sidecar_sha256'', JStr (sha sidecar))]);
              intent = obj_set intent ''health'' health in
          rbind (validate_intent2 intent) (\<lambda>intent. Inr (intent, sidecar))))))))))))))"

section \<open>Order on one object\<close>

definition on_object :: "string \<Rightarrow> json \<Rightarrow> bool" where
  "on_object oid op \<longleftrightarrow> fld op ''object_id'' = JStr oid"

definition last_on :: "json list \<Rightarrow> string \<Rightarrow> string option" where
  "last_on ops oid = (if filter (on_object oid) ops = [] then None
     else Some (the_str (fld (last (filter (on_object oid) ops)) ''op_id'')))"

text \<open>Every operation depends on the one before it on the same object.\<close>

definition chained :: "json list \<Rightarrow> bool" where
  "chained ops \<longleftrightarrow> (\<forall>j<length ops. \<forall>oid d. on_object oid (ops ! j) \<longrightarrow> last_on (take j ops) oid = Some d \<longrightarrow> d \<in> set (v2_deps (ops ! j)))"

definition norm_inv :: "json \<Rightarrow> norm_state \<Rightarrow> bool" where
  "norm_inv prov st \<longleftrightarrow> fld (nm_intent st) ''provenance'' = prov \<and> chained (v2_operations (nm_intent st)) \<and> nm_last st = last_on (v2_operations (nm_intent st)) \<and>
     map (\<lambda>s. fld s ''op_id'') (nm_sidecar st) = map (\<lambda>op. fld op ''op_id'') (v2_operations (nm_intent st))"

lemma chained_snoc:
  "chained (ops @ [op]) \<longleftrightarrow> chained ops \<and> (\<forall>oid d. on_object oid op \<longrightarrow> last_on ops oid = Some d \<longrightarrow> d \<in> set (v2_deps op))"
  unfolding chained_def by (auto simp: nth_append less_Suc_eq)

lemma last_on_snoc: "last_on (ops @ [op]) oid = (if on_object oid op then Some (the_str (fld op ''op_id'')) else last_on ops oid)"
  by (simp add: last_on_def)

lemma ensure_rep_ops: "ensure_rep intent rep = Inr intent' \<Longrightarrow> v2_operations intent' = v2_operations intent \<and> fld intent' ''provenance'' = fld intent ''provenance''"
  by (auto simp: ensure_rep_def add_representation_def rbind_Inr_iff fld_set split: prod.splits if_splits)

lemma object_version_ops:
  "add_object_version intent oid ver rep = Inr intent' \<Longrightarrow> v2_operations intent' = v2_operations intent \<and> fld intent' ''provenance'' = fld intent ''provenance''"
  by (auto simp: add_object_version_def Let_def rbind_Inr_iff fld_set)

lemma store_version_keeps:
  assumes "store_version show st oid it outcome = Inr (st', ver)"
  shows "(v2_operations (nm_intent st') = v2_operations (nm_intent st) \<and> fld (nm_intent st') ''provenance'' = fld (nm_intent st) ''provenance'') \<and> nm_last st' = nm_last st \<and> nm_sidecar st' = nm_sidecar st"
  using assms unfolding store_version_def rbind_Inr_iff
  by (auto simp: rbind_Inr_iff dest!: ensure_rep_ops object_version_ops split: prod.splits if_splits)

lemma other_version_keeps:
  assumes "other_version show st oid it = Inr (st', ver)"
  shows "(v2_operations (nm_intent st') = v2_operations (nm_intent st) \<and> fld (nm_intent st') ''provenance'' = fld (nm_intent st) ''provenance'') \<and> nm_last st' = nm_last st \<and> nm_sidecar st' = nm_sidecar st"
  using assms unfolding other_version_def rbind_Inr_iff
  by (auto simp: rbind_Inr_iff dest!: ensure_rep_ops object_version_ops split: prod.splits if_splits)

lemma carry_item_Inr:
  assumes "carry_item show expanded op_id b e st (i, it, ie) = Inr st'"
  shows "\<exists>st1 intent a entry deps.
    add_operation (nm_intent st1) a = Inr intent \<and>
    ((v2_operations (nm_intent st1) = v2_operations (nm_intent st) \<and> fld (nm_intent st1) ''provenance'' = fld (nm_intent st) ''provenance'') \<and> nm_last st1 = nm_last st \<and> nm_sidecar st1 = nm_sidecar st) \<and>
    st' = st1\<lparr>nm_intent := intent, nm_last := (nm_last st1)(oa_object_id a \<mapsto> item_id op_id b i), nm_sidecar := nm_sidecar st1 @ [entry]\<rparr> \<and>
    oa_deps a = chain_deps st1 (oa_object_id a) deps \<and> oa_op_id a = item_id op_id b i \<and>
    fld entry ''op_id'' = JStr (item_id op_id b i)"
proof -
  have keeps: "(v2_operations (nm_intent st1) = v2_operations (nm_intent st) \<and> fld (nm_intent st1) ''provenance'' = fld (nm_intent st) ''provenance'') \<and> nm_last st1 = nm_last st \<and> nm_sidecar st1 = nm_sidecar st"
    if "(if verb = ''store'' then store_version show st oid it outcome else other_version show st oid it) = Inr (st1, ver)"
    for verb oid outcome st1 ver
    using that store_version_keeps other_version_keeps by (auto split: if_splits)
  show ?thesis
    using assms unfolding carry_item_def prod.case Let_def rbind_Inr_iff split_paired_Ex sum.inject
    by (elim exE conjE) (drule keeps, intro exI conjI, assumption, blast, blast, blast, blast, simp (no_asm) only: v2_op_args.select_convs, erule sym,
        simp (no_asm) only: v2_op_args.select_convs, (simp (no_asm) add: fld_set)+)
qed

lemma set_chain_deps: "nm_last st oid = Some d \<Longrightarrow> d \<in> set (chain_deps st oid deps)"
  by (auto simp: chain_deps_def)

lemma add_operation_chained:
  assumes "add_operation intent a = Inr intent'" "chained (v2_operations intent)"
    "\<And>d. last_on (v2_operations intent) (oa_object_id a) = Some d \<Longrightarrow> d \<in> set (oa_deps a)"
  shows "chained (v2_operations intent')"
    "last_on (v2_operations intent') = (last_on (v2_operations intent))(oa_object_id a \<mapsto> oa_op_id a)"
    "map (\<lambda>op. fld op ''op_id'') (v2_operations intent') = map (\<lambda>op. fld op ''op_id'') (v2_operations intent) @ [JStr (oa_op_id a)]"
proof -
  obtain r where r: "v2_operations intent' = v2_operations intent @ [v2_operation (length (v2_operations intent)) a r]"
    using assms(1) by (auto simp: add_operation_def rbind_Inr_iff Let_def fld_set)
  show "chained (v2_operations intent')" "last_on (v2_operations intent') = (last_on (v2_operations intent))(oa_object_id a \<mapsto> oa_op_id a)"
    "map (\<lambda>op. fld op ''op_id'') (v2_operations intent') = map (\<lambda>op. fld op ''op_id'') (v2_operations intent) @ [JStr (oa_op_id a)]"
    using assms(2,3) unfolding r by (auto simp: chained_snoc last_on_snoc on_object_def v2_operation_def v2_deps_def fun_eq_iff)
qed

lemma carry_item_inv:
  assumes "carry_item show expanded op_id b e st item = Inr st'" "norm_inv prov st"
  shows "norm_inv prov st'"
proof -
  obtain i it ie where item: "item = (i, it, ie)" by (cases item)
  obtain st1 intent a entry deps where add: "add_operation (nm_intent st1) a = Inr intent"
    and same: "v2_operations (nm_intent st1) = v2_operations (nm_intent st)" "fld (nm_intent st1) ''provenance'' = fld (nm_intent st) ''provenance''" "nm_last st1 = nm_last st" "nm_sidecar st1 = nm_sidecar st"
    and st': "st' = st1\<lparr>nm_intent := intent, nm_last := (nm_last st1)(oa_object_id a \<mapsto> item_id op_id b i), nm_sidecar := nm_sidecar st1 @ [entry]\<rparr>"
    and deps: "oa_deps a = chain_deps st1 (oa_object_id a) deps" and id: "oa_op_id a = item_id op_id b i"
    and entry: "fld entry ''op_id'' = JStr (item_id op_id b i)"
    using carry_item_Inr [OF assms(1) [unfolded item]] by (elim exE conjE)
  have inv: "chained (v2_operations (nm_intent st1))" "nm_last st1 = last_on (v2_operations (nm_intent st1))"
    "map (\<lambda>s. fld s ''op_id'') (nm_sidecar st1) = map (\<lambda>op. fld op ''op_id'') (v2_operations (nm_intent st1))"
    using assms(2) by (simp_all add: norm_inv_def same)
  have "d \<in> set (oa_deps a)" if "last_on (v2_operations (nm_intent st1)) (oa_object_id a) = Some d" for d
    using that by (simp add: deps set_chain_deps inv(2))
  note added = add_operation_chained [OF add inv(1) this]
  have "fld intent ''provenance'' = prov"
    using add assms(2) same(2) by (auto simp: add_operation_def rbind_Inr_iff Let_def fld_set norm_inv_def)
  then show ?thesis
    unfolding norm_inv_def st' by (simp add: added inv id entry)
qed

lemma carry_begin_inv:
  assumes "carry_begin show expanded ends st begun = Inr st'" "norm_inv prov st"
  shows "norm_inv prov st'"
proof -
  obtain op_id b where begun: "begun = (op_id, b)" by (cases begun)
  from assms(1) obtain items item_ends where
    "mfold (carry_item show expanded op_id b (map_of ends op_id)) st (enumerate 0 (zip items item_ends)) = Inr st'"
    by (auto simp: carry_begin_def begun rbind_Inr_iff Let_def)
  from mfold_rule [where I = "\<lambda>_ st. norm_inv prov st", OF this] show ?thesis
    using assms(2) carry_item_inv by blast
qed

lemma carry_live_inv:
  assumes "carry_live show st item = Inr st'" "norm_inv prov st"
  shows "norm_inv prov st'"
  using assms unfolding carry_live_def rbind_Inr_iff
  by (auto simp: norm_inv_def rbind_Inr_iff Let_def fld_set dest!: ensure_rep_ops object_version_ops)

lemma normalize_capture_Inr:
  assumes "normalize_capture show line_text sha events path = Inr (intent, sidecar)"
  obtains start rest s seqs counters base st0 ordered expanded st where
    "events = start # rest" "fld start ''ev'' = JStr ''start''" "mfold scan_event scan_start rest = Inr s" "mmap need_int (cs_seqs s) = Inr seqs"
    "capture_health s (count_gaps seqs) = Inr counters"
    "new_intent ''A1'' ''declared'' ''captured'' (if has_key start ''engine'' then fld start ''engine'' else JObj [])
       (if capture_notes show s counters (count_gaps seqs) = [] then ''complete'' else ''partial'')
       (map JStr (capture_notes show s counters (count_gaps seqs))) (capture_source start) = Inr base"
    "mfold (carry_live show) \<lparr>nm_intent = base, nm_versions = Map.empty, nm_last = Map.empty, nm_sidecar = []\<rparr> (cs_initial s) = Inr st0"
    "mfold (carry_begin show expanded (cs_ends s)) st0 ordered = Inr st"
    "order_begins (cs_begins s) = Inr ordered"
    "sidecar = sidecar_text line_text (nm_sidecar st)"
    "fld intent ''provenance'' = fld (add_note (nm_intent st) ORDER_NOTE) ''provenance''"
    "v2_operations intent = v2_operations (nm_intent st)"
    "fld (fld intent ''timing'') ''sidecar_sha256'' = JStr (sha sidecar)" "fld intent ''health'' = counters"
    "validate_intent2 intent = Inr intent"
proof (cases events)
  case Nil
  then show ?thesis using assms by (simp add: normalize_capture_def)
next
  case (Cons start rest)
  show ?thesis
    using assms unfolding normalize_capture_def Cons list.case rbind_Inr_iff Let_def sum.inject prod.inject require_Inr_iff
    apply (elim exE conjE)
    subgoal premises p for kind _ _ s seqs counters base st0 ordered expanded st intent'
    proof -
      have same: "validate_intent2 a = Inr b \<Longrightarrow> b = a" for a b by (simp add: validate_intent2_iff)
      note valid = same [OF p(12)]
      show ?thesis
        by (rule that [OF Cons _ p(4,5,6,7,8,11,9)])
          (use p(1,2) p(12) [unfolded valid] in \<open>simp_all add: p(13) [symmetric] p(14) [symmetric] valid fld_set add_note_def Let_def obj_get_def split: if_splits\<close>)
    qed
    done
qed

section \<open>What a capture says\<close>

definition of_kind :: "string \<Rightarrow> json list \<Rightarrow> json list" where
  "of_kind kind = filter (\<lambda>ev. fld ev ''ev'' = JStr kind)"

definition op_ids :: "json list \<Rightarrow> string list" where
  "op_ids = map (\<lambda>ev. the_str (fld ev ''op_id''))"

definition seq_values :: "json list \<Rightarrow> int list" where
  "seq_values events = map seq_of (filter (\<lambda>ev. has_key ev ''producer_seq'') events)"

definition scanned :: "json list \<Rightarrow> capture_scan \<Rightarrow> bool" where
  "scanned events s \<longleftrightarrow> cs_seqs s = map (\<lambda>ev. fld ev ''producer_seq'') (filter (\<lambda>ev. has_key ev ''producer_seq'') events) \<and>
     map fst (cs_begins s) = op_ids (of_kind ''op_begin'' events) \<and> map fst (cs_ends s) = op_ids (of_kind ''op_end'' events) \<and>
     cs_ended s = (if of_kind ''end'' events = [] then None else Some (last (of_kind ''end'' events)))"

lemma add_event_Inr: "add_event message t ev = Inr t' \<Longrightarrow> t' = t @ [(the_str (fld ev ''op_id''), ev)]"
  by (auto simp: add_event_def rbind_Inr_iff need_str_def obj_index_def split: if_splits)

lemma of_kind_snoc: "of_kind k (events @ [ev]) = of_kind k events @ (if fld ev ''ev'' = JStr k then [ev] else [])"
  by (simp add: of_kind_def)

lemma scan_event_kind: "scan_event s ev = Inr s' \<Longrightarrow>
  \<exists>kind. fld ev ''ev'' = JStr kind \<and> kind \<in> {''object_state'', ''op_begin'', ''op_end'', ''end'', ''marker''}"
  by (auto simp: scan_event_def rbind_Inr_iff obj_get_def Let_def split: if_splits)

lemma scan_event_scanned:
  assumes "scan_event s ev = Inr s'" "scanned events s"
  shows "scanned (events @ [ev]) s'"
proof -
  define s1 where "s1 = (if has_key ev ''producer_seq'' then s\<lparr>cs_seqs := cs_seqs s @ [fld ev ''producer_seq'']\<rparr> else s)"
  have s1: "cs_seqs s1 = map (\<lambda>ev. fld ev ''producer_seq'') (filter (\<lambda>ev. has_key ev ''producer_seq'') (events @ [ev]))"
    "cs_begins s1 = cs_begins s" "cs_ends s1 = cs_ends s" "cs_ended s1 = cs_ended s"
    using assms(2) by (simp_all add: s1_def scanned_def)
  obtain kind where k: "fld ev ''ev'' = JStr kind" "kind \<in> {''object_state'', ''op_begin'', ''op_end'', ''end'', ''marker''}"
    using scan_event_kind [OF assms(1)] by (elim exE conjE)
  have run: "scan_event s ev = (if \<not> is_obj ev then Inl AttributeError
      else if kind = ''object_state'' then rbind (obj_get_default ev ''live'' (JList [])) (\<lambda>live. rbind (py_iter live) (\<lambda>xs. Inr (s1\<lparr>cs_initial := cs_initial s1 @ xs\<rparr>)))
      else if kind = ''op_begin'' then rbind (add_event ''op_id begun twice'' (cs_begins s1) ev) (\<lambda>t. Inr (s1\<lparr>cs_begins := t\<rparr>))
      else if kind = ''op_end'' then rbind (add_event ''op_id ended twice'' (cs_ends s1) ev) (\<lambda>t. Inr (s1\<lparr>cs_ends := t\<rparr>))
      else if kind = ''end'' then Inr (s1\<lparr>cs_ended := Some ev\<rparr>)
      else if kind = ''marker'' then Inr s1 else Inl (CaptureError ''unknown event kind''))"
    unfolding scan_event_def Let_def s1_def [symmetric] obj_get_def k(1) json.inject by (cases "is_obj ev") (simp_all only: if_True if_False rbind_simps simp_thms json.inject)
  from k(2) consider "kind = ''object_state'' \<or> kind = ''marker''" | "kind = ''op_begin''" | "kind = ''op_end''" | "kind = ''end''"
    unfolding insert_iff empty_iff by (elim disjE) simp_all
  then show ?thesis
  proof cases
    case 1
    then have "cs_begins s' = cs_begins s1 \<and> cs_ends s' = cs_ends s1 \<and> cs_ended s' = cs_ended s1 \<and> cs_seqs s' = cs_seqs s1"
      using assms(1) [unfolded run] by (auto simp: rbind_Inr_iff split: if_splits)
    then show ?thesis using 1 assms(2) k(1) s1 by (auto simp: scanned_def of_kind_snoc)
  next
    case 2
    then obtain t where "add_event ''op_id begun twice'' (cs_begins s1) ev = Inr t" "s' = s1\<lparr>cs_begins := t\<rparr>"
      using assms(1) [unfolded run] by (auto simp: rbind_Inr_iff split: if_splits)
    then have "s' = s1\<lparr>cs_begins := cs_begins s1 @ [(the_str (fld ev ''op_id''), ev)]\<rparr>" using add_event_Inr by simp
    then show ?thesis using assms(2) by (simp add: scanned_def of_kind_snoc op_ids_def k(1) 2 s1)
  next
    case 3
    then obtain t where "add_event ''op_id ended twice'' (cs_ends s1) ev = Inr t" "s' = s1\<lparr>cs_ends := t\<rparr>"
      using assms(1) [unfolded run] by (auto simp: rbind_Inr_iff split: if_splits)
    then have "s' = s1\<lparr>cs_ends := cs_ends s1 @ [(the_str (fld ev ''op_id''), ev)]\<rparr>" using add_event_Inr by simp
    then show ?thesis using assms(2) by (simp add: scanned_def of_kind_snoc op_ids_def k(1) 3 s1)
  next
    case 4
    then have "s' = s1\<lparr>cs_ended := Some ev\<rparr>"
      using assms(1) [unfolded run] by (auto split: if_splits)
    then show ?thesis using assms(2) by (simp add: scanned_def of_kind_snoc k(1) 4 s1)
  qed
qed

lemma scan_scanned:
  assumes "mfold scan_event scan_start events = Inr s"
  shows "scanned events s"
  using assms
proof (rule mfold_rule [where I = scanned])
  show "scanned [] scan_start" by (simp add: scan_start_def scanned_def of_kind_def op_ids_def)
qed (rule scan_event_scanned)

lemma need_int_seqs:
  "mmap need_int (map (\<lambda>ev. fld ev ''producer_seq'') events) = Inr seqs \<Longrightarrow> seqs = map seq_of events"
  by (induction events arbitrary: seqs) (auto simp: rbind_Inr_iff need_int_def seq_of_def split: if_splits)

definition consecutive :: "int list \<Rightarrow> bool" where
  "consecutive xs \<longleftrightarrow> (\<exists>a. sort xs = map (\<lambda>i. a + int i) [0..<length xs])"

lemma no_gap_consecutive: "filter (\<lambda>(a, b). b \<noteq> a + 1) (zip s (tl s)) = [] \<longleftrightarrow> (\<exists>a. s = map (\<lambda>i. a + int i) [0..<length s])" for s :: "int list"
proof
  assume none: "filter (\<lambda>(a, b). b \<noteq> a + 1) (zip s (tl s)) = []"
  have step: "s ! Suc i = s ! i + 1" if "Suc i < length s" for i
  proof -
    have "(s ! i, tl s ! i) \<in> set (zip s (tl s))" using that by (auto simp: set_zip)
    with none show ?thesis using that by (auto simp: filter_empty_conv nth_tl)
  qed
  have "i < length s \<Longrightarrow> s ! i = s ! 0 + int i" for i by (induction i) (simp_all add: step)
  then have "s = map (\<lambda>i. s ! 0 + int i) [0..<length s]" by (intro nth_equalityI) simp_all
  then show "\<exists>a. s = map (\<lambda>i. a + int i) [0..<length s]" by blast
next
  assume "\<exists>a. s = map (\<lambda>i. a + int i) [0..<length s]"
  then obtain a where eq: "s = map (\<lambda>i. a + int i) [0..<length s]" by blast
  have at: "s ! i = a + int i" if "i < length s" for i using that by (subst eq) simp
  show "filter (\<lambda>(a, b). b \<noteq> a + 1) (zip s (tl s)) = []"
    by (auto simp: filter_empty_conv set_zip nth_tl at)
qed

lemma count_gaps_iff: "count_gaps xs = 0 \<longleftrightarrow> consecutive xs"
  using no_gap_consecutive [of "sort xs"] by (simp add: count_gaps_def consecutive_def Let_def)

lemma set_consecutive: "consecutive xs \<Longrightarrow> \<exists>a. set xs = {a..<a + int (length xs)}"
proof -
  assume "consecutive xs"
  then obtain a where "sort xs = map (\<lambda>i. a + int i) [0..<length xs]" by (auto simp: consecutive_def)
  then have "set xs = (\<lambda>i. a + int i) ` {0..<length xs}" by (metis set_sort set_map set_upt)
  also have "\<dots> = {a..<a + int (length xs)}"
  proof
    show "{a..<a + int (length xs)} \<subseteq> (\<lambda>i. a + int i) ` {0..<length xs}"
    proof
      fix k assume "k \<in> {a..<a + int (length xs)}"
      then have "k = a + int (nat (k - a))" "nat (k - a) \<in> {0..<length xs}" by auto
      then show "k \<in> (\<lambda>i. a + int i) ` {0..<length xs}" by blast
    qed
  qed auto
  finally show ?thesis by blast
qed

text \<open>The counters of the last end marker.\<close>

definition last_health :: "json list \<Rightarrow> json" where
  "last_health events = fld (last (of_kind ''end'' events)) ''health''"

lemma capture_notes_empty:
  assumes "scanned events s" "capture_health s gaps = Inr counters"
  shows "capture_notes show s counters gaps = [] \<longleftrightarrow> of_kind ''end'' events \<noteq> [] \<and>
    set (op_ids (of_kind ''op_begin'' events)) = set (op_ids (of_kind ''op_end'' events)) \<and>
    \<not> truthy (fld (last_health events) ''dropped'') \<and> gaps = 0"
proof -
  have ended: "cs_ended s = (if of_kind ''end'' events = [] then None else Some (last (of_kind ''end'' events)))"
    and ids: "map fst (cs_begins s) = op_ids (of_kind ''op_begin'' events)" "map fst (cs_ends s) = op_ids (of_kind ''op_end'' events)"
    using assms(1) by (simp_all add: scanned_def)
  have "unmatched_ends s = [] \<and> open_ops s = [] \<longleftrightarrow> set (op_ids (of_kind ''op_begin'' events)) = set (op_ids (of_kind ''op_end'' events))"
    unfolding unmatched_ends_def open_ops_def ids filter_empty_conv by auto
  moreover have no_obj: "fld JNull k = JNull" "fld (JList l) k = JNull" "fld (JStr t) k = JNull" "fld (JObj []) k = JNull" for k l t
    by (simp_all add: fld_def)
  have "fld counters ''dropped'' = fld (last_health events) ''dropped''" if "of_kind ''end'' events \<noteq> []"
    using assms(2) that
    by (auto simp: capture_health_def rbind_Inr_iff ended last_health_def fld_set no_obj split: json.splits if_splits list.splits)
  ultimately show ?thesis using ended by (auto simp: capture_notes_def)
qed

section \<open>From neighbours to order\<close>

definition dep_edges :: "json list \<Rightarrow> (string \<times> string) set" where
  "dep_edges ops = {(d, the_str (fld op ''op_id'')) | d op. op \<in> set ops \<and> d \<in> set (v2_deps op)}"

lemma last_on_index:
  assumes "i < j" "j \<le> length ops" "on_object oid (ops ! i)"
  obtains k where "i \<le> k" "k < j" "on_object oid (ops ! k)" "last_on (take j ops) oid = Some (the_str (fld (ops ! k) ''op_id''))"
proof -
  have "\<exists>k. i \<le> k \<and> k < j \<and> on_object oid (ops ! k) \<and> last_on (take j ops) oid = Some (the_str (fld (ops ! k) ''op_id''))"
    using assms(1,2)
  proof (induction j)
    case (Suc j)
    have step: "last_on (take (Suc j) ops) oid = (if on_object oid (ops ! j) then Some (the_str (fld (ops ! j) ''op_id'')) else last_on (take j ops) oid)"
      using Suc.prems by (simp add: take_Suc_conv_app_nth last_on_snoc)
    show ?case
    proof (cases "on_object oid (ops ! j)")
      case True
      then show ?thesis using step Suc.prems(1) by (intro exI [of _ j]) simp
    next
      case False
      then have "i < j" using Suc.prems(1) assms(3) by (metis less_Suc_eq)
      then show ?thesis using Suc step False by (metis Suc_leD less_SucI)
    qed
  qed simp
  then show ?thesis using that by blast
qed

lemma chained_order:
  assumes "chained ops" "i < j" "j < length ops" "on_object oid (ops ! i)" "on_object oid (ops ! j)"
  shows "(the_str (fld (ops ! i) ''op_id''), the_str (fld (ops ! j) ''op_id'')) \<in> (dep_edges ops)\<^sup>+"
  using assms(2,3,5)
proof (induction j rule: less_induct)
  case (less j)
  then obtain k where k: "i \<le> k" "k < j" "on_object oid (ops ! k)" "last_on (take j ops) oid = Some (the_str (fld (ops ! k) ''op_id''))"
    using last_on_index [of i j ops oid] assms(4) by auto
  then have "the_str (fld (ops ! k) ''op_id'') \<in> set (v2_deps (ops ! j))"
    using assms(1) less.prems by (simp add: chained_def)
  then have edge: "(the_str (fld (ops ! k) ''op_id''), the_str (fld (ops ! j) ''op_id'')) \<in> dep_edges ops"
    using less.prems(2) unfolding dep_edges_def by fastforce
  show ?case
  proof (cases "k = i")
    case False
    then have "(the_str (fld (ops ! i) ''op_id''), the_str (fld (ops ! k) ''op_id'')) \<in> (dep_edges ops)\<^sup>+"
      using less.IH [of k] k less.prems by simp
    then show ?thesis using edge by (rule trancl_into_trancl)
  qed (use edge in auto)
qed

lemma normalize_capture_inv:
  assumes "mfold (carry_live show) \<lparr>nm_intent = base, nm_versions = Map.empty, nm_last = Map.empty, nm_sidecar = []\<rparr> initial = Inr st0"
    and "mfold (carry_begin show expanded ends) st0 ordered = Inr st" and "v2_operations base = []"
  shows "norm_inv (fld base ''provenance'') st"
proof -
  have "norm_inv (fld base ''provenance'') st0"
    using assms(1) by (rule mfold_rule [where I = "\<lambda>_. norm_inv (fld base ''provenance'')"])
      (use assms(3) carry_live_inv in \<open>auto simp: norm_inv_def chained_def last_on_def\<close>)
  with assms(2) show ?thesis
    by (rule mfold_rule [where I = "\<lambda>_. norm_inv (fld base ''provenance'')"]) (rule carry_begin_inv)
qed

lemma new_intent_fields:
  assumes "new_intent level mapping timing engine status notes source = Inr base"
  shows "v2_operations base = []" "fld (fld (fld base ''provenance'') ''completeness'') ''status'' = JStr status"
  using assms by (auto simp: new_intent_def rbind_Inr_iff)

lemma capture_complete_cond:
  assumes "normalize_capture show line_text sha events path = Inr (intent, sidecar)"
  shows "fld (fld (fld intent ''provenance'') ''completeness'') ''status'' = JStr ''complete'' \<longleftrightarrow>
    of_kind ''end'' (tl events) \<noteq> [] \<and>
    set (op_ids (of_kind ''op_begin'' (tl events))) = set (op_ids (of_kind ''op_end'' (tl events))) \<and>
    \<not> truthy (fld (last_health (tl events)) ''dropped'') \<and> consecutive (seq_values (tl events))"
proof (rule normalize_capture_Inr [OF assms], goal_cases)
  case (1 start rest s seqs counters base st0 ordered expanded st)
  note scan = scan_scanned [OF 1(3)]
  have seqs: "seqs = seq_values rest"
    using 1(4) scan need_int_seqs by (simp add: scanned_def seq_values_def)
  have "fld (nm_intent st) ''provenance'' = fld base ''provenance''"
    using normalize_capture_inv [OF 1(7,8) new_intent_fields(1) [OF 1(6)]] by (simp add: norm_inv_def)
  then have "fld (fld (fld intent ''provenance'') ''completeness'') ''status'' = fld (fld (fld base ''provenance'') ''completeness'') ''status''"
    by (simp add: 1(11) add_note_def Let_def fld_set)
  also have "\<dots> = JStr (if capture_notes show s counters (count_gaps seqs) = [] then ''complete'' else ''partial'')"
    by (rule new_intent_fields(2) [OF 1(6)])
  finally show ?case
    using capture_notes_empty [OF scan 1(5), of "show"] by (simp add: 1(1) count_gaps_iff seqs)
qed

section \<open>The recorder and the normalizer together\<close>

lemma log_seq:
  assumes "log_inv r" "rc_enabled r" "x \<in> set (rc_log r)"
  shows "has_key x ''producer_seq''" "fld x ''producer_seq'' = JInt (seq_of x)"
    "y \<in> set (rc_log r) \<Longrightarrow> seq_of x = seq_of y \<Longrightarrow> x = y"
proof -
  have at: "\<exists>i<length (rc_log r). x = rc_log r ! i \<and> fld x ''producer_seq'' = JInt (int i + 1)" if "x \<in> set (rc_log r)" for x
    using assms(1,2) that by (auto simp: log_inv_def in_set_conv_nth)
  obtain i where i: "i < length (rc_log r)" "x = rc_log r ! i" "fld x ''producer_seq'' = JInt (int i + 1)" using at [OF assms(3)] by blast
  then show "has_key x ''producer_seq''" "fld x ''producer_seq'' = JInt (seq_of x)"
    using fld_nonnull_has_key [of x "''producer_seq''"] by (simp_all add: seq_of_def)
  assume "y \<in> set (rc_log r)" "seq_of x = seq_of y"
  then show "x = y" using at [of y] i by (auto simp: seq_of_def)
qed

lemma complete_covers:
  assumes "log_inv r" "rc_enabled r" "set events \<subseteq> set (rc_log r)" "events \<noteq> []" "consecutive (seq_values events)"
  shows "\<exists>a b. a \<le> b \<and> set events = {x \<in> set (rc_log r). a \<le> seq_of x \<and> seq_of x \<le> b}"
proof -
  have all: "filter (\<lambda>ev. has_key ev ''producer_seq'') events = events"
    using log_seq(1) [OF assms(1,2)] assms(3) by (auto simp: filter_id_conv)
  obtain a where a: "seq_of ` set events = {a..<a + int (length events)}"
    using set_consecutive [OF assms(5)] by (auto simp: seq_values_def all)
  have "x \<in> set events" if x: "x \<in> set (rc_log r)" "a \<le> seq_of x" "seq_of x < a + int (length events)" for x
  proof -
    have "seq_of x \<in> seq_of ` set events" unfolding a using x by simp
    then obtain y where "y \<in> set events" "seq_of x = seq_of y" by blast
    then show ?thesis using log_seq(3) [OF assms(1,2) x(1), of y] assms(3) by auto
  qed
  moreover have "a \<le> seq_of x \<and> seq_of x < a + int (length events)" if "x \<in> set events" for x
    using a that by (metis atLeastLessThan_iff image_eqI)
  ultimately have "set events = {x \<in> set (rc_log r). a \<le> seq_of x \<and> seq_of x \<le> a + int (length events) - 1}"
    using assms(3) by (intro set_eqI) force
  then show ?thesis using assms(4) by (intro exI [of _ a] exI [of _ "a + int (length events) - 1"]) (cases events; simp)
qed

section \<open>Runs of the recorder as sequences of actions\<close>

datatype action = Live "live_item list" int | Begin begin_args int | End end_args int | Advance nat | Close int | Drain | Sentinel

fun act :: "(json \<Rightarrow> bool) \<Rightarrow> action \<Rightarrow> recorder \<Rightarrow> recorder option" where
  "act writable (Live live ts) r = Some (rec_object_state live ts r)"
| "act writable (Begin a ts) r = Some (fst (rec_begin a ts r))"
| "act writable (End a ts) r = Some (rec_end a ts r)"
| "act writable (Advance i) r = (if i < length (rc_pending r) then Some (advance i r) else None)"
| "act writable (Close ts) r = Some (close_mark ts r)"
| "act writable Drain r = (if rc_writing r \<and> rc_queue r \<noteq> [] then Some (drain writable r) else None)"
| "act writable Sentinel r = (if rc_enabled r \<and> rc_closed r \<and> \<not> rc_sentinel r \<and> \<not> queue_full r then Some (put_sentinel r) else None)"

fun play :: "(json \<Rightarrow> bool) \<Rightarrow> action list \<Rightarrow> recorder \<Rightarrow> recorder option" where
  "play writable [] r = Some r"
| "play writable (a # as) r = (case act writable a r of Some r' \<Rightarrow> play writable as r' | None \<Rightarrow> None)"

lemma act_step: "act writable a r = Some r' \<Longrightarrow> rec_step writable r r'"
  by (cases a) (auto intro: rec_step.intros closing_step.intros split: if_splits)

lemma play_steps: "play writable as r = Some r' \<Longrightarrow> (rec_step writable)\<^sup>*\<^sup>* r r'"
proof (induction "as" arbitrary: r)
  case (Cons a as)
  then obtain s where "act writable a r = Some s" "play writable as s = Some r'" by (auto split: option.splits)
  then show ?case using Cons.IH act_step by (meson converse_rtranclp_into_rtranclp)
qed simp

lemma play_reachable: "play writable as example_recorder = Some r \<Longrightarrow> reachable writable r"
  using play_steps example_fresh unfolding reachable_def by blast

section \<open>An example\<close>

text \<open>
  An engine reports one live object, stores another and loads it again, and closes the capture; the
  queue holds two records, so the writer runs in between.
\<close>

definition example_live :: "live_item list" where
  "example_live = [\<lparr>li_object_id = JStr ''old'', li_version = JInt 1, li_representation = JNull, li_bytes = JInt 16, li_tier = JStr ''storage''\<rparr>]"

definition example_begin :: "string \<Rightarrow> begin_args" where
  "example_begin verb = \<lparr>ba_op = JStr verb, ba_object_id = JStr ''new'', ba_version = JNull, ba_representation = JNull, ba_stream = JStr ''s0'',
     ba_batch_id = JNull, ba_range = JNull, ba_requested_bytes = JInt 8, ba_deps = [], ba_items = None, ba_op_id = Some verb\<rparr>"

definition example_end :: "string \<Rightarrow> string \<Rightarrow> end_args" where
  "example_end verb outcome = \<lparr>ea_op_id = verb, ea_outcome = JStr outcome, ea_completed_bytes = JInt 8, ea_items = None\<rparr>"

definition example_actions :: "action list" where
  "example_actions = [Drain, Live example_live 1, Advance 0, Advance 0, Drain,
     Begin (example_begin ''store'') 2, Advance 0, Advance 0, Drain, End (example_end ''store'' ''success'') 3, Advance 0, Advance 0, Drain,
     Begin (example_begin ''load'') 4, Advance 0, Advance 0, Drain, End (example_end ''load'' ''success'') 5, Advance 0, Advance 0, Drain,
     Close 6, Drain, Sentinel, Drain]"

definition example_run :: "(json \<Rightarrow> bool) \<Rightarrow> recorder" where
  "example_run writable = (case play writable example_actions example_recorder of Some r \<Rightarrow> r | None \<Rightarrow> example_recorder)"

definition example_sha :: "string \<Rightarrow> string" where
  "example_sha t = replicate 64 (CHR ''a'')"

definition example_normalized :: "(json \<Rightarrow> bool) \<Rightarrow> (json \<times> string) result" where
  "example_normalized writable = normalize_capture (\<lambda>_. []) (\<lambda>_. ''{}'') example_sha (rc_written (example_run writable)) None"

definition no_states :: "json \<Rightarrow> bool" where
  "no_states ev \<longleftrightarrow> fld ev ''ev'' \<noteq> JStr ''object_state''"

lemma example_plays: "play writable example_actions example_recorder = Some (example_run writable)"
  if "case play writable example_actions example_recorder of Some _ \<Rightarrow> True | None \<Rightarrow> False" for writable
  using that by (auto simp: example_run_def split: option.splits)

lemma example_runs:
  "reachable (\<lambda>_. True) (example_run (\<lambda>_. True))" "reachable no_states (example_run no_states)"
  by (rule play_reachable, rule example_plays, code_simp)+

definition example_intent :: "(json \<Rightarrow> bool) \<Rightarrow> json" where
  "example_intent writable = (case example_normalized writable of Inr (intent, _) \<Rightarrow> intent | Inl _ \<Rightarrow> JNull)"

lemma example_enabled: "rc_enabled (example_run (\<lambda>_. True))"
  by code_simp

lemma example_normalizes:
  "example_normalized (\<lambda>_. True) = Inr (example_intent (\<lambda>_. True), sidecar_text (\<lambda>_. ''{}'') [JNull, JNull])"
  by code_simp

lemma example_complete:
  "fld (fld (fld (example_intent (\<lambda>_. True)) ''provenance'') ''completeness'') ''status'' = JStr ''complete''"
  by code_simp

lemma example_ops:
  "map (\<lambda>op. (fld op ''object_id'', fld op ''op_id'')) (v2_operations (example_intent (\<lambda>_. True))) =
     [(JStr ''new'', JStr ''store''), (JStr ''new'', JStr ''load'')]"
  by code_simp

lemma example_operations:
  obtains op1 op2 where "v2_operations (example_intent (\<lambda>_. True)) = [op1, op2]" "on_object ''new'' op1" "on_object ''new'' op2"
    "fld op1 ''op_id'' = JStr ''store''" "fld op2 ''op_id'' = JStr ''load''"
  using example_ops by (auto simp: map_eq_Cons_conv on_object_def)

lemma lost_run:
  "(\<lambda>r. (rc_queue r, rc_errors r, map (\<lambda>ev. fld ev ''ev'') (rc_log r), map (\<lambda>ev. fld ev ''ev'') (rc_written r))) (example_run no_states) =
     ([], 1, map JStr [''start'', ''object_state'', ''op_begin'', ''op_end'', ''op_begin'', ''op_end'', ''end''],
      map JStr [''start'', ''op_begin'', ''op_end'', ''op_begin'', ''op_end'', ''end''])"
  by code_simp

lemma lost_intent:
  "(\<lambda>intent. (fld (fld intent ''health'') ''errors'', fld (fld intent ''initial_state'') ''live'', fld (fld intent ''provenance'') ''completeness''))
     (example_intent no_states) =
     (JInt 1, JList [], JObj [(''status'', JStr ''complete''), (''notes'', JList [JStr ORDER_NOTE])])"
  by code_simp

section \<open>Properties\<close>

text \<open>
  C9. What normalizing a capture promises about order. Of any two operations on one object the later
  one depends on the earlier one, directly or through others, so that no replay that follows the
  dependencies can swap them; the sidecar has one line for each operation, in the same order, and its
  digest is the one the record names.
\<close>

theorem normalize_capture_order:
  assumes "normalize_capture show line_text sha events path = Inr (intent, sidecar)"
  shows "(\<forall>i j oid. i < j \<and> j < length (v2_operations intent) \<and> on_object oid (v2_operations intent ! i) \<and> on_object oid (v2_operations intent ! j) \<longrightarrow>
      (the_str (fld (v2_operations intent ! i) ''op_id''), the_str (fld (v2_operations intent ! j) ''op_id'')) \<in> (dep_edges (v2_operations intent))\<^sup>+) \<and>
    (\<exists>entries. sidecar = sidecar_text line_text entries \<and>
      map (\<lambda>s. fld s ''op_id'') entries = map (\<lambda>op. fld op ''op_id'') (v2_operations intent)) \<and>
    fld (fld intent ''timing'') ''sidecar_sha256'' = JStr (sha sidecar)"
proof (rule normalize_capture_Inr [OF assms], goal_cases)
  case (1 start rest s seqs counters base st0 ordered expanded st)
  note inv = normalize_capture_inv [OF 1(7,8) new_intent_fields(1) [OF 1(6)]]
  have "chained (v2_operations intent)" "map (\<lambda>s. fld s ''op_id'') (nm_sidecar st) = map (\<lambda>op. fld op ''op_id'') (v2_operations intent)"
    using inv 1(12) by (simp_all add: norm_inv_def)
  then show ?case using chained_order 1(10,13) by blast
qed

theorem normalize_capture_order_witness:
  "(''store'', ''load'') \<in> (dep_edges (v2_operations (example_intent (\<lambda>_. True))))\<^sup>+"
proof -
  note order = normalize_capture_order [OF example_normalizes [unfolded example_normalized_def]]
  obtain op1 op2 where ops: "v2_operations (example_intent (\<lambda>_. True)) = [op1, op2]" "on_object ''new'' op1" "on_object ''new'' op2"
    "fld op1 ''op_id'' = JStr ''store''" "fld op2 ''op_id'' = JStr ''load''"
    by (rule example_operations)
  show ?thesis
    using conjunct1 [OF order, rule_format, of 0 "Suc 0" "''new''"] by (simp add: ops)
qed

text \<open>
  C20. When a normalized capture counts as complete: exactly when its end marker is there, every
  operation that began ended and the other way round, the recorder counted no dropped event, and the
  sequence numbers after the start have no gap.
\<close>

theorem capture_complete_iff:
  assumes "normalize_capture show line_text sha events path = Inr (intent, sidecar)"
  shows "fld (fld (fld intent ''provenance'') ''completeness'') ''status'' = JStr ''complete'' \<longleftrightarrow>
    of_kind ''end'' (tl events) \<noteq> [] \<and>
    set (op_ids (of_kind ''op_begin'' (tl events))) = set (op_ids (of_kind ''op_end'' (tl events))) \<and>
    \<not> truthy (fld (last_health (tl events)) ''dropped'') \<and> consecutive (seq_values (tl events))"
  using assms by (rule capture_complete_cond)

theorem capture_complete_iff_witness: "consecutive (seq_values (tl (rc_written (example_run (\<lambda>_. True)))))"
  using capture_complete_iff [OF example_normalizes [unfolded example_normalized_def]] example_complete by simp

text \<open>
  C2. What completeness means for the engine that was captured. However the engine's threads, the
  writer and the closing thread interleave, and whatever the queue dropped or the file refused, a
  capture that normalizes as complete has every record that was issued between the first record after
  the start and its last one: the file is exactly that stretch of what was issued, and nothing inside
  it is missing.
\<close>

theorem complete_capture_covers:
  assumes "reachable writable r" "rc_enabled r"
    and "normalize_capture show line_text sha (rc_written r) path = Inr (intent, sidecar)"
    and "fld (fld (fld intent ''provenance'') ''completeness'') ''status'' = JStr ''complete''"
  shows "\<exists>a b. a \<le> b \<and> set (tl (rc_written r)) = {x \<in> set (rc_log r). a \<le> seq_of x \<and> seq_of x \<le> b}"
proof (rule complete_covers)
  show "log_inv r" "rc_enabled r" using reachable_inv [OF assms(1)] assms(2) by (simp_all add: rec_inv_def)
  then have "set (rc_written r) \<subseteq> set (rc_log r)" by (simp add: log_inv_def)
  moreover have "set (tl (rc_written r)) \<subseteq> set (rc_written r)" by (cases "rc_written r") auto
  ultimately show "set (tl (rc_written r)) \<subseteq> set (rc_log r)" by (rule subset_trans [rotated])
  show "tl (rc_written r) \<noteq> []" "consecutive (seq_values (tl (rc_written r)))"
    using capture_complete_cond [OF assms(3)] assms(4) by (auto simp: of_kind_def)
qed

theorem complete_capture_covers_witness:
  "let r = example_run (\<lambda>_. True) in \<exists>a b. a \<le> b \<and> set (tl (rc_written r)) = {x \<in> set (rc_log r). a \<le> seq_of x \<and> seq_of x \<le> b}"
  unfolding Let_def
  by (rule complete_capture_covers [OF example_runs(1) example_enabled example_normalizes [unfolded example_normalized_def] example_complete])


end
