(* ===== verification/Coordinator.thy ===== *)
theory Coordinator
  imports Workload_V3 Content_Profile Py_Float "HOL-Library.Char_ord" "HOL-Library.List_Lexorder" "HOL-Library.Product_Lexorder"
begin

text \<open>
  Running one workload from many clients (\<open>coordinator.py\<close>): message framing, sharding by stream, the
  clock probe, the coordinator's threads as a step relation, the merged ledger and its pooled metrics,
  and the client's side of the protocol.

  The encoder and decoder of a message, the text of a message and of a sorted list of streams are
  parameters. A socket is the list of pieces in which the bytes of the peer arrive; it is closed after
  the last one. The readings of the clock and the peers' answers are arguments of the steps. A send
  that fails raises out of \<open>run\<close>, which then returns no status: there is no step for it. Operation
  ids and client ids are strings, which the validators enforce for a workload; another value raises
  \<open>TypeError\<close> here. A stream may be any value that is not null; equal numbers of different types
  are different streams here. Times in rows are integers.
\<close>

section \<open>Framing\<close>

definition pack_u32 :: "nat \<Rightarrow> bytes" where
  "pack_u32 n = map (\<lambda>i. word_of_nat (n div 256 ^ i)) [3, 2, 1, 0]"

definition unpack_u32 :: "bytes \<Rightarrow> nat" where
  "unpack_u32 bs = foldl (\<lambda>n b. n * 256 + unat b) 0 bs"

definition send :: "(json \<Rightarrow> bytes) \<Rightarrow> json \<Rightarrow> bytes result" where
  "send dumps v =
     (let data = dumps v in
      rbind (require (length data < 2 ^ 32) StructError) (\<lambda>_. Inr (pack_u32 (length data) @ data)))"

text \<open>\<open>sock.recv(n)\<close>: at most \<open>n\<close> bytes of what has arrived, and nothing once the peer has closed.\<close>

fun sock_recv :: "nat \<Rightarrow> bytes list \<Rightarrow> bytes \<times> bytes list" where
  "sock_recv n [] = ([], [])"
| "sock_recv n (piece # sock) = (take n piece, if length piece \<le> n then sock else drop n piece # sock)"

function recv_exact :: "nat \<Rightarrow> bytes \<Rightarrow> bytes list \<Rightarrow> bytes option \<times> bytes list" where
  "recv_exact n buf sock =
     (if length buf < n then
        (case sock_recv (n - length buf) sock of (chunk, sock') \<Rightarrow>
           if chunk = [] then (None, sock') else recv_exact n (buf @ chunk) sock')
      else (Some buf, sock))"
  by pat_completeness auto
termination by (relation "measure (\<lambda>(n, buf, sock). n - length buf)") (auto intro!: diff_less_mono2)

declare recv_exact.simps [simp del]

definition recv :: "(bytes \<Rightarrow> json option) \<Rightarrow> bytes list \<Rightarrow> (json option \<times> bytes list) result" where
  "recv loads sock =
     (case recv_exact 4 [] sock of
        (None, sock) \<Rightarrow> Inr (None, sock)
      | (Some head, sock) \<Rightarrow>
          (case recv_exact (unpack_u32 head) [] sock of
             (None, sock) \<Rightarrow> Inr (None, sock)
           | (Some body, sock) \<Rightarrow>
               (case loads body of Some v \<Rightarrow> Inr (Some v, sock) | None \<Rightarrow> Inl (ValueError ''not JSON''))))"

section \<open>Sharding\<close>

definition name_field :: "json \<Rightarrow> string \<Rightarrow> string result" where
  "name_field v k = rbind (obj_index v k) (\<lambda>w. if is_str w then Inr (the_str w) else Inl TypeError)"

definition add_stream :: "json list \<Rightarrow> json \<Rightarrow> json list result" where
  "add_stream streams op = rbind (obj_index op ''stream'') (\<lambda>s. Inr (if s \<in> set streams then streams else streams @ [s]))"

definition round_robin :: "string list \<Rightarrow> json list \<Rightarrow> (json \<times> string) list result" where
  "round_robin clients streams =
     rbind (require (streams = [] \<or> clients \<noteq> []) ZeroDivisionError) (\<lambda>_.
     Inr (map (\<lambda>(i, s). (s, clients ! (i mod length clients))) (enumerate 0 streams)))"

definition dict_index :: "('k \<times> 'a) list \<Rightarrow> 'k \<Rightarrow> 'a result" where
  "dict_index d k = (case map_of d k of Some v \<Rightarrow> Inr v | None \<Rightarrow> Inl KeyError)"

definition add_owner :: "(json \<times> string) list \<Rightarrow> (string \<times> string) list \<Rightarrow> json \<Rightarrow> (string \<times> string) list result" where
  "add_owner assignment owner op =
     rbind (name_field op ''op_id'') (\<lambda>i. rbind (obj_index op ''stream'') (\<lambda>s.
     rbind (dict_index assignment s) (\<lambda>c. Inr (AList.update i c owner))))"

definition cross_dep :: "(string \<times> string) list \<Rightarrow> json \<Rightarrow> (string \<times> string) list \<Rightarrow> json \<Rightarrow> (string \<times> string) list result" where
  "cross_dep owner op cross d =
     rbind (name_field d ''op'') (\<lambda>dep. rbind (dict_index owner dep) (\<lambda>there.
     rbind (name_field op ''op_id'') (\<lambda>i. rbind (dict_index owner i) (\<lambda>here.
     Inr (if there \<noteq> here then cross @ [(i, dep)] else cross)))))"

definition cross_deps :: "(string \<times> string) list \<Rightarrow> (string \<times> string) list \<Rightarrow> json \<Rightarrow> (string \<times> string) list result" where
  "cross_deps owner cross op =
     rbind (obj_index op ''deps'') (\<lambda>v. rbind (py_iter v) (\<lambda>deps. mfold (cross_dep owner op) cross deps))"

definition renumber :: "json list \<Rightarrow> json list" where
  "renumber ops = map (\<lambda>(i, op). obj_set op ''seq'' (JInt (int i))) (enumerate 0 ops)"

text \<open>Whether \<open>sorted\<close> can compare the streams; the parameter renders the sorted list.\<close>

definition sortable :: "json list \<Rightarrow> bool" where
  "sortable xs \<longleftrightarrow> length xs \<le> 1 \<or> list_all is_str xs \<or> list_all (\<lambda>x. num_of x \<noteq> None) xs"

definition shard_note :: "(json list \<Rightarrow> string) \<Rightarrow> (json \<times> string) list \<Rightarrow> string \<Rightarrow> string result" where
  "shard_note sorted_text assignment c =
     (let mine = map fst (filter (\<lambda>(s, v). v = c) assignment) in
      rbind (require (sortable mine) TypeError) (\<lambda>_. Inr (''shard for client '' @ c @ '': streams '' @ sorted_text mine)))"

definition shard_for ::
  "(json list \<Rightarrow> string) \<Rightarrow> json \<Rightarrow> json list \<Rightarrow> (json \<times> string) list \<Rightarrow> (string \<times> string) list \<Rightarrow> string \<Rightarrow> json result" where
  "shard_for sorted_text wl ops assignment owner c =
     (let mine = filter (\<lambda>op. map_of owner (the_str (fld op ''op_id'')) = Some c) ops;
          s = obj_set wl ''operations'' (JList (renumber mine)) in
      rbind (obj_index s ''provenance'') (\<lambda>prov. rbind (obj_index prov ''completeness'') (\<lambda>comp.
      rbind (obj_index comp ''notes'') (\<lambda>v. rbind (py_iter v) (\<lambda>notes.
      rbind (shard_note sorted_text assignment c) (\<lambda>text_of_shard.
      validate_workload (obj_set s ''provenance'' (obj_set prov ''completeness'' (obj_set comp ''notes''
        (JList (notes @ [JStr text_of_shard])))))))))))"

definition add_shard ::
  "(json list \<Rightarrow> string) \<Rightarrow> json \<Rightarrow> json list \<Rightarrow> (json \<times> string) list \<Rightarrow> (string \<times> string) list \<Rightarrow>
     (string \<times> json) list \<Rightarrow> string \<Rightarrow> (string \<times> json) list result" where
  "add_shard sorted_text wl ops assignment owner shards c =
     rbind (shard_for sorted_text wl ops assignment owner c) (\<lambda>s. Inr (AList.update c s shards))"

definition shard_workload ::
  "(json list \<Rightarrow> string) \<Rightarrow> json \<Rightarrow> string list \<Rightarrow> (json \<times> string) list option \<Rightarrow>
     ((string \<times> json) list \<times> (json \<times> string) list) result" where
  "shard_workload sorted_text wl clients assignment =
     rbind (obj_index wl ''operations'') (\<lambda>v. rbind (py_iter v) (\<lambda>ops.
     rbind (mfold add_stream [] ops) (\<lambda>streams.
     rbind (case assignment of Some a \<Rightarrow> Inr a | None \<Rightarrow> round_robin clients streams) (\<lambda>assignment.
     rbind (require (list_all hashable streams) TypeError) (\<lambda>_.
     rbind (require (set (map fst assignment) \<subseteq> set streams) (ValueError ''assignment names streams not in the workload'')) (\<lambda>_.
     rbind (mfold (add_owner assignment) [] ops) (\<lambda>owner.
     rbind (mfold (cross_deps owner) [] ops) (\<lambda>cross.
     rbind (require (cross = []) (CrossShardError ''cross-shard dependencies need an acknowledgement relay'')) (\<lambda>_.
     rbind (mfold (add_shard sorted_text wl ops assignment owner) [] clients) (\<lambda>shards.
     Inr (shards, assignment)))))))))))"

section \<open>The clock probe\<close>

definition PROBES :: nat where "PROBES = 25"

record clock_est =
  ce_offset :: int
  ce_uncertainty :: int
  ce_min_rtt :: int
  ce_median_rtt :: int
  ce_probes :: nat
  ce_end_offset :: "int option"
  ce_drift :: "int option"

text \<open>\<open>not r or r.get("msg") != kind\<close>, negated.\<close>

definition msg_is :: "json option \<Rightarrow> string \<Rightarrow> bool result" where
  "msg_is r kind = (case r of
      None \<Rightarrow> Inr False
    | Some m \<Rightarrow> if \<not> truthy m then Inr False else rbind (obj_get m ''msg'') (\<lambda>v. Inr (v = JStr kind)))"

text \<open>One round trip: the clock before the ping, the answer, the clock after it.\<close>

definition probe_once :: "(int \<times> int) list \<Rightarrow> int \<times> json option \<times> int \<Rightarrow> (int \<times> int) list result" where
  "probe_once samples trip = (case trip of (t0, r, t1) \<Rightarrow>
     rbind (case r of None \<Rightarrow> Inr False | Some m \<Rightarrow> rbind (obj_get m ''msg'') (\<lambda>v. Inr (v = JStr ''pong''))) (\<lambda>good.
     rbind (require good (RuntimeError ''bad pong'')) (\<lambda>_.
     let rtt = t1 - t0 in
     rbind (obj_index (the r) ''t_client'') (\<lambda>t.
     rbind (if is_int t then Inr (the_int t) else Inl TypeError) (\<lambda>t_client.
     Inr (samples @ [(rtt, t_client - (t0 + rtt div 2))]))))))"

definition probe_clock :: "(nat \<Rightarrow> int \<times> json option \<times> int) \<Rightarrow> clock_est result" where
  "probe_clock trip =
     rbind (mfold probe_once [] (map trip [0..<PROBES])) (\<lambda>samples.
     let best = Min (set samples) in
     Inr \<lparr>ce_offset = snd best, ce_uncertainty = fst best div 2, ce_min_rtt = fst best,
       ce_median_rtt = sort (map fst samples) ! (PROBES div 2), ce_probes = PROBES, ce_end_offset = None, ce_drift = None\<rparr>)"

section \<open>The coordinator\<close>

datatype phase = Waiting | Collecting string "string list" | Finished string

record coord =
  co_clients :: "string list"
  co_shards :: "(string \<times> json) list"
  co_assignment :: "(json \<times> string) list"
  co_run_id :: string
  co_profile :: json
  co_content :: json
  co_conns :: "string list"
  co_answering :: "string list"
  co_hello :: "(string \<times> json) list"
  co_clock :: "(string \<times> clock_est) list"
  co_results :: "(string \<times> json) list"
  co_failures :: "(string \<times> string) list"
  co_ready_count :: nat
  co_ready_event :: bool
  co_phase :: phase
  co_start :: int
  co_reported :: "(string \<times> string) list option"
  co_rows :: "json list"

definition new_coord ::
  "(json list \<Rightarrow> string) \<Rightarrow> json \<Rightarrow> string list \<Rightarrow> (json \<times> string) list option \<Rightarrow> string \<Rightarrow> json \<Rightarrow> json \<Rightarrow> coord result" where
  "new_coord sorted_text wl clients assignment run_id profile cont =
     rbind (shard_workload sorted_text wl clients assignment) (\<lambda>(shards, assignment).
     Inr \<lparr>co_clients = clients, co_shards = shards, co_assignment = assignment, co_run_id = run_id, co_profile = profile, co_content = cont,
       co_conns = [], co_answering = [], co_hello = [], co_clock = [], co_results = [], co_failures = [], co_ready_count = 0,
       co_ready_event = False, co_phase = Waiting, co_start = 0, co_reported = None, co_rows = []\<rparr>)"

text \<open>
  The first half of \<open>_serve_client\<close>, up to the shard it sends, and the messages it sends. A thread that
  raises ends without changing anything more: \<open>send_ok\<close> says whether the rejection could be sent.
\<close>

definition claim :: "bool \<Rightarrow> json option \<Rightarrow> coord \<Rightarrow> coord \<times> json list" where
  "claim send_ok r co = (case msg_is r ''hello'' of
      Inr True \<Rightarrow>
        (case name_field (the r) ''client'' of
           Inl _ \<Rightarrow> (co, [])
         | Inr c \<Rightarrow>
             if c \<notin> set (map fst (co_shards co)) then
               (co, [JObj [(''msg'', JStr ''reject''), (''reason'', JStr (''unknown client '' @ c))]])
             else if c \<in> set (co_conns co) then
               (if send_ok then co\<lparr>co_failures := AList.update c ''duplicate shard claim'' (co_failures co)\<rparr> else co,
                [JObj [(''msg'', JStr ''reject''), (''reason'', JStr (''duplicate client '' @ c))]])
             else
               (co\<lparr>co_conns := co_conns co @ [c], co_answering := co_answering co @ [c], co_hello := AList.update c (the r) (co_hello co)\<rparr>,
                [JObj [(''msg'', JStr ''shard''), (''run_id'', JStr (co_run_id co)), (''client'', JStr c),
                   (''workload'', the (map_of (co_shards co) c)), (''profile'', co_profile co), (''content'', co_content co)]]))
    | _ \<Rightarrow> (co, []))"

text \<open>The second half: the client's answer to its shard, and the probe of its clock.\<close>

definition answer :: "(json option \<Rightarrow> string) \<Rightarrow> string \<Rightarrow> json option \<Rightarrow> (nat \<Rightarrow> int \<times> json option \<times> int) \<Rightarrow> coord \<Rightarrow> coord" where
  "answer text_of c r trip co =
     (let co = co\<lparr>co_answering := removeAll c (co_answering co)\<rparr> in
      case msg_is r ''ready'' of
        Inl _ \<Rightarrow> co
      | Inr False \<Rightarrow> co\<lparr>co_failures := AList.update c (''not ready: '' @ text_of r) (co_failures co)\<rparr>
      | Inr True \<Rightarrow>
          (case probe_clock trip of
             Inl _ \<Rightarrow> co
           | Inr est \<Rightarrow> co\<lparr>co_clock := AList.update c est (co_clock co),
               co_hello := AList.update c (obj_set (the (map_of (co_hello co) c)) ''ready'' (the r)) (co_hello co),
               co_ready_count := co_ready_count co + 1,
               co_ready_event := co_ready_event co \<or> co_ready_count co + 1 = length (co_clients co)\<rparr>))"

definition missing :: "coord \<Rightarrow> string list" where
  "missing co = filter (\<lambda>c. c \<notin> set (co_conns co)) (co_clients co)"

text \<open>\<open>run\<close> once the wait for the clients is over, by the event or by the timeout.\<close>

definition decide :: "int \<Rightarrow> coord \<Rightarrow> coord" where
  "decide now co =
     (if missing co \<noteq> [] \<or> co_failures co \<noteq> [] \<or> \<not> co_ready_event co then
        co\<lparr>co_phase := Finished ''partial'', co_rows := [],
          co_reported := Some (foldl (\<lambda>d c. AList.update c ''never connected'' d) (co_failures co) (missing co))\<rparr>
      else co\<lparr>co_start := now, co_phase := Collecting ''complete'' (co_conns co)\<rparr>)"

definition end_clock :: "clock_est \<Rightarrow> clock_est \<Rightarrow> clock_est" where
  "end_clock est last_est = est\<lparr>ce_end_offset := Some (ce_offset last_est), ce_drift := Some (ce_offset last_est - ce_offset est)\<rparr>"

definition collect :: "(json option \<Rightarrow> string) \<Rightarrow> json option \<Rightarrow> (nat \<Rightarrow> int \<times> json option \<times> int) \<Rightarrow> coord \<Rightarrow> coord result" where
  "collect text_of r trip co = (case co_phase co of
      Collecting status (c # rest) \<Rightarrow>
        rbind (msg_is r ''done'') (\<lambda>good.
        if \<not> good then
          Inr (co\<lparr>co_failures := AList.update c (''no result: '' @ text_of r) (co_failures co), co_phase := Collecting ''partial'' rest\<rparr>)
        else
          let co = co\<lparr>co_results := AList.update c (the r) (co_results co), co_phase := Collecting status rest\<rparr> in
          if truthy (fld (the r) ''keep_open'') then
            rbind (probe_clock trip) (\<lambda>last_est. rbind (dict_index (co_clock co) c) (\<lambda>est.
            Inr (co\<lparr>co_clock := AList.update c (end_clock est last_est) (co_clock co)\<rparr>)))
          else Inr co)
    | _ \<Rightarrow> Inr co)"

section \<open>Merging\<close>

definition TIME_KEYS :: "string list" where "TIME_KEYS = [''release_ns'', ''eligible_ns'', ''submit_ns'', ''complete_ns'']"

definition coord_time :: "int \<Rightarrow> int \<Rightarrow> json \<Rightarrow> json \<Rightarrow> string \<Rightarrow> json result" where
  "coord_time off start t0 row k =
     (if fld row k = JNull then Inr row
      else rbind (py_add (fld row k) t0) (\<lambda>v. rbind (py_add v (JInt (- off))) (\<lambda>v. rbind (py_add v (JInt (- start))) (\<lambda>v.
           Inr (obj_set row (''coord_'' @ k) v)))))"

definition merge_row :: "string \<Rightarrow> int \<Rightarrow> int \<Rightarrow> json \<Rightarrow> json \<Rightarrow> json result" where
  "merge_row c off start t0 row =
     rbind (require (is_obj row) TypeError) (\<lambda>_. mfold (coord_time off start t0) (obj_set row ''client'' (JStr c)) TIME_KEYS)"

definition merge_client :: "(string \<times> clock_est) list \<Rightarrow> int \<Rightarrow> json list \<Rightarrow> string \<times> json \<Rightarrow> json list result" where
  "merge_client clocks start rows result = (case result of (c, r) \<Rightarrow>
     rbind (dict_index clocks c) (\<lambda>est.
     rbind (obj_index r ''start_client_ns'') (\<lambda>t0.
     rbind (obj_index r ''rows'') (\<lambda>v. rbind (py_iter v) (\<lambda>theirs.
     rbind (mmap (merge_row c (ce_offset est) start t0) theirs) (\<lambda>merged. Inr (rows @ merged)))))))"

definition merge :: "coord \<Rightarrow> json list result" where
  "merge co = mfold (merge_client (co_clock co) (co_start co)) [] (co_results co)"

text \<open>The end of \<open>run\<close>, once every client has been heard.\<close>

definition finish :: "coord \<Rightarrow> coord result" where
  "finish co = (case co_phase co of
      Collecting status [] \<Rightarrow>
        rbind (merge co) (\<lambda>rows.
        if co_failures co \<noteq> [] then
          Inr (co\<lparr>co_reported := Some (co_failures co), co_phase := Finished ''partial'', co_rows := rows\<rparr>)
        else Inr (co\<lparr>co_phase := Finished status, co_rows := rows\<rparr>))
    | _ \<Rightarrow> Inr co)"

inductive coord_step :: "(json option \<Rightarrow> string) \<Rightarrow> coord \<Rightarrow> coord \<Rightarrow> bool" for text_of where
  claimed: "coord_step text_of co (fst (claim send_ok r co))"
| answered: "c \<in> set (co_answering co) \<Longrightarrow> coord_step text_of co (answer text_of c r trip co)"
| decided: "co_phase co = Waiting \<Longrightarrow> coord_step text_of co (decide now co)"
| collected: "co_phase co = Collecting status (c # rest) \<Longrightarrow> collect text_of r trip co = Inr co' \<Longrightarrow> coord_step text_of co co'"
| finished: "co_phase co = Collecting status [] \<Longrightarrow> finish co = Inr co' \<Longrightarrow> coord_step text_of co co'"

section \<open>Pooled metrics\<close>

definition pooled_pct :: "int list \<Rightarrow> rat \<Rightarrow> int option" where
  "pooled_pct v q = (if v = [] then None else Some (sort v ! min (length v - 1) (nat (trunc (fl (q * fl (of_nat (length v))))))))"

definition int_field :: "json \<Rightarrow> string \<Rightarrow> int result" where
  "int_field row k = rbind (obj_index row k) (\<lambda>v. if is_int v then Inr (the_int v) else Inl TypeError)"

definition elapsed :: "string \<Rightarrow> string \<Rightarrow> json \<Rightarrow> int result" where
  "elapsed later earlier row = rbind (int_field row later) (\<lambda>a. rbind (int_field row earlier) (\<lambda>b. Inr (a - b)))"

record quantiles =
  qt_p50 :: "int option"
  qt_p95 :: "int option"
  qt_p99 :: "int option"

definition quantiles_of :: "int list \<Rightarrow> quantiles" where
  "quantiles_of v = \<lparr>qt_p50 = pooled_pct v (1 / 2), qt_p95 = pooled_pct v (fl (95 / 100)), qt_p99 = pooled_pct v (fl (99 / 100))\<rparr>"

record pooled =
  pl_operations :: nat
  pl_completed :: nat
  pl_outcomes :: "(json \<times> nat) list"
  pl_release_to_complete :: quantiles
  pl_submit_to_complete :: quantiles
  pl_lag_p50 :: "int option"
  pl_lag_p95 :: "int option"
  pl_lag_max :: "int option"
  pl_completed_bytes :: json
  pl_span :: int
  pl_throughput :: "rat option"

definition count_outcome :: "(json \<times> nat) list \<Rightarrow> json \<Rightarrow> (json \<times> nat) list" where
  "count_outcome table row =
     (let outcome = fld row ''outcome'' in
      AList.update outcome ((case map_of table outcome of Some n \<Rightarrow> n | None \<Rightarrow> 0) + 1) table)"

definition pooled_metrics :: "json list \<Rightarrow> pooled result" where
  "pooled_metrics rows =
     (let completed = filter (\<lambda>r. fld r ''complete_ns'' \<noteq> JNull) rows in
      rbind (mmap (elapsed ''complete_ns'' ''release_ns'') completed) (\<lambda>rtc.
      rbind (mmap (elapsed ''complete_ns'' ''submit_ns'') completed) (\<lambda>stc.
      rbind (mmap (elapsed ''submit_ns'' ''eligible_ns'') completed) (\<lambda>lag.
      rbind (mmap (\<lambda>r. int_field r ''coord_complete_ns'') completed) (\<lambda>ends.
      rbind (mmap (\<lambda>r. int_field r ''coord_release_ns'') completed) (\<lambda>begins.
      rbind (py_sum (map (\<lambda>r. if has_key r ''completed_bytes'' then fld r ''completed_bytes'' else JInt 0) completed)) (\<lambda>nbytes.
      let span = (if completed = [] then 0 else Max (set ends) - Min (set begins)) in
      Inr \<lparr>pl_operations = length rows, pl_completed = length completed, pl_outcomes = foldl count_outcome [] rows,
        pl_release_to_complete = quantiles_of rtc, pl_submit_to_complete = quantiles_of stc,
        pl_lag_p50 = pooled_pct lag (1 / 2), pl_lag_p95 = pooled_pct lag (fl (95 / 100)), pl_lag_max = (if lag = [] then None else Some (Max (set lag))),
        pl_completed_bytes = nbytes, pl_span = span,
        pl_throughput = (if span = 0 then None else Some (fl (fl (of_nat (length completed)) / fl (fl (of_int span) / 10 ^ 9))))\<rparr>)))))))"

section \<open>The files of a run\<close>

text \<open>
  \<open>_write\<close>: the summary, and the files with the JSON values they hold, one per line of a ledger. The
  run manifest, which repeats them beside facts of the host, is not rendered.
\<close>

record run_summary =
  rs_status :: string
  rs_run_id :: string
  rs_clients :: "(string \<times> json) list"
  rs_pooled :: "pooled option"

definition client_files :: "string \<times> json \<Rightarrow> ((string \<times> json list) list \<times> string \<times> json) result" where
  "client_files result = (case result of (c, r) \<Rightarrow>
     rbind (obj_index r ''summary'') (\<lambda>s. rbind (obj_index r ''rows'') (\<lambda>v. rbind (py_iter v) (\<lambda>rows.
     let dir = ''client-'' @ c @ ''/'' in
     Inr ([(dir @ ''ledger.jsonl'', rows), (dir @ ''summary.json'', [s])] @
          (if truthy (fld r ''manifest'') then [(dir @ ''fidelity-manifest.json'', [fld r ''manifest''])] else []), c, s)))))"

definition write_run :: "coord \<Rightarrow> string \<Rightarrow> json list \<Rightarrow> (run_summary \<times> (string \<times> json list) list) result" where
  "write_run co status rows =
     rbind (mmap client_files (co_results co)) (\<lambda>files.
     rbind (if rows = [] then Inr None else rbind (pooled_metrics rows) (\<lambda>p. Inr (Some p))) (\<lambda>p.
     Inr (\<lparr>rs_status = status, rs_run_id = co_run_id co, rs_clients = map snd files, rs_pooled = p\<rparr>,
          (''merged-ledger.jsonl'', rows) # concat (map fst files))))"

section \<open>A client\<close>

datatype client_end = Started | Aborted json

definition pong :: "json \<Rightarrow> int \<Rightarrow> json result" where
  "pong m now = rbind (obj_index m ''t0'') (\<lambda>t0. Inr (JObj [(''msg'', JStr ''pong''), (''t0'', t0), (''t_client'', JInt now)]))"

text \<open>
  A client that is ready answers pings until the start or an abort. The messages come with the
  readings of the client's clock; the connection is closed after the last one.
\<close>

fun client_wait :: "(json \<times> int) list \<Rightarrow> json list \<Rightarrow> (client_end \<times> json list \<times> (json \<times> int) list) result" where
  "client_wait [] sent = Inl (RuntimeError ''coordinator went away before start'')"
| "client_wait ((m, now) # inbox) sent =
     rbind (obj_index m ''msg'') (\<lambda>kind.
     if kind = JStr ''ping'' then rbind (pong m now) (\<lambda>p. client_wait inbox (sent @ [p]))
     else if kind = JStr ''start'' then Inr (Started, sent, inbox)
     else if kind = JStr ''abort'' then Inr (Aborted (fld m ''reason''), sent, inbox)
     else client_wait inbox sent)"

text \<open>After its result a client that keeps the connection answers pings until the end.\<close>

fun client_linger :: "(json \<times> int) list \<Rightarrow> json list \<Rightarrow> json list result" where
  "client_linger [] sent = Inr sent"
| "client_linger ((m, now) # inbox) sent =
     rbind (obj_index m ''msg'') (\<lambda>kind.
     if kind = JStr ''bye'' then Inr sent
     else if kind = JStr ''ping'' then rbind (pong m now) (\<lambda>p. client_linger inbox (sent @ [p]))
     else client_linger inbox sent)"

end
