(* ===== verification/Coordinator_Props.thy ===== *)
theory Coordinator_Props
  imports Coordinator
begin

text \<open>
  What a distributed run promises: framed messages arrive as they were sent, shards partition the
  workload, a run is complete only when every client delivered, and merged times are off by no more
  than the clock estimate allows.
\<close>

section \<open>Framing keeps messages\<close>

lemma sock_recv_concat:
  assumes "[] \<notin> set sock" "0 < n" "sock_recv n sock = (chunk, sock')"
  shows "concat sock = chunk @ concat sock'" "[] \<notin> set sock'" "length chunk \<le> n" "chunk = [] \<longleftrightarrow> sock = []"
  using assms by (cases sock; auto split: if_splits)+

lemma recv_exact_concat:
  assumes "[] \<notin> set sock" "length buf \<le> n" "n \<le> length buf + length (concat sock)"
  shows "\<exists>sock'. recv_exact n buf sock = (Some (buf @ take (n - length buf) (concat sock)), sock') \<and>
    concat sock' = drop (n - length buf) (concat sock) \<and> [] \<notin> set sock'"
  using assms
proof (induction n buf sock rule: recv_exact.induct)
  case (1 n buf sock)
  show ?case
  proof (cases "length buf < n")
    case True
    obtain chunk sock' where r: "sock_recv (n - length buf) sock = (chunk, sock')" by (cases "sock_recv (n - length buf) sock")
    note split = sock_recv_concat [OF 1(2) _ r]
    have ne: "chunk \<noteq> []" using split(4) True 1(4) by auto
    have "\<exists>s. recv_exact n (buf @ chunk) sock' = (Some ((buf @ chunk) @ take (n - length (buf @ chunk)) (concat sock')), s) \<and>
        concat s = drop (n - length (buf @ chunk)) (concat sock') \<and> [] \<notin> set s"
      using True split 1(4) by (intro 1(1) [OF True r [symmetric] ne]) auto
    moreover have "recv_exact n buf sock = recv_exact n (buf @ chunk) sock'"
      using True r ne by (simp add: recv_exact.simps [of n buf sock])
    moreover have "take (n - length buf) (concat sock) = chunk @ take (n - length (buf @ chunk)) (concat sock')"
      "drop (n - length buf) (concat sock) = drop (n - length (buf @ chunk)) (concat sock')"
      using split(1,3) True by simp_all
    ultimately show ?thesis by simp
  qed (use 1 in \<open>simp add: recv_exact.simps [of n buf sock]\<close>)
qed

lemma unpack_pack: "n < 2 ^ 32 \<Longrightarrow> unpack_u32 (pack_u32 n) = n"
proof -
  assume "n < 2 ^ 32"
  have split: "m = m div 256 * 256 + m mod 256" for m :: nat by simp
  have "n = ((n div 256 div 256 div 256 * 256 + n div 256 div 256 mod 256) * 256 + n div 256 mod 256) * 256 + n mod 256"
    by (metis split)
  moreover have "n div 256 div 256 div 256 mod 256 = n div 256 div 256 div 256" using \<open>n < 2 ^ 32\<close> by simp
  ultimately show ?thesis by (simp add: unpack_u32_def pack_u32_def unat_of_nat div_mult2_eq [symmetric])
qed

lemma recv_send:
  assumes "send dumps v = Inr frame" "loads (dumps v) = Some v" "[] \<notin> set sock" "concat sock = frame @ rest"
  shows "\<exists>sock'. recv loads sock = Inr (Some v, sock') \<and> concat sock' = rest \<and> [] \<notin> set sock'"
proof -
  have size: "length (dumps v) < 2 ^ 32" and frame: "frame = pack_u32 (length (dumps v)) @ dumps v"
    using assms(1) by (auto simp: send_def Let_def rbind_Inr_iff require_Inr_iff)
  have four: "length (pack_u32 k) = 4" for k by (simp add: pack_u32_def)
  obtain s1 where s1: "recv_exact 4 [] sock = (Some (pack_u32 (length (dumps v))), s1)" "concat s1 = dumps v @ rest" "[] \<notin> set s1"
    using recv_exact_concat [OF assms(3), of "[]" 4] assms(4) frame four by auto
  obtain s2 where "recv_exact (length (dumps v)) [] s1 = (Some (dumps v), s2)" "concat s2 = rest" "[] \<notin> set s2"
    using recv_exact_concat [OF s1(3), of "[]" "length (dumps v)"] s1(2) by auto
  then show ?thesis using s1(1) assms(2) unpack_pack [OF size] by (simp add: recv_def)
qed

text \<open>The first \<open>n\<close> messages of a connection.\<close>

fun recv_many :: "(bytes \<Rightarrow> json option) \<Rightarrow> nat \<Rightarrow> bytes list \<Rightarrow> (json option list \<times> bytes list) result" where
  "recv_many loads 0 sock = Inr ([], sock)"
| "recv_many loads (Suc n) sock =
     rbind (recv loads sock) (\<lambda>(m, sock). rbind (recv_many loads n sock) (\<lambda>(ms, sock). Inr (m # ms, sock)))"

lemma recv_closed: "[] \<notin> set sock \<Longrightarrow> concat sock = [] \<Longrightarrow> recv loads sock = Inr (None, [])"
  by (cases sock) (simp_all add: recv_def recv_exact.simps [of 4 "[]" "[]"])

lemma recv_many_sent:
  assumes "mmap (send dumps) vs = Inr frames" "\<And>v. v \<in> set vs \<Longrightarrow> loads (dumps v) = Some v" "[] \<notin> set sock" "concat sock = concat frames"
  shows "\<exists>sock'. recv_many loads (length vs) sock = Inr (map Some vs, sock') \<and> concat sock' = [] \<and> [] \<notin> set sock'"
  using assms
proof (induction vs arbitrary: frames sock)
  case (Cons v vs)
  then obtain f fs where f: "frames = f # fs" "send dumps v = Inr f" "mmap (send dumps) vs = Inr fs" by (auto simp: rbind_Inr_iff)
  obtain s1 where s1: "recv loads sock = Inr (Some v, s1)" "concat s1 = concat fs" "[] \<notin> set s1"
    using recv_send [OF f(2), of loads sock "concat fs"] Cons.prems f(1) by auto
  then obtain s2 where "recv_many loads (length vs) s1 = Inr (map Some vs, s2)" "concat s2 = []" "[] \<notin> set s2"
    using Cons.IH [OF f(3), of s1] Cons.prems(2) by auto
  then show ?case using s1 by simp
qed simp

section \<open>The clock estimate\<close>

text \<open>
  A round trip of a client whose clock is \<open>theta\<close> ahead, with delays \<open>d1\<close> on the way out and \<open>d2\<close> on the
  way back.
\<close>

definition round_trip :: "int \<Rightarrow> int \<Rightarrow> int \<Rightarrow> int \<Rightarrow> int \<times> json option \<times> int" where
  "round_trip theta t0 d1 d2 =
     (t0, Some (JObj [(''msg'', JStr ''pong''), (''t0'', JInt t0), (''t_client'', JInt (t0 + d1 + theta))]), t0 + d1 + d2)"

definition honest_trip :: "int \<Rightarrow> int \<times> json option \<times> int \<Rightarrow> bool" where
  "honest_trip theta trip \<longleftrightarrow> (\<exists>t0 d1 d2. 0 \<le> d1 \<and> 0 \<le> d2 \<and> trip = round_trip theta t0 d1 d2)"

definition sample_ok :: "int \<Rightarrow> int \<times> int \<Rightarrow> bool" where
  "sample_ok theta s \<longleftrightarrow> - (fst s div 2) \<le> snd s - theta \<and> snd s - theta \<le> fst s div 2 + 1"

lemma probe_once_ok:
  assumes "honest_trip theta trip"
  shows "\<exists>s. probe_once samples trip = Inr (samples @ [s]) \<and> sample_ok theta s"
  using assms by (auto simp: honest_trip_def round_trip_def probe_once_def sample_ok_def Let_def obj_index_def)

lemma probes_ok:
  "\<forall>t\<in>set trips. honest_trip theta t \<Longrightarrow> \<exists>new. mfold probe_once samples trips = Inr (samples @ new) \<and> length new = length trips \<and> (\<forall>s\<in>set new. sample_ok theta s)"
proof (induction trips arbitrary: samples)
  case (Cons t trips)
  obtain s where s: "probe_once samples t = Inr (samples @ [s])" "sample_ok theta s" using probe_once_ok [of theta t samples] Cons.prems by (meson list.set_intros(1))
  obtain new where "mfold probe_once (samples @ [s]) trips = Inr ((samples @ [s]) @ new)" "length new = length trips" "\<forall>s\<in>set new. sample_ok theta s"
    using Cons.IH [of "samples @ [s]"] Cons.prems by auto
  then show ?case using s by (intro exI [of _ "s # new"]) simp
qed simp

lemma probe_clock_ok:
  assumes "\<forall>i<PROBES. honest_trip theta (trip i)"
  obtains est where "probe_clock trip = Inr est" "\<bar>ce_offset est - theta\<bar> \<le> ce_uncertainty est + 1" "ce_uncertainty est = ce_min_rtt est div 2"
proof -
  obtain samples where s: "mfold probe_once [] (map trip [0..<PROBES]) = Inr samples" "length samples = PROBES" "\<forall>s\<in>set samples. sample_ok theta s"
    using probes_ok [of "map trip [0..<PROBES]" theta "[]"] assms by auto
  then have "samples \<noteq> []" by (auto simp: PROBES_def)
  then have "Min (set samples) \<in> set samples" by simp
  then have "sample_ok theta (Min (set samples))" using s(3) by blast
  then show ?thesis using s(1) that by (simp add: probe_clock_def sample_ok_def Let_def abs_le_iff)
qed

section \<open>Shards partition the workload\<close>

abbreviation op_name :: "json \<Rightarrow> string" where "op_name op \<equiv> the_str (fld op ''op_id'')"

abbreviation op_stream :: "json \<Rightarrow> json" where "op_stream op \<equiv> fld op ''stream''"

lemma name_field_Inr [result_simps]: "name_field v k = Inr s \<longleftrightarrow> fld v k = JStr s"
  using fld_nonnull_has_key [of v k] fld_nonnull_is_obj [of v k] by (cases "fld v k") (auto simp: name_field_def rbind_Inr_iff obj_index_def)

lemma dict_index_Inr [result_simps]: "dict_index d k = Inr v \<longleftrightarrow> map_of d k = Some v"
  by (simp add: dict_index_def split: option.split)

lemma owners:
  assumes "mfold (add_owner assignment) [] ops = Inr owner" "distinct (map op_name ops)"
  shows "\<forall>op\<in>set ops. map_of owner (op_name op) = map_of assignment (op_stream op) \<and> map_of assignment (op_stream op) \<noteq> None"
  using assms(1)
proof (rule mfold_rule [where I = "\<lambda>ys owner. \<forall>op\<in>set ys. map_of owner (op_name op) = map_of assignment (op_stream op) \<and> map_of assignment (op_stream op) \<noteq> None"], goal_cases)
  case (2 ys x zs u u')
  obtain c where c: "map_of assignment (op_stream x) = Some c" "u' = AList.update (op_name x) c u"
    using 2(3) by (auto simp: add_owner_def result_simps)
  have "\<forall>y\<in>set ys. op_name y \<noteq> op_name x" using assms(2) unfolding 2(1) by (force simp: image_iff)
  then show ?case using 2(2) c by (simp add: update_conv)
qed simp

lemma cross_dep_grows: "cross_dep owner op cross d = Inr [] \<Longrightarrow> cross = [] \<and> map_of owner (the_str (fld d ''op'')) = map_of owner (op_name op)"
  by (auto simp: cross_dep_def result_simps split: if_splits)

lemma mfold_stays_empty:
  assumes "mfold f acc xs = Inr []" "\<And>acc x. f acc x = Inr [] \<Longrightarrow> acc = [] \<and> P x"
  shows "acc = [] \<and> (\<forall>x\<in>set xs. P x)"
  using assms(1) by (induction xs arbitrary: acc) (auto simp: rbind_Inr_iff dest!: assms(2))

lemma cross_deps_grows:
  assumes "cross_deps owner cross op = Inr []"
  shows "cross = [] \<and> (is_list (fld op ''deps'') \<longrightarrow> (\<forall>d\<in>set (v3_deps op). map_of owner d = map_of owner (op_name op)))"
proof -
  obtain ds where ds: "py_iter (fld op ''deps'') = Inr ds" "mfold (cross_dep owner op) cross ds = Inr []"
    using assms by (auto simp: cross_deps_def result_simps)
  have "cross = [] \<and> (\<forall>d\<in>set ds. map_of owner (the_str (fld d ''op'')) = map_of owner (op_name op))"
    by (rule mfold_stays_empty [OF ds(2)]) (rule cross_dep_grows)
  then show ?thesis using ds(1) by (auto simp: v3_deps_def is_list_iff)
qed

lemma cross_none:
  assumes "mfold (cross_deps owner) [] ops = Inr []"
  shows "\<forall>op\<in>set ops. is_list (fld op ''deps'') \<longrightarrow> (\<forall>d\<in>set (v3_deps op). map_of owner d = map_of owner (op_name op))"
  by (rule conjunct2 [OF mfold_stays_empty [OF assms]]) (rule cross_deps_grows)

lemma shard_for_Inr:
  assumes "shard_for sorted_text wl ops assignment owner c = Inr s"
  shows "validate_workload s = Inr s" "v3_operations s = renumber (filter (\<lambda>op. map_of owner (op_name op) = Some c) ops)"
proof -
  have same: "validate_workload a = Inr b \<Longrightarrow> b = a" for a b by (simp add: validate_workload_iff)
  show "validate_workload s = Inr s" "v3_operations s = renumber (filter (\<lambda>op. map_of owner (op_name op) = Some c) ops)"
    using assms unfolding shard_for_def Let_def rbind_Inr_iff by (auto simp: fld_set dest: same)
qed

lemma add_shards:
  assumes "mfold (add_shard sorted_text wl ops assignment owner) [] clients = Inr shards"
  shows "distinct (map fst shards) \<and> set (map fst shards) = set clients \<and>
    (\<forall>c s. map_of shards c = Some s \<longrightarrow> shard_for sorted_text wl ops assignment owner c = Inr s)"
  using assms
proof (rule mfold_rule [where I = "\<lambda>ys shards. distinct (map fst shards) \<and> set (map fst shards) = set ys \<and>
    (\<forall>c s. map_of shards c = Some s \<longrightarrow> shard_for sorted_text wl ops assignment owner c = Inr s)"], goal_cases)
  case (2 ys x zs u u')
  then obtain s where "shard_for sorted_text wl ops assignment owner x = Inr s" "u' = AList.update x s u"
    by (auto simp: add_shard_def rbind_Inr_iff)
  then show ?case using 2(2) by (auto simp: update_conv distinct_update dom_update split: if_splits)
qed simp

lemma length_renumber [simp]: "length (renumber ops) = length ops"
  by (simp add: renumber_def)

lemma nth_renumber [simp]: "i < length ops \<Longrightarrow> renumber ops ! i = obj_set (ops ! i) ''seq'' (JInt (int i))"
  by (simp add: renumber_def nth_enumerate_eq)

lemma round_robin_clients:
  assumes "round_robin clients streams = Inr assignment" "map_of assignment s = Some c"
  shows "c \<in> set clients"
proof -
  have "(s, c) \<in> set assignment" using assms(2) by (rule map_of_SomeD)
  then show ?thesis
    using assms(1) by (cases "streams = []") (auto simp: round_robin_def result_simps in_set_enumerate_eq)
qed

definition owned_by :: "(json \<times> string) list \<Rightarrow> json \<Rightarrow> string \<Rightarrow> bool" where
  "owned_by assignment op c \<longleftrightarrow> map_of assignment (op_stream op) = Some c"

lemma shard_workload_parts:
  assumes "shard_workload sorted_text wl clients assignment = Inr (shards, used)" "validate_workload wl = Inr wl"
  obtains owner where
    "\<forall>op\<in>set (v3_operations wl). map_of owner (op_name op) = map_of used (op_stream op) \<and> map_of used (op_stream op) \<noteq> None"
    "\<forall>op\<in>set (v3_operations wl). \<forall>d\<in>set (v3_deps op). map_of owner d = map_of owner (op_name op)"
    "mfold (add_shard sorted_text wl (v3_operations wl) used owner) [] clients = Inr shards"
    "assignment = None \<longrightarrow> (\<exists>streams. round_robin clients streams = Inr used)"
proof -
  obtain timing where ok: "v3_ops_ok wl timing (v3_nodes wl) (v3_initial_handles wl) (v3_operations wl)"
    using validate_workload_ops_ok [OF assms(2)] .
  have list: "is_list (fld wl ''operations'')" using assms(2) unfolding validate_workload_iff by blast
  have lists: "\<forall>op\<in>set (v3_operations wl). is_list (fld op ''deps'')"
    using ok by (auto simp: v3_ops_ok_def v3_op_ok_def in_set_conv_nth)
  have names: "distinct (map op_name (v3_operations wl))"
  proof -
    have "\<forall>op\<in>set (v3_operations wl). fld op ''op_id'' = JStr (op_name op)"
      using v3_ops_ok_ids [OF ok] by (fastforce simp: is_str_iff)
    then show ?thesis using v3_ops_ok_distinct [OF ok] unfolding distinct_map inj_on_def by metis
  qed
  show ?thesis
    using assms(1) unfolding shard_workload_def rbind_Inr_iff require_Inr_iff sum.inject prod.inject
    apply (elim exE conjE)
    subgoal premises p for v ops streams used' _ _ owner cross _ shards'
    proof (rule that [of owner])
      have ops: "ops = v3_operations wl" using p(1,2) list by (auto simp: result_simps is_list_iff)
      show "\<forall>op\<in>set (v3_operations wl). map_of owner (op_name op) = map_of used (op_stream op) \<and> map_of used (op_stream op) \<noteq> None"
        using owners p(7) names ops p(12) by simp
      show "\<forall>op\<in>set (v3_operations wl). \<forall>d\<in>set (v3_deps op). map_of owner d = map_of owner (op_name op)"
        using cross_none [of owner ops] p(8,9) lists ops by simp
      show "mfold (add_shard sorted_text wl (v3_operations wl) used owner) [] clients = Inr shards" using p(10-12) ops by simp
      show "assignment = None \<longrightarrow> (\<exists>streams. round_robin clients streams = Inr used)" using p(4,12) by auto
    qed
    done
qed

lemma shard_workload_facts:
  assumes "shard_workload sorted_text wl clients assignment = Inr (shards, used)" "validate_workload wl = Inr wl"
  shows "distinct (map fst shards)" "set (map fst shards) = set clients"
    "map_of shards c = Some s \<Longrightarrow> validate_workload s = Inr s"
    "map_of shards c = Some s \<Longrightarrow> v3_operations s = renumber (filter (\<lambda>op. owned_by used op c) (v3_operations wl))"
    "op \<in> set (v3_operations wl) \<Longrightarrow> \<exists>c. owned_by used op c"
    "op \<in> set (v3_operations wl) \<Longrightarrow> assignment = None \<Longrightarrow> owned_by used op c \<Longrightarrow> c \<in> set clients"
    "op \<in> set (v3_operations wl) \<Longrightarrow> op' \<in> set (v3_operations wl) \<Longrightarrow> op_name op' \<in> set (v3_deps op) \<Longrightarrow> owned_by used op c \<Longrightarrow> owned_by used op' c"
proof -
  obtain owner where o1: "\<forall>op\<in>set (v3_operations wl). map_of owner (op_name op) = map_of used (op_stream op) \<and> map_of used (op_stream op) \<noteq> None"
    and o2: "\<forall>op\<in>set (v3_operations wl). \<forall>d\<in>set (v3_deps op). map_of owner d = map_of owner (op_name op)"
    and o3: "mfold (add_shard sorted_text wl (v3_operations wl) used owner) [] clients = Inr shards"
    and o4: "assignment = None \<longrightarrow> (\<exists>streams. round_robin clients streams = Inr used)"
    using shard_workload_parts [OF assms] .
  note add = add_shards [OF o3]
  show "distinct (map fst shards)" "set (map fst shards) = set clients" using add by blast+
  show "map_of shards c = Some s \<Longrightarrow> validate_workload s = Inr s" using add shard_for_Inr(1) by blast
  show "v3_operations s = renumber (filter (\<lambda>op. owned_by used op c) (v3_operations wl))" if "map_of shards c = Some s"
  proof -
    have "v3_operations s = renumber (filter (\<lambda>op. map_of owner (op_name op) = Some c) (v3_operations wl))"
      using add that shard_for_Inr(2) by blast
    moreover have "filter (\<lambda>op. map_of owner (op_name op) = Some c) (v3_operations wl) = filter (\<lambda>op. owned_by used op c) (v3_operations wl)"
      using o1 by (intro filter_cong) (simp_all add: owned_by_def)
    ultimately show ?thesis by simp
  qed
  show "op \<in> set (v3_operations wl) \<Longrightarrow> \<exists>c. owned_by used op c" using o1 by (auto simp: owned_by_def)
  show "op \<in> set (v3_operations wl) \<Longrightarrow> assignment = None \<Longrightarrow> owned_by used op c \<Longrightarrow> c \<in> set clients"
    using o4 round_robin_clients unfolding owned_by_def by blast
  show "op \<in> set (v3_operations wl) \<Longrightarrow> op' \<in> set (v3_operations wl) \<Longrightarrow> op_name op' \<in> set (v3_deps op) \<Longrightarrow> owned_by used op c \<Longrightarrow> owned_by used op' c"
    using o1 o2 unfolding owned_by_def by metis
qed

section \<open>The coordinator's invariant\<close>

abbreviation clock_keys :: "coord \<Rightarrow> string set" where "clock_keys co \<equiv> set (map fst (co_clock co))"

definition all_done :: "(string \<times> json) list \<Rightarrow> bool" where
  "all_done results \<longleftrightarrow> (\<forall>(c, r)\<in>set results. msg_is (Some r) ''done'' = Inr True)"

definition conn_inv :: "coord \<Rightarrow> bool" where
  "conn_inv co \<longleftrightarrow> set (map fst (co_shards co)) = set (co_clients co) \<and> distinct (co_conns co) \<and> set (co_conns co) \<subseteq> set (co_clients co) \<and>
     set (co_answering co) \<subseteq> set (co_conns co)"

definition clock_inv :: "coord \<Rightarrow> bool" where
  "clock_inv co \<longleftrightarrow> distinct (map fst (co_clock co)) \<and> length (co_clock co) = co_ready_count co \<and> clock_keys co \<subseteq> set (co_conns co) \<and>
     clock_keys co \<inter> set (co_answering co) = {} \<and> (co_ready_event co \<longrightarrow> clock_keys co = set (co_clients co))"

fun phase_inv :: "phase \<Rightarrow> coord \<Rightarrow> bool" where
  "phase_inv Waiting co \<longleftrightarrow> co_results co = []"
| "phase_inv (Collecting status rest) co \<longleftrightarrow> co_ready_event co \<and> all_done (co_results co) \<and>
     (\<exists>heard. co_conns co = heard @ rest \<and> set (map fst (co_results co)) \<subseteq> set heard \<and> (status = ''complete'' \<longrightarrow> map fst (co_results co) = heard))"
| "phase_inv (Finished status) co \<longleftrightarrow> (status = ''complete'' \<longrightarrow>
     co_ready_event co \<and> all_done (co_results co) \<and> map fst (co_results co) = co_conns co \<and> merge co = Inr (co_rows co))"

definition coord_inv :: "coord \<Rightarrow> bool" where
  "coord_inv co \<longleftrightarrow> conn_inv co \<and> clock_inv co \<and> phase_inv (co_phase co) co"

lemma ready_all:
  assumes "conn_inv co" "clock_inv co" "co_ready_event co"
  shows "set (co_conns co) = set (co_clients co)" "co_answering co = []"
proof -
  have clock: "clock_keys co \<subseteq> set (co_conns co)" "clock_keys co \<inter> set (co_answering co) = {}" "clock_keys co = set (co_clients co)"
    using assms(2,3) unfolding clock_inv_def by blast+
  have conn: "set (co_conns co) \<subseteq> set (co_clients co)" "set (co_answering co) \<subseteq> set (co_conns co)"
    using assms(1) unfolding conn_inv_def by blast+
  show "set (co_conns co) = set (co_clients co)" using conn(1) clock(1) [unfolded clock(3)] by (rule subset_antisym)
  have "set (co_answering co) = {}" using Int_absorb1 [OF subset_trans [OF conn(2) conn(1)]] clock(2) [unfolded clock(3)] by simp
  then show "co_answering co = []" by simp
qed

lemma claim_inv:
  assumes "coord_inv co"
  shows "coord_inv (fst (claim send_ok r co))"
proof -
  have inv: "conn_inv co" "clock_inv co" "phase_inv (co_phase co) co" using assms by (simp_all add: coord_inv_def)
  have fail: "coord_inv (co\<lparr>co_failures := f\<rparr>)" for f
    using inv by (cases "co_phase co") (auto simp: coord_inv_def conn_inv_def clock_inv_def merge_def)
  have new: "coord_inv (co\<lparr>co_conns := co_conns co @ [c], co_answering := co_answering co @ [c], co_hello := h\<rparr>)"
    if "c \<in> set (map fst (co_shards co))" "c \<notin> set (co_conns co)" for c h
  proof -
    have c: "c \<in> set (co_clients co)" using inv(1) that(1) by (simp add: conn_inv_def)
    then have "\<not> co_ready_event co" using ready_all [OF inv(1,2)] that(2) by auto
    then have "phase_inv (co_phase co) (co\<lparr>co_conns := co_conns co @ [c], co_answering := co_answering co @ [c], co_hello := h\<rparr>)"
      using inv(3) by (cases "co_phase co") auto
    then show ?thesis using inv(1,2) c that by (auto simp: coord_inv_def conn_inv_def clock_inv_def)
  qed
  show ?thesis unfolding claim_def
    using assms fail new by (auto split: sum.split bool.split)
qed

lemma update_new: "k \<notin> set (map fst al) \<Longrightarrow> AList.update k v al = al @ [(k, v)]"
  by (induction al) auto

lemma answer_inv:
  assumes "coord_inv co" "c \<in> set (co_answering co)"
  shows "coord_inv (answer text_of c r trip co)"
proof -
  have inv: "conn_inv co" "clock_inv co" "phase_inv (co_phase co) co" using assms by (simp_all add: coord_inv_def)
  then have nr: "\<not> co_ready_event co" using ready_all(2) assms(2) by force
  have c: "c \<in> set (co_conns co)" "c \<notin> clock_keys co" using inv(1,2) assms(2) by (auto simp: conn_inv_def clock_inv_def)
  let ?co = "co\<lparr>co_answering := removeAll c (co_answering co)\<rparr>"
  have base: "conn_inv (?co\<lparr>co_failures := f\<rparr>)" "clock_inv (?co\<lparr>co_failures := f\<rparr>)" "phase_inv (co_phase co) (?co\<lparr>co_failures := f\<rparr>)"
    "conn_inv ?co" "clock_inv ?co" "phase_inv (co_phase co) ?co" for f
    using inv nr by (cases "co_phase co"; auto simp: conn_inv_def clock_inv_def)+
  have ready: "coord_inv (?co\<lparr>co_clock := AList.update c est (co_clock co), co_hello := h, co_ready_count := co_ready_count co + 1,
      co_ready_event := co_ready_event co \<or> co_ready_count co + 1 = length (co_clients co)\<rparr>)" (is "coord_inv ?new") for est h
  proof -
    have "insert c (clock_keys co) = set (co_clients co)" if "co_ready_count co + 1 = length (co_clients co)"
    proof (rule card_subset_eq)
      show "insert c (clock_keys co) \<subseteq> set (co_clients co)" using inv(1,2) c by (auto simp: conn_inv_def clock_inv_def)
      have "card (clock_keys co) = co_ready_count co" using inv(2) by (metis clock_inv_def distinct_card length_map)
      then have "card (insert c (clock_keys co)) = length (co_clients co)" using c(2) that by simp
      then show "card (insert c (clock_keys co)) = card (set (co_clients co))"
        using card_length [of "co_clients co"] card_mono [OF _ \<open>insert c (clock_keys co) \<subseteq> set (co_clients co)\<close>] by simp
    qed simp
    then have "clock_inv ?new"
      using inv(2) c nr update_new [OF c(2), of est] by (auto simp: clock_inv_def)
    moreover have "conn_inv ?new" using inv(1) by (auto simp: conn_inv_def)
    moreover have "phase_inv (co_phase co) ?new" using inv(3) nr by (cases "co_phase co") auto
    ultimately show ?thesis by (simp add: coord_inv_def)
  qed
  show ?thesis unfolding answer_def Let_def
    using base ready by (auto simp: coord_inv_def split: sum.split bool.split)
qed

lemma decide_inv:
  assumes "coord_inv co" "co_phase co = Waiting"
  shows "coord_inv (decide now co)"
  using assms by (auto simp: decide_def coord_inv_def conn_inv_def clock_inv_def all_done_def)

lemma msg_is_True: "msg_is r kind = Inr True \<Longrightarrow> r \<noteq> None"
  by (cases r) (simp_all add: msg_is_def)

lemma clock_inv_cong:
  assumes "clock_inv co" "map fst (co_clock co') = map fst (co_clock co)" "co_ready_count co' = co_ready_count co" "co_conns co' = co_conns co"
    "co_answering co' = co_answering co" "co_ready_event co' = co_ready_event co" "co_clients co' = co_clients co"
  shows "clock_inv co'"
proof -
  have "length (co_clock co') = length (co_clock co)" using assms(2) by (metis length_map)
  then show ?thesis using assms(1) unfolding clock_inv_def assms(2-) by simp
qed

lemma collect_cases:
  assumes "co_phase co = Collecting status (c # rest)" "collect text_of r trip co = Inr co'"
  obtains f where "co' = co\<lparr>co_failures := f, co_phase := Collecting ''partial'' rest\<rparr>"
  | clocks where "msg_is (Some (the r)) ''done'' = Inr True" "map fst clocks = map fst (co_clock co)"
      "co' = co\<lparr>co_results := AList.update c (the r) (co_results co), co_phase := Collecting status rest, co_clock := clocks\<rparr>"
proof -
  obtain good where good: "msg_is r ''done'' = Inr good" using assms by (auto simp: collect_def rbind_Inr_iff)
  show ?thesis
  proof (cases good)
    case False
    then show ?thesis using assms good that(1) by (auto simp: collect_def)
  next
    case True
    then have msg: "msg_is (Some (the r)) ''done'' = Inr True" using good msg_is_True by (cases r) auto
    let ?co = "co\<lparr>co_results := AList.update c (the r) (co_results co), co_phase := Collecting status rest\<rparr>"
    show ?thesis
    proof (cases "truthy (fld (the r) ''keep_open'')")
      case keep: True
      then obtain est last_est where "map_of (co_clock co) c = Some est" "co' = ?co\<lparr>co_clock := AList.update c (end_clock est last_est) (co_clock co)\<rparr>"
        using assms good True by (auto simp: collect_def Let_def result_simps)
      moreover from this have "c \<in> set (map fst (co_clock co))" by (metis map_of_eq_None_iff option.distinct(1) list.set_map)
      ultimately show ?thesis using that(2) [OF msg, of "AList.update c (end_clock est last_est) (co_clock co)"] by (simp add: update_keys)
    next
      case False
      then have "co' = ?co" using assms good True by (auto simp: collect_def Let_def)
      then show ?thesis using that(2) [OF msg, of "co_clock co"] by simp
    qed
  qed
qed

lemma collect_inv:
  assumes "coord_inv co" "co_phase co = Collecting status (c # rest)" "collect text_of r trip co = Inr co'"
  shows "coord_inv co'"
proof -
  have inv: "conn_inv co" "clock_inv co" using assms(1) by (simp_all add: coord_inv_def)
  obtain heard where ready: "co_ready_event co" "all_done (co_results co)"
    and heard: "co_conns co = heard @ c # rest" "set (map fst (co_results co)) \<subseteq> set heard"
      "status = ''complete'' \<longrightarrow> map fst (co_results co) = heard"
    using assms(1,2) by (auto simp: coord_inv_def)
  have "distinct (co_conns co)" using inv(1) by (simp add: conn_inv_def)
  then have c: "c \<notin> set (map fst (co_results co))" using heard(1,2) by auto
  from assms(2,3) show ?thesis
  proof (cases rule: collect_cases)
    case (1 f)
    have "phase_inv (Collecting ''partial'' rest) co'"
      unfolding 1 using ready heard(1,2) by (auto intro!: exI [of _ "heard @ [c]"])
    moreover have "clock_inv co'" using inv(2) by (rule clock_inv_cong) (simp_all add: 1)
    moreover have "conn_inv co'" using inv(1) by (simp add: 1 conn_inv_def)
    ultimately show ?thesis by (simp add: coord_inv_def 1)
  next
    case (2 clocks)
    have results: "co_results co' = co_results co @ [(c, the r)]" by (simp add: 2(3) update_new [OF c])
    have "phase_inv (Collecting status rest) co'"
      unfolding phase_inv.simps results
      using ready heard 2(1) by (intro conjI exI [of _ "heard @ [c]"]) (auto simp: 2(3) all_done_def)
    moreover have "clock_inv co'" using inv(2) by (rule clock_inv_cong) (simp_all add: 2)
    moreover have "conn_inv co'" using inv(1) by (simp add: 2(3) conn_inv_def)
    ultimately show ?thesis by (simp add: coord_inv_def 2(3))
  qed
qed

lemma finish_cases:
  assumes "co_phase co = Collecting status []" "finish co = Inr co'"
  obtains rows where "merge co = Inr rows" "co_failures co = []" "co' = co\<lparr>co_phase := Finished status, co_rows := rows\<rparr>"
  | rows where "merge co = Inr rows" "co_failures co \<noteq> []"
      "co' = co\<lparr>co_reported := Some (co_failures co), co_phase := Finished ''partial'', co_rows := rows\<rparr>"
proof -
  obtain rows where rows: "merge co = Inr rows" using assms by (auto simp: finish_def rbind_Inr_iff)
  show ?thesis
  proof (cases "co_failures co = []")
    case True
    then have "co' = co\<lparr>co_phase := Finished status, co_rows := rows\<rparr>" using assms rows by (simp add: finish_def)
    then show ?thesis using that(1) rows True by simp
  next
    case False
    then have "co' = co\<lparr>co_reported := Some (co_failures co), co_phase := Finished ''partial'', co_rows := rows\<rparr>"
      using assms rows by (simp add: finish_def)
    then show ?thesis using that(2) rows False by simp
  qed
qed

lemma finish_inv:
  assumes "coord_inv co" "co_phase co = Collecting status []" "finish co = Inr co'"
  shows "coord_inv co'"
proof -
  have inv: "conn_inv co" "clock_inv co" "phase_inv (Collecting status []) co" using assms(1,2) by (simp_all add: coord_inv_def)
  from assms(2,3) show ?thesis
  proof (cases rule: finish_cases)
    case (1 rows)
    have "phase_inv (Finished status) co'" using inv(3) 1 by (auto simp: merge_def)
    moreover have "conn_inv co'" using inv(1) by (simp add: 1 conn_inv_def)
    moreover have "clock_inv co'" using inv(2) by (rule clock_inv_cong) (simp_all add: 1)
    ultimately show ?thesis by (simp add: coord_inv_def 1)
  next
    case (2 rows)
    have "conn_inv co'" using inv(1) by (simp add: 2 conn_inv_def)
    moreover have "clock_inv co'" using inv(2) by (rule clock_inv_cong) (simp_all add: 2)
    ultimately show ?thesis by (simp add: coord_inv_def 2)
  qed
qed

lemma coord_step_inv: "coord_step text_of co co' \<Longrightarrow> coord_inv co \<Longrightarrow> coord_inv co'"
  by (induction rule: coord_step.induct) (auto intro: claim_inv answer_inv decide_inv collect_inv finish_inv)

definition valid_start :: "(json list \<Rightarrow> string) \<Rightarrow> json \<Rightarrow> string list \<Rightarrow> coord \<Rightarrow> bool" where
  "valid_start sorted_text wl clients co \<longleftrightarrow> validate_workload wl = Inr wl \<and>
     (\<exists>assignment run_id profile cont. new_coord sorted_text wl clients assignment run_id profile cont = Inr co)"

lemma new_coord_inv: "valid_start sorted_text wl clients co \<Longrightarrow> coord_inv co \<and> co_clients co = clients"
proof -
  assume "valid_start sorted_text wl clients co"
  then obtain shards used assignment run_id profile cont where p:
    "shard_workload sorted_text wl clients assignment = Inr (shards, used)" "validate_workload wl = Inr wl"
    "new_coord sorted_text wl clients assignment run_id profile cont = Inr co"
    unfolding valid_start_def new_coord_def by (auto simp: rbind_Inr_iff)
  have co: "co = \<lparr>co_clients = clients, co_shards = shards, co_assignment = used, co_run_id = run_id, co_profile = profile, co_content = cont,
       co_conns = [], co_answering = [], co_hello = [], co_clock = [], co_results = [], co_failures = [], co_ready_count = 0,
       co_ready_event = False, co_phase = Waiting, co_start = 0, co_reported = None, co_rows = []\<rparr>"
    using p(1,3) by (simp add: new_coord_def)
  show "coord_inv co \<and> co_clients co = clients"
    using shard_workload_facts(2) [OF p(1,2)] by (simp add: co coord_inv_def conn_inv_def clock_inv_def)
qed

lemma claim_clients: "co_clients (fst (claim send_ok r co)) = co_clients co"
  by (simp add: claim_def split: sum.split bool.split)

lemma answer_clients: "co_clients (answer text_of c r trip co) = co_clients co"
  by (simp add: answer_def Let_def split: sum.split bool.split)

lemma collect_clients: "co_phase co = Collecting status (c # rest) \<Longrightarrow> collect text_of r trip co = Inr co' \<Longrightarrow> co_clients co' = co_clients co"
  by (erule (1) collect_cases) simp_all

lemma finish_clients: "co_phase co = Collecting status [] \<Longrightarrow> finish co = Inr co' \<Longrightarrow> co_clients co' = co_clients co"
  by (erule (1) finish_cases) simp_all

lemma coord_step_clients: "coord_step text_of co co' \<Longrightarrow> co_clients co' = co_clients co"
proof (induction rule: coord_step.induct)
  case (decided co now)
  then show ?case by (simp add: decide_def)
qed (rule claim_clients answer_clients collect_clients finish_clients; assumption)+

interpretation coordination: state_machine "valid_start sorted_text wl clients" "coord_step text_of" "\<lambda>co. coord_inv co \<and> co_clients co = clients"
  for sorted_text wl clients text_of
proof
  show "coord_inv s \<and> co_clients s = clients" if "valid_start sorted_text wl clients s" for s
    using that by (rule new_coord_inv)
  show "coord_inv t \<and> co_clients t = clients" if "coord_step text_of s t" "coord_inv s \<and> co_clients s = clients" for s t
    using coord_step_inv [OF that(1)] coord_step_clients [OF that(1)] that(2) by simp
qed

section \<open>The merged ledger\<close>

lemma py_add_ints: "py_add (JInt a) (JInt b) = Inr (JInt (a + b))"
  by (simp add: py_add_def py_arith_def)

lemma coord_time_fld:
  assumes "coord_time off start t0 row k = Inr row'"
  shows "j \<noteq> ''coord_'' @ k \<Longrightarrow> fld row' j = fld row j"
    "fld row k = JInt v \<Longrightarrow> t0 = JInt t \<Longrightarrow> fld row' (''coord_'' @ k) = JInt (v + t - off - start)"
  using assms by (auto simp: coord_time_def rbind_Inr_iff fld_set py_add_ints split: if_splits)

lemma merge_row_cases:
  assumes "merge_row c off start t0 row = Inr row'"
  obtains r1 r2 r3 where "is_obj row" "coord_time off start t0 (obj_set row ''client'' (JStr c)) ''release_ns'' = Inr r1"
    "coord_time off start t0 r1 ''eligible_ns'' = Inr r2" "coord_time off start t0 r2 ''submit_ns'' = Inr r3"
    "coord_time off start t0 r3 ''complete_ns'' = Inr row'"
  using assms by (auto simp: merge_row_def TIME_KEYS_def result_simps)

lemma merge_row_keeps:
  assumes "merge_row c off start t0 row = Inr row'" "j \<notin> set (map (\<lambda>k. ''coord_'' @ k) TIME_KEYS)"
  shows "fld row' j = (if j = ''client'' then JStr c else fld row j)"
  using assms(1)
proof (rule merge_row_cases)
  fix r1 r2 r3
  assume steps: "coord_time off start t0 (obj_set row ''client'' (JStr c)) ''release_ns'' = Inr r1"
    "coord_time off start t0 r1 ''eligible_ns'' = Inr r2" "coord_time off start t0 r2 ''submit_ns'' = Inr r3"
    "coord_time off start t0 r3 ''complete_ns'' = Inr row'"
  have "j \<noteq> ''coord_'' @ ''release_ns''" "j \<noteq> ''coord_'' @ ''eligible_ns''" "j \<noteq> ''coord_'' @ ''submit_ns''" "j \<noteq> ''coord_'' @ ''complete_ns''"
    using assms(2) by (simp_all add: TIME_KEYS_def)
  then show "fld row' j = (if j = ''client'' then JStr c else fld row j)"
    using steps [THEN coord_time_fld(1), of j] by (simp add: fld_set)
qed

lemma merge_row_time:
  assumes "merge_row c off start (JInt t) row = Inr row'" "k \<in> set TIME_KEYS" "fld row k = JInt v"
  shows "fld row' (''coord_'' @ k) = JInt (v + t - off - start)"
  using assms(1)
proof (rule merge_row_cases)
  fix r1 r2 r3
  let ?row = "obj_set row ''client'' (JStr c)"
  assume steps: "coord_time off start (JInt t) ?row ''release_ns'' = Inr r1"
    "coord_time off start (JInt t) r1 ''eligible_ns'' = Inr r2" "coord_time off start (JInt t) r2 ''submit_ns'' = Inr r3"
    "coord_time off start (JInt t) r3 ''complete_ns'' = Inr row'"
  have same: "fld r1 k = fld row k" "fld r2 k = fld row k" "fld r3 k = fld row k" "fld ?row k = fld row k"
    using steps [THEN coord_time_fld(1), of k] assms(2) by (auto simp: TIME_KEYS_def fld_set)
  note kept = steps(2-4) [THEN coord_time_fld(1), of "''coord_'' @ k"]
  consider "k = ''release_ns''" | "k = ''eligible_ns''" | "k = ''submit_ns''" | "k = ''complete_ns''" using assms(2) by (auto simp: TIME_KEYS_def)
  then show "fld row' (''coord_'' @ k) = JInt (v + t - off - start)"
  proof cases
    case 1
    then show ?thesis using kept coord_time_fld(2) [OF steps(1) _ refl, of v] same assms(3) by simp
  next
    case 2
    then show ?thesis using kept(2,3) coord_time_fld(2) [OF steps(2) _ refl, of v] same assms(3) by simp
  next
    case 3
    then show ?thesis using kept(3) coord_time_fld(2) [OF steps(3) _ refl, of v] same assms(3) by simp
  next
    case 4
    then show ?thesis using coord_time_fld(2) [OF steps(4) _ refl, of v] same assms(3) by simp
  qed
qed

text \<open>What identifies a row: its client, its operation and its outcome.\<close>

definition row_id :: "json \<Rightarrow> json \<times> json \<times> json" where
  "row_id row = (fld row ''client'', fld row ''op_id'', fld row ''outcome'')"

definition delivered :: "string \<times> json \<Rightarrow> (json \<times> json \<times> json) list" where
  "delivered result = (case result of (c, r) \<Rightarrow>
     map (\<lambda>x. (JStr c, fld x ''op_id'', fld x ''outcome'')) (the_list (fld r ''rows'')))"

lemma merge_row_id: "merge_row c off start t0 row = Inr row' \<Longrightarrow> row_id row' = (JStr c, fld row ''op_id'', fld row ''outcome'')"
  by (simp add: row_id_def merge_row_keeps TIME_KEYS_def)

lemma merge_rows_ids:
  "mmap (merge_row c off start t0) rows = Inr merged \<Longrightarrow> map row_id merged = map (\<lambda>x. (JStr c, fld x ''op_id'', fld x ''outcome'')) rows"
  by (induction rows arbitrary: merged) (auto simp: rbind_Inr_iff merge_row_id)

lemma merge_client_ids:
  assumes "merge_client clocks start rows result = Inr rows'"
  shows "map row_id rows' = map row_id rows @ delivered result"
proof -
  obtain c r where result: "result = (c, r)" by (cases result)
  obtain est :: clock_est and t0 theirs merged where p: "py_iter (fld r ''rows'') = Inr theirs"
    "mmap (merge_row c (ce_offset est) start t0) theirs = Inr merged" "rows' = rows @ merged"
    using assms by (auto simp: merge_client_def result result_simps simp del: mmap_Inr_iff)
  have "theirs = the_list (fld r ''rows'')"
  proof (cases "is_list (fld r ''rows'')")
    case False
    then have "theirs = []" using p(1,2)
      by (cases "fld r ''rows''"; cases theirs) (auto simp: rbind_Inr_iff merge_row_def require_def split: if_splits)
    then show ?thesis using False by (cases "fld r ''rows''") auto
  qed (use p(1) in \<open>auto simp: is_list_iff\<close>)
  then show ?thesis using merge_rows_ids [OF p(2)] p(3) by (simp add: delivered_def result)
qed

lemma merge_ids:
  assumes "merge co = Inr rows"
  shows "map row_id rows = concat (map delivered (co_results co))"
  using assms unfolding merge_def
  by (rule mfold_rule [where I = "\<lambda>done rows. map row_id rows = concat (map delivered done)"]) (auto dest: merge_client_ids)

section \<open>Runs of the coordinator as sequences of events\<close>

datatype coord_event =
    Claim bool "json option"
  | Answer string "json option" "nat \<Rightarrow> int \<times> json option \<times> int"
  | Decide int
  | Collect "json option" "nat \<Rightarrow> int \<times> json option \<times> int"
  | Finish

fun drive :: "(json option \<Rightarrow> string) \<Rightarrow> coord_event \<Rightarrow> coord \<Rightarrow> coord option" where
  "drive text_of (Claim send_ok r) co = Some (fst (claim send_ok r co))"
| "drive text_of (Answer c r trip) co = (if c \<in> set (co_answering co) then Some (answer text_of c r trip co) else None)"
| "drive text_of (Decide now) co = (case co_phase co of Waiting \<Rightarrow> Some (decide now co) | _ \<Rightarrow> None)"
| "drive text_of (Collect r trip) co = (case co_phase co of
      Collecting status (c # rest) \<Rightarrow> (case collect text_of r trip co of Inr co' \<Rightarrow> Some co' | Inl _ \<Rightarrow> None) | _ \<Rightarrow> None)"
| "drive text_of Finish co = (case co_phase co of
      Collecting status [] \<Rightarrow> (case finish co of Inr co' \<Rightarrow> Some co' | Inl _ \<Rightarrow> None) | _ \<Rightarrow> None)"

fun drive_all :: "(json option \<Rightarrow> string) \<Rightarrow> coord_event list \<Rightarrow> coord \<Rightarrow> coord option" where
  "drive_all text_of [] co = Some co"
| "drive_all text_of (e # es) co = (case drive text_of e co of Some co' \<Rightarrow> drive_all text_of es co' | None \<Rightarrow> None)"

lemma drive_step: "drive text_of e co = Some co' \<Longrightarrow> coord_step text_of co co'"
  by (cases e) (auto intro: coord_step.intros split: if_splits phase.splits list.splits sum.splits)

lemma drive_all_steps: "drive_all text_of es co = Some co' \<Longrightarrow> (coord_step text_of)\<^sup>*\<^sup>* co co'"
proof (induction es arbitrary: co)
  case (Cons e es)
  then obtain s where "drive text_of e co = Some s" "drive_all text_of es s = Some co'" by (auto split: option.splits)
  then show ?case using Cons.IH drive_step by (meson converse_rtranclp_into_rtranclp)
qed simp

section \<open>An example\<close>

text \<open>A workload of two streams for two clients, and a run to which each of them delivers one row.\<close>

definition two_streams :: json where
  "two_streams = (case add_op v3_example_workload ((v3_example_op ''d'' ''open'' []
     [(''path'', JStr ''d/g''), (''flags'', JList [JStr ''rdwr'', JStr ''creat'']), (''handle'', JStr ''h2'')])\<lparr>pa_stream := JStr ''s1''\<rparr>) of
     Inr wl \<Rightarrow> wl | Inl _ \<Rightarrow> JNull)"

lemma two_streams_ok: "validate_workload two_streams = Inr two_streams"
  by code_simp

definition no_text :: "'a \<Rightarrow> string" where "no_text v = []"

definition two_shards :: "(string \<times> json) list \<times> (json \<times> string) list" where
  "two_shards = (case shard_workload no_text two_streams [''c0'', ''c1''] None of Inr p \<Rightarrow> p | Inl _ \<Rightarrow> ([], []))"

lemma two_shards_ok:
  "shard_workload no_text two_streams [''c0'', ''c1''] None = Inr (fst two_shards, snd two_shards)"
  by code_simp

lemma two_shards_ops:
  "map (\<lambda>(c, s). (c, map (\<lambda>op. the_str (fld op ''op_id'')) (v3_operations s))) (fst two_shards) = [(''c0'', [''a'', ''b'', ''c'']), (''c1'', [''d''])]"
  by code_simp

definition example_start :: coord where
  "example_start = projr (new_coord no_text two_streams [''c0'', ''c1''] None ''run'' (JStr ''dependency'') (JStr ''zeros''))"

lemma example_start_ok: "valid_start no_text two_streams [''c0'', ''c1''] example_start"
proof -
  have "new_coord no_text two_streams [''c0'', ''c1''] None ''run'' (JStr ''dependency'') (JStr ''zeros'') = Inr example_start"
    unfolding example_start_def new_coord_def two_shards_ok by (simp split: prod.split)
  then show ?thesis unfolding valid_start_def using two_streams_ok by blast
qed

definition example_trip :: "nat \<Rightarrow> int \<times> json option \<times> int" where
  "example_trip i = round_trip 100 (10 * int i) 1 0"

definition example_result :: "string \<Rightarrow> json option" where
  "example_result i = Some (JObj [(''msg'', JStr ''done''), (''start_client_ns'', JInt 1000), (''summary'', JObj []),
     (''rows'', JList [JObj [(''op_id'', JStr i), (''outcome'', JStr ''success''), (''release_ns'', JInt 5), (''eligible_ns'', JInt 5),
        (''submit_ns'', JInt 6), (''complete_ns'', JInt 9)]])])"

definition example_events :: "coord_event list" where
  "example_events = [Claim True (Some (JObj [(''msg'', JStr ''hello''), (''client'', JStr ''c1'')])),
     Claim True (Some (JObj [(''msg'', JStr ''hello''), (''client'', JStr ''c0'')])),
     Answer ''c0'' (Some (JObj [(''msg'', JStr ''ready'')])) example_trip, Answer ''c1'' (Some (JObj [(''msg'', JStr ''ready'')])) example_trip,
     Decide 900, Collect (example_result ''d'') example_trip, Collect (example_result ''a'') example_trip, Finish]"

definition example_end_state :: coord where
  "example_end_state = (case drive_all no_text example_events example_start of Some co \<Rightarrow> co | None \<Rightarrow> example_start)"

lemma example_run_ok: "(coord_step no_text)\<^sup>*\<^sup>* example_start example_end_state"
proof -
  have "case drive_all no_text example_events example_start of Some _ \<Rightarrow> True | None \<Rightarrow> False"
    by code_simp
  then have "drive_all no_text example_events example_start = Some example_end_state"
    unfolding example_end_state_def by (auto split: option.splits)
  then show ?thesis by (rule drive_all_steps)
qed

lemma example_finished: "co_phase example_end_state = Finished ''complete''"
  by code_simp

section \<open>Properties\<close>

text \<open>
  C7. Sharding a valid workload partitions it. There is one shard for each client, and it is a valid
  workload of its own: the operations of that client's streams in their order, renumbered from zero.
  Every operation belongs to exactly one client; with the default round-robin assignment that client
  is one of the given ones; and an operation never depends on one of another client.
\<close>

theorem shard_workload_partitions:
  assumes "shard_workload sorted_text wl clients assignment = Inr (shards, used)" "validate_workload wl = Inr wl"
  shows "distinct (map fst shards) \<and> set (map fst shards) = set clients \<and>
    (\<forall>c s. map_of shards c = Some s \<longrightarrow> validate_workload s = Inr s \<and>
       v3_operations s = renumber (filter (\<lambda>op. owned_by used op c) (v3_operations wl))) \<and>
    (\<forall>op\<in>set (v3_operations wl). (\<exists>!c. owned_by used op c) \<and>
       (\<forall>c. owned_by used op c \<longrightarrow> (assignment = None \<longrightarrow> c \<in> set clients) \<and>
          (\<forall>op'\<in>set (v3_operations wl). op_name op' \<in> set (v3_deps op) \<longrightarrow> owned_by used op' c)))"
proof (intro conjI ballI allI impI)
  note facts = shard_workload_facts [OF assms]
  show "distinct (map fst shards)" "set (map fst shards) = set clients" by (rule facts)+
  show "\<exists>!c. owned_by used op c" if "op \<in> set (v3_operations wl)" for op
    using facts(5) [OF that] by (auto simp: owned_by_def)
  show "validate_workload s = Inr s" "v3_operations s = renumber (filter (\<lambda>op. owned_by used op c) (v3_operations wl))"
    if "map_of shards c = Some s" for c s
    using that by (rule facts)+
  show "c \<in> set clients" if "op \<in> set (v3_operations wl)" "owned_by used op c" "assignment = None" for op c
    using that(1,3,2) by (rule facts)
  show "owned_by used op' c" if "op \<in> set (v3_operations wl)" "owned_by used op c" "op' \<in> set (v3_operations wl)" "op_name op' \<in> set (v3_deps op)"
    for op c op'
    using that(1,3,4,2) by (rule facts)
qed

theorem shard_workload_partitions_witness:
  "set (map fst (fst two_shards)) = {''c0'', ''c1''} \<and> (\<exists>!c. owned_by (snd two_shards) (hd (v3_operations two_streams)) c)"
proof -
  have "v3_operations two_streams \<noteq> []" by code_simp
  then have "hd (v3_operations two_streams) \<in> set (v3_operations two_streams)" by simp
  then show ?thesis using shard_workload_partitions [OF two_shards_ok two_streams_ok] by simp
qed

text \<open>
  C3. A distributed run that ends as complete lost nothing and repeated nothing. However the
  connections, the answers and the run interleave, every client delivered a result, none delivered
  two, every client's clock was estimated, and the merged ledger has exactly the rows the clients
  delivered, each with its client, in their order.
\<close>

theorem complete_run_delivers:
  assumes "valid_start sorted_text wl clients co0" "(coord_step text_of)\<^sup>*\<^sup>* co0 co" "co_phase co = Finished ''complete''"
  shows "distinct (map fst (co_results co)) \<and> set (map fst (co_results co)) = set clients \<and>
    (\<forall>(c, r)\<in>set (co_results co). msg_is (Some r) ''done'' = Inr True) \<and> set (map fst (co_clock co)) = set clients \<and>
    map row_id (co_rows co) = concat (map delivered (co_results co))"
proof -
  have inv: "conn_inv co" "clock_inv co" "phase_inv (co_phase co) co" "co_clients co = clients"
    using coordination.reachable_state_inv [OF assms(1,2)] by (simp_all add: coord_inv_def)
  then have fin: "co_ready_event co" "all_done (co_results co)" "map fst (co_results co) = co_conns co" "merge co = Inr (co_rows co)"
    using assms(3) by simp_all
  have "set (co_conns co) = set clients" using ready_all(1) [OF inv(1,2) fin(1)] inv(4) by simp
  moreover have "distinct (co_conns co)" using inv(1) by (simp add: conn_inv_def)
  moreover have "clock_keys co = set clients" using inv(2,4) fin(1) by (simp add: clock_inv_def)
  ultimately show ?thesis using fin merge_ids by (simp add: all_done_def)
qed

theorem complete_run_delivers_witness:
  "set (map fst (co_results example_end_state)) = {''c0'', ''c1''} \<and>
   map row_id (co_rows example_end_state) = concat (map delivered (co_results example_end_state))"
  using complete_run_delivers [OF example_start_ok example_run_ok example_finished] by simp

text \<open>
  C25. How far off merged times are. If a client's clock runs a constant \<open>theta\<close> ahead and the round
  trips of the probe took whatever time they took in either direction, the probe returns, and the
  coordinator time that merging gives to any time of a row of that client differs from the true one
  by at most the recorded uncertainty and one nanosecond: half an odd round trip is rounded down.
\<close>

theorem merged_time_error:
  assumes "\<forall>i<PROBES. honest_trip theta (trip i)"
  shows "\<exists>est. probe_clock trip = Inr est \<and>
    (\<forall>c start t row row' k v. merge_row c (ce_offset est) start (JInt t) row = Inr row' \<and> k \<in> set TIME_KEYS \<and> fld row k = JInt v \<longrightarrow>
       (\<exists>w. fld row' (''coord_'' @ k) = JInt w \<and> \<bar>w - (v + t - theta - start)\<bar> \<le> ce_uncertainty est + 1))"
proof -
  obtain est where est: "probe_clock trip = Inr est" "\<bar>ce_offset est - theta\<bar> \<le> ce_uncertainty est + 1"
    using probe_clock_ok [OF assms] by blast
  have "\<exists>w. fld row' (''coord_'' @ k) = JInt w \<and> \<bar>w - (v + t - theta - start)\<bar> \<le> ce_uncertainty est + 1"
    if "merge_row c (ce_offset est) start (JInt t) row = Inr row'" "k \<in> set TIME_KEYS" "fld row k = JInt v" for c start t row row' k v
    using merge_row_time [OF that] est(2) by (intro exI [of _ "v + t - ce_offset est - start"]) linarith
  then show ?thesis using est(1) by blast
qed

theorem merged_time_error_witness:
  "\<exists>est. probe_clock example_trip = Inr est \<and> ce_uncertainty est = 0 \<and> ce_offset est = 101"
proof -
  have "\<forall>i<PROBES. honest_trip 100 (example_trip i)"
    proof (intro allI impI)
    fix i
    have "(0 :: int) \<le> 1 \<and> (0 :: int) \<le> 0 \<and> example_trip i = round_trip 100 (10 * int i) 1 0" by (simp add: example_trip_def)
    then show "honest_trip 100 (example_trip i)" unfolding honest_trip_def by blast
  qed
  then obtain est where est: "probe_clock example_trip = Inr est" using merged_time_error by blast
  have "(case probe_clock example_trip of Inr est \<Rightarrow> ce_uncertainty est = 0 \<and> ce_offset est = 101 | Inl _ \<Rightarrow> False)" by code_simp
  with est show ?thesis by simp
qed

end
