(* ===== verification/Spec2Isabelle.thy ===== *)
theory Spec2Isabelle
  imports Executor_Props V1_Carry Posix_Fs Kv_Representation Replay_Bundle Capture_Normalize Coordinator_Props
begin

text \<open>
  A verification development for the storage-workload tools under \<open>src/tools/kvio\<close> and the NVMe replay
  tools under \<open>src/examples/replay\<close>.

  The kvio tools record what an inference engine asks of its storage, turn the recording into an
  engine-neutral record, check such records, translate between their schema versions, and replay
  them on a target, from one process or from several clients. The replay tools turn a capture of
  NVMe commands into a fio iolog, replay it, and compare the two command streams.

  \<^bold>\<open>How the parts interact.\<close> An engine adapter calls the recorder; the normalizer makes a v2 record of
  the file; a v1 record, which is derived from a model's KV-cache geometry, is carried to v2 as well;
  the v2 record becomes a v3 workload; the executor validates a v2 or v3 record and runs it on a
  target; the coordinator splits a v3 workload by stream, gives each client its shard and merges the
  ledgers. On the other side the capture format is read by the iolog translation and by the stream
  comparison, which share the replay bundle.

  \<^bold>\<open>Conventions.\<close> A Python exception is a value of \<open>exn\<close>, and a function that may raise returns
  \<open>exn + 'a\<close>, composed with \<open>rbind\<close>, \<open>mfold\<close> and \<open>mmap\<close>. Decoded JSON is the datatype \<open>json\<close>, with
  Python's equality and truth value; a dictionary is an association list in insertion order. Python
  integers are \<open>int\<close>; doubles are exact rationals with the rounding \<open>fl\<close> to 53 bits. State is passed
  explicitly; threads are steps of an inductive relation. What comes from outside the sources is a
  parameter: digests, the JSON encoder and decoder, clocks, the peers' answers, and which records
  the file system accepts.

  \<^bold>\<open>Theories.\<close>

  \<^item> \<open>Kvio_Prelude\<close>, \<open>Kvio_Json\<close>: exceptions as values, loops that may raise, decimal rendering, decoded
    JSON, and the locale \<open>state_machine\<close>, a step relation with an invariant. \<open>Py_Float\<close>: the arithmetic
    of Python numbers. \<open>Text_Lines\<close>: words and lines.
  \<^item> \<open>Intent_V1\<close> (\<open>intent.py\<close>): building a v1 record, lowering it to target commands, checking a plan.
    The lowering covers every object exactly once, and the plan check accepts what it produces.
  \<^item> \<open>Intent_V2\<close> (\<open>intent2.py\<close>) and \<open>Workload_V3\<close> (\<open>workload3.py\<close>): builders, validators, digests and the
    v2-to-v3 adapter. What an accepted record guarantees: dependencies lead backwards, loads see a
    live version, components tile an object, ranges stay inside, calls are typed, handles are open.
    \<open>V1_Carry\<close> is the v1-to-v2 adapter with the order it keeps.
  \<^item> \<open>Content_Profile\<close> (\<open>content_profile.py\<close>): the synthetic bytes of an object; reading a range gives the
    bytes of the whole.
  \<^item> \<open>Object_Backend\<close>, \<open>Executor\<close>, \<open>Executor_Run\<close>, \<open>Executor_Props\<close> (\<open>intent_exec.py\<close>): the interface of a
    target as a record of functions, with the contract \<open>verified_backend\<close> that \<open>FakeBackend\<close> meets; the
    event-driven simulated run, its ledger and summary. The run returns, completes every operation,
    never submits one before its prerequisites and its delay, and keeps the worker budget.
  \<^item> \<open>Posix_Fs\<close> (\<open>posix_fs.py\<close>): the in-memory file system: every call returns, reads see writes, an
    unlinked file lives while it is open.
  \<^item> \<open>Kv_Geometry\<close> (\<open>kv_geometry.py\<close>), \<open>Kv_Representation\<close> (\<open>kv_representation.py\<close>): the bytes of a KV cache
    and of its stored representations; derived sets pass their own validator.
  \<^item> \<open>Nvme_Capture\<close> (\<open>capture_format.py\<close>), \<open>Fio_Iolog\<close> (\<open>mk_dev_iolog.py\<close>), \<open>Stream_Compare\<close> and
    \<open>Stream_Props\<close> (\<open>compare_streams.py\<close>), \<open>Replay_Bundle\<close> (both): reading a capture, the iolog and its
    certificate, pairing completions with commands, the verdict of a comparison, and a bundle that a
    torn update cannot pass as whole.
  \<^item> \<open>Capture_Recorder\<close>, \<open>Capture_Normalize\<close> (\<open>capture_events.py\<close>): the recorder's threads as steps on the
    record \<open>recorder\<close>, one step for each place where another thread can come between (\<open>submit\<close>,
    \<open>advance\<close>, \<open>enqueue\<close>, \<open>drain\<close>, \<open>close_mark\<close>, \<open>put_sentinel\<close>), and \<open>normalize_capture\<close>. Every accepted
    record is accounted for, closing ends, a complete capture has no hole, and one loss that goes
    unnoticed.
  \<^item> \<open>Coordinator\<close>, \<open>Coordinator_Props\<close> (\<open>coordinator.py\<close>): framing, sharding, the clock probe, the
    coordinator's threads as steps on the record \<open>coord\<close> (\<open>claim\<close>, \<open>answer\<close>, \<open>decide\<close>, \<open>collect\<close>,
    \<open>finish\<close>), merging and pooled metrics. Shards partition a workload, framed messages arrive as
    sent, a complete run has every client's rows, merged times are off by a bounded error.

  The locale \<open>state_machine\<close> is interpreted on the recorder (\<open>recording\<close>) and on the coordinator
  (\<open>coordination\<close>), \<open>verified_backend\<close> on the in-memory object target (\<open>fake\<close>).

  \<^bold>\<open>Bounds and fuel.\<close> \<open>sim_loop\<close>, \<open>v1_split\<close> and \<open>content_loop\<close> are \<open>partial_function (option)\<close>; that they
  return is proved, for the simulated run for every record the validator accepts. \<open>hash_loop\<close> has
  fuel, one unit for each 64-byte digest a block needs, which a lemma shows to be enough. All
  other loops are structural or have a termination proof.

  \<^bold>\<open>Not modelled.\<close> Command lines and printing; real storage (\<open>RealFS\<close>, \<open>RecordingFS\<close>, \<open>s3_client.py\<close>, the
  threaded run \<open>_run_real\<close>); sockets and the host facts of a run manifest; the engine adapters
  (\<open>lmcache_adapter.py\<close>, \<open>lmcache_capture_hook.py\<close>), which only forward calls of a third-party library
  to the recorder; workload generation and agent traces; benchmarks, releases and the catalog; the
  analyzers, plots, kernel monitors and the C and Rust programs. They are input and output around
  the modelled parts, measure real hardware, or depend on code outside the sources.
\<close>

end
